(* ===== verification/JsNumber.thy ===== *)
theory JsNumber
  imports Complex_Main "HOL-Library.Log_Nat"
begin

section \<open>JavaScript numbers and SQL decimals\<close>

text \<open>
  Every price, total and balance of the services is a JavaScript \<^verbatim>\<open>number\<close>, an
  IEEE binary64 value, and is kept in PostgreSQL columns declared
  \<^verbatim>\<open>decimal(p, 2)\<close>. Both representations round, so the arithmetic of the model
  rounds too. A number is the rational it denotes; \<open>fl\<close> rounds an exact result to 53
  significant bits, ties to even (the exponent is not bounded: no value of the program comes
  near the ends of the binary64 range); \<open>dec2\<close> is the rounding of a value stored in a
  column of scale 2, half away from zero, and \<open>fits_decimal\<close> is the range check of a
  column of precision \<open>p\<close>. The lemmas give the sign, the relative error and the exactness
  facts the money theorems rest on.
\<close>

type_synonym number = rat

subsection \<open>Definitions\<close>

definition ilog2 :: "rat \<Rightarrow> int" where
  "ilog2 x =
     (let (p, q) = quotient_of x; k = bitlen p - bitlen q
      in if x < 2 powi k then k - 1 else k)"

definition round_even :: "rat \<Rightarrow> int" where
  "round_even y =
     (let f = \<lfloor>y\<rfloor>; d = y - of_int f
      in if d < 1 / 2 then f
         else if d > 1 / 2 then f + 1
         else if even f then f else f + 1)"

definition fl :: "rat \<Rightarrow> number" where
  "fl x =
     (if x = 0 then 0
      else let u = 2 powi (ilog2 \<bar>x\<bar> - 52) in of_int (round_even (x / u)) * u)"

definition num_add :: "number \<Rightarrow> number \<Rightarrow> number" where
  "num_add a b = fl (a + b)"

definition num_sub :: "number \<Rightarrow> number \<Rightarrow> number" where
  "num_sub a b = fl (a - b)"

definition num_mul :: "number \<Rightarrow> number \<Rightarrow> number" where
  "num_mul a b = fl (a * b)"

definition dec2 :: "rat \<Rightarrow> rat" where
  "dec2 x = sgn x * of_int \<lfloor>100 * \<bar>x\<bar> + 1 / 2\<rfloor> / 100"

definition fits_decimal :: "nat \<Rightarrow> rat \<Rightarrow> bool" where
  "fits_decimal p x \<longleftrightarrow> \<bar>dec2 x\<bar> < 10 ^ (p - 2)"

definition fits_int4 :: "int \<Rightarrow> bool" where
  "fits_int4 n \<longleftrightarrow> - 2147483648 \<le> n \<and> n \<le> 2147483647"

subsection \<open>The binary exponent\<close>

lemma powi_add_nat: "(2 :: rat) powi (int m) = 2 ^ m"
  by simp

lemma powi_pos [simp]: "0 < (2 :: rat) powi k"
  by (simp add: zero_less_power_int)

lemma powi_step: "(2 :: rat) powi (k + 1) = 2 * 2 powi k"
  by (simp add: power_int_add)

lemma powi_diff2: "(2 :: rat) powi (a - b) = 2 powi a / 2 powi b"
  by (simp add: power_int_diff)

lemma bitlen_rat_bounds:
  assumes "0 < n"
  shows "(2 :: rat) powi (bitlen n - 1) \<le> of_int n" "of_int n < (2 :: rat) powi (bitlen n)"
proof -
  have b: "2 ^ nat (bitlen n - 1) \<le> n" "n < 2 ^ nat (bitlen n)"
    using bitlen_bounds [of n] assms by auto
  have pos: "0 \<le> bitlen n - 1" "0 \<le> bitlen n"
    using assms bitlen_eq_zero_iff [of n] bitlen_nonneg [of n] by auto
  have "(2 :: rat) powi (bitlen n - 1) = of_int (2 ^ nat (bitlen n - 1))"
    using pos by (simp add: power_int_def)
  also have "\<dots> \<le> of_int n"
    using b(1) by (simp only: of_int_le_iff)
  finally show "(2 :: rat) powi (bitlen n - 1) \<le> of_int n" .
  have "of_int n < (of_int (2 ^ nat (bitlen n)) :: rat)"
    using b(2) by (simp only: of_int_less_iff)
  also have "\<dots> = 2 powi (bitlen n)"
    using pos by (simp add: power_int_def)
  finally show "of_int n < (2 :: rat) powi (bitlen n)" .
qed

lemma ilog2_bounds:
  assumes "0 < x"
  shows "2 powi (ilog2 x) \<le> x" "x < 2 powi (ilog2 x + 1)"
proof -
  obtain p q where pq: "quotient_of x = (p, q)" by force
  have q: "0 < q" using quotient_of_denom_pos [OF pq] .
  have x: "x = of_int p / of_int q" using quotient_of_div [OF pq] .
  have p: "0 < p" using assms q by (simp add: x zero_less_divide_iff)
  let ?k = "bitlen p - bitlen q"
  have "(2 :: rat) powi (bitlen p - 1) / 2 powi (bitlen q) \<le> x"
    unfolding x using bitlen_rat_bounds [OF p] bitlen_rat_bounds [OF q] p q
    by (intro frac_le) auto
  then have lo: "2 powi (?k - 1) \<le> x"
    by (simp add: power_int_diff)
  have "x < (2 :: rat) powi (bitlen p) / 2 powi (bitlen q - 1)"
    unfolding x using bitlen_rat_bounds [OF p] bitlen_rat_bounds [OF q] p q
    by (intro frac_less) auto
  then have hi: "x < 2 powi (?k + 1)"
    by (simp add: power_int_diff power_int_add)
  show "2 powi (ilog2 x) \<le> x" "x < 2 powi (ilog2 x + 1)"
    using lo hi by (auto simp: ilog2_def pq Let_def not_less)
qed

lemma ilog2_unique:
  assumes "2 powi k \<le> x" "x < 2 powi (k + 1)"
  shows "ilog2 x = k"
proof -
  have pos: "0 < x" using assms(1) powi_pos [of k] by linarith
  have mono: "a \<le> b" if "(2 :: rat) powi a < 2 powi (b + 1)" for a b
  proof (rule ccontr)
    assume "\<not> a \<le> b"
    then have "(2 :: rat) powi (b + 1) \<le> 2 powi a"
      by (intro power_int_increasing) auto
    with that show False by simp
  qed
  from ilog2_bounds [OF pos] assms have "(2 :: rat) powi k < 2 powi (ilog2 x + 1)"
    "(2 :: rat) powi (ilog2 x) < 2 powi (k + 1)" by linarith+
  then show ?thesis using mono by (meson antisym)
qed

subsection \<open>Rounding to binary64\<close>

lemma round_even_close: "\<bar>of_int (round_even y) - y\<bar> \<le> 1 / 2"
proof -
  have "of_int \<lfloor>y\<rfloor> \<le> y" "y < of_int \<lfloor>y\<rfloor> + 1" by linarith+
  then show ?thesis
    unfolding round_even_def Let_def abs_le_iff
    by (simp split: if_split) linarith
qed

lemma round_even_int [simp]: "round_even (of_int n) = n"
  by (simp add: round_even_def)

lemma round_even_nonneg: "0 \<le> y \<Longrightarrow> 0 \<le> round_even y"
  by (auto simp: round_even_def Let_def)

lemma fl_0 [simp]: "fl 0 = 0"
  by (simp add: fl_def)

lemma fl_nonneg: "0 \<le> x \<Longrightarrow> 0 \<le> fl x"
  by (auto simp: fl_def Let_def intro!: mult_nonneg_nonneg round_even_nonneg)

theorem fl_error: "\<bar>fl x - x\<bar> \<le> \<bar>x\<bar> / 2 ^ 53"
proof (cases "x = 0")
  case False
  let ?e = "ilog2 \<bar>x\<bar>"
  let ?u = "2 powi (?e - 52) :: rat"
  have u: "0 < ?u" by simp
  have "fl x - x = (of_int (round_even (x / ?u)) - x / ?u) * ?u"
    using False u by (simp add: fl_def Let_def left_diff_distrib)
  then have "\<bar>fl x - x\<bar> \<le> 1 / 2 * ?u"
    using round_even_close [of "x / ?u"] u by (simp add: abs_mult mult_right_mono)
  also have "\<dots> = 2 powi ?e / 2 ^ 53"
    by (simp add: power_int_diff)
  also have "\<dots> \<le> \<bar>x\<bar> / 2 ^ 53"
    using ilog2_bounds(1) [of "\<bar>x\<bar>"] False by (intro divide_right_mono) auto
  finally show ?thesis .
qed simp

lemma fl_int_exact:
  assumes "\<bar>n\<bar> < 2 ^ 53"
  shows "fl (of_int n) = of_int n"
proof (cases "n = 0")
  case False
  let ?x = "of_int n :: rat"
  let ?e = "ilog2 \<bar>?x\<bar>"
  have "2 powi ?e \<le> \<bar>?x\<bar>" using False by (intro ilog2_bounds(1)) auto
  also have "\<bar>?x\<bar> < 2 powi (53 :: int)"
  proof -
    have "(of_int \<bar>n\<bar> :: rat) < of_int (2 ^ 53)" using assms by (simp only: of_int_less_iff)
    then show ?thesis by simp
  qed
  finally have less: "(2 :: rat) powi ?e < 2 powi 53" .
  have "?e \<le> 52"
  proof (rule ccontr)
    assume "\<not> ?e \<le> 52"
    then have "(2 :: rat) powi 53 \<le> 2 powi ?e" by (intro power_int_increasing) auto
    with less show False by simp
  qed
  then obtain k where k: "?e - 52 = - int k"
    by (metis add.inverse_inverse diff_le_0_iff_le int_nat_eq neg_0_le_iff_le nonneg_int_cases)
  then have u: "(2 :: rat) powi (?e - 52) = 1 / 2 ^ k"
    unfolding k by (simp add: power_int_minus inverse_eq_divide)
  have "?x / (1 / 2 ^ k) = of_int (n * 2 ^ k)" by simp
  then show ?thesis
    using False by (simp only: fl_def u Let_def round_even_int) simp
qed simp

subsection \<open>Columns of scale two\<close>

lemma dec2_nonneg: "0 \<le> x \<Longrightarrow> 0 \<le> dec2 x"
  by (auto simp: dec2_def sgn_if)

lemma dec2_0 [simp]: "dec2 0 = 0"
  by (simp add: dec2_def)

lemma dec2_near:
  assumes "0 \<le> k" "\<bar>x - of_int k / 100\<bar> < 1 / 200"
  shows "dec2 x = of_int k / 100"
proof (cases "0 < x")
  case True
  have "\<lfloor>100 * x + 1 / 2\<rfloor> = k"
    using assms(2) by (intro floor_unique) linarith+
  with True show ?thesis by (simp add: dec2_def)
next
  case False
  have "of_int k / 100 < (1 / 200 :: rat)" using assms(2) False by linarith
  then have "of_int k < (1 :: rat)" by linarith
  with assms(1) have k: "k = 0" by linarith
  have "\<lfloor>100 * \<bar>x\<bar> + 1 / 2\<rfloor> = 0"
    using assms(2) k by (intro floor_unique) (simp, linarith)
  with k show ?thesis by (simp add: dec2_def)
qed

lemma dec2_minus: "dec2 (- x) = - dec2 x"
  by (simp add: dec2_def sgn_minus)

lemma dec2_near_int:
  assumes "\<bar>x - of_int k / 100\<bar> < 1 / 200"
  shows "dec2 x = of_int k / 100"
proof (cases "0 \<le> k")
  case True
  then show ?thesis using assms by (rule dec2_near)
next
  case False
  have "dec2 (- x) = of_int (- k) / 100"
    using assms False by (intro dec2_near) (auto simp: abs_minus_commute)
  then show ?thesis by (simp add: dec2_minus)
qed

lemma dec2_is_cents: "\<exists>k. dec2 x = of_int k / 100"
proof -
  consider "x = 0" | "0 < x" | "x < 0" by linarith
  then show ?thesis
  proof cases
    case 1
    then show ?thesis by (intro exI [of _ 0]) simp
  next
    case 2
    then show ?thesis by (auto simp: dec2_def)
  next
    case 3
    then show ?thesis by (intro exI [of _ "- \<lfloor>100 * \<bar>x\<bar> + 1 / 2\<rfloor>"]) (simp add: dec2_def)
  qed
qed

text \<open>
  What a column of precision at most twelve gives back, read as a number and stored again, is
  the same.
\<close>

lemma dec2_fl_dec2:
  assumes "\<bar>dec2 x\<bar> < 10 ^ 10"
  shows "dec2 (fl (dec2 x)) = dec2 x"
proof -
  obtain k where k: "dec2 x = of_int k / 100" using dec2_is_cents by blast
  have "\<bar>fl (dec2 x) - dec2 x\<bar> \<le> \<bar>dec2 x\<bar> / 2 ^ 53" by (rule fl_error)
  also have "\<dots> < 1 / 200" using assms by simp
  finally show ?thesis unfolding k by (rule dec2_near_int)
qed

lemma dec2_cents: "0 \<le> k \<Longrightarrow> dec2 (of_int k / 100) = of_int k / 100"
  by (rule dec2_near) auto

text \<open>
  Amounts in whole cents below ten billion survive the double rounding of the wallet's
  subtraction and addition: the three binary64 roundings move the result by less than half
  a cent, and the column's rounding brings it back.
\<close>

lemma fl_cents_close:
  assumes "0 \<le> k" "k < 10 ^ 12"
  shows "\<bar>fl (of_int k / 100) - of_int k / 100\<bar> \<le> 1 / 100000"
proof -
  have k: "(of_int k :: rat) \<le> 10 ^ 12" using assms(2)
    by (metis less_imp_le of_int_le_iff of_int_numeral of_int_power)
  have "\<bar>fl (of_int k / 100) - of_int k / 100\<bar> \<le> \<bar>of_int k / 100\<bar> / 2 ^ 53"
    by (rule fl_error)
  also have "\<dots> \<le> 1 / 100000" using k assms(1) by simp
  finally show ?thesis .
qed

lemma fl_close_cents:
  assumes "\<bar>x - y\<bar> \<le> 1 / 1000" "0 \<le> y" "y \<le> 20000000000"
  shows "\<bar>fl x - y\<bar> < 1 / 200"
proof -
  have x: "\<bar>x\<bar> \<le> 20000000001" using assms by linarith
  have "\<bar>fl x - x\<bar> \<le> \<bar>x\<bar> / 2 ^ 53" by (rule fl_error)
  also have "\<dots> \<le> 1 / 10000" using x by simp
  finally have "\<bar>fl x - x\<bar> \<le> 1 / 10000" .
  with assms(1) show ?thesis by linarith
qed

lemma dec2_sub_cents:
  assumes "0 \<le> m" "m \<le> k" "k < 10 ^ 12"
  shows "dec2 (num_sub (fl (of_int k / 100)) (fl (of_int m / 100))) = of_int (k - m) / 100"
proof -
  have d: "(of_int (k - m) :: rat) \<le> 10 ^ 12" "0 \<le> (of_int (k - m) :: rat)"
  proof -
    have "k - m \<le> 10 ^ 12" using assms by simp
    then show "(of_int (k - m) :: rat) \<le> 10 ^ 12"
      by (metis of_int_le_iff of_int_numeral of_int_power)
  qed (use assms in simp)
  have "\<bar>fl (of_int k / 100) - fl (of_int m / 100) - of_int (k - m) / 100\<bar> \<le> 1 / 1000"
    using fl_cents_close [of k] fl_cents_close [of m] assms
    unfolding of_int_diff diff_divide_distrib by linarith
  then have "\<bar>num_sub (fl (of_int k / 100)) (fl (of_int m / 100)) - of_int (k - m) / 100\<bar> < 1 / 200"
    unfolding num_sub_def using d by (intro fl_close_cents) auto
  then show ?thesis using assms by (intro dec2_near) auto
qed

lemma dec2_add_cents:
  assumes "0 \<le> m" "m < 10 ^ 12" "0 \<le> k" "k < 10 ^ 12"
  shows "dec2 (num_add (fl (of_int k / 100)) (fl (of_int m / 100))) = of_int (k + m) / 100"
proof -
  have d: "(of_int (k + m) :: rat) \<le> 2 * 10 ^ 12" "0 \<le> (of_int (k + m) :: rat)"
  proof -
    have "k + m \<le> 2 * 10 ^ 12" using assms by simp
    then have "(of_int (k + m) :: rat) \<le> of_int (2 * 10 ^ 12)" by (simp only: of_int_le_iff)
    then show "(of_int (k + m) :: rat) \<le> 2 * 10 ^ 12" by simp
  qed (use assms in simp)
  have "\<bar>fl (of_int k / 100) + fl (of_int m / 100) - of_int (k + m) / 100\<bar> \<le> 1 / 1000"
    using fl_cents_close [of k] fl_cents_close [of m] assms
    unfolding of_int_add add_divide_distrib by linarith
  then have "\<bar>num_add (fl (of_int k / 100)) (fl (of_int m / 100)) - of_int (k + m) / 100\<bar> < 1 / 200"
    unfolding num_add_def using d by (intro fl_close_cents) auto
  then show ?thesis using assms by (intro dec2_near) auto
qed

subsection \<open>Noise\<close>

text \<open>
  An amount that is a whole number of cents up to the noise of binary64 arithmetic, far less
  than half a cent.
\<close>

definition near_cents :: "int \<Rightarrow> number \<Rightarrow> bool" where
  "near_cents m x \<longleftrightarrow> \<bar>x - of_int m / 100\<bar> \<le> 1 / 2000"

lemma near_cents_dec2: "near_cents m x \<Longrightarrow> dec2 x = of_int m / 100"
  unfolding near_cents_def by (rule dec2_near_int) simp

text \<open>One line of an order: the price of the column, read as a number, times the quantity.\<close>

lemma line_total_close:
  assumes "0 \<le> x" "0 \<le> q" "x * q \<le> 100000000"
  shows "\<bar>num_mul (fl x) q - x * q\<bar> \<le> 3 / 100000000"
proof -
  have "\<bar>fl x * q - x * q\<bar> = \<bar>fl x - x\<bar> * q"
    using assms(2) by (simp add: left_diff_distrib [symmetric] abs_mult)
  also have "\<dots> \<le> (\<bar>x\<bar> / 2 ^ 53) * q" by (rule mult_right_mono [OF fl_error assms(2)])
  also have "\<dots> \<le> 100000000 / 2 ^ 53" using assms by (simp add: mult.commute)
  also have "\<dots> \<le> 12 / 1000000000" by simp
  finally have a: "\<bar>fl x * q - x * q\<bar> \<le> 12 / 1000000000" .
  have y: "\<bar>fl x * q\<bar> \<le> 100000001"
    using a assms(3) mult_nonneg_nonneg [OF assms(1,2)] by linarith
  have "\<bar>fl (fl x * q) - fl x * q\<bar> \<le> \<bar>fl x * q\<bar> / 2 ^ 53" by (rule fl_error)
  with y have b: "\<bar>fl (fl x * q) - fl x * q\<bar> \<le> 12 / 1000000000" by simp
  from a b show ?thesis unfolding num_mul_def by linarith
qed

lemma sum_step_close:
  assumes "\<bar>acc - A\<bar> \<le> e" "\<bar>y - B\<bar> \<le> 3 / 100000000" "0 \<le> A" "0 \<le> B" "A + B \<le> 100000000" "e \<le> 1 / 2000"
  shows "\<bar>num_add acc y - (A + B)\<bar> \<le> e + 5 / 100000000"
proof -
  have z: "\<bar>acc + y\<bar> \<le> 100000001" using assms by linarith
  have "\<bar>fl (acc + y) - (acc + y)\<bar> \<le> \<bar>acc + y\<bar> / 2 ^ 53" by (rule fl_error)
  with z have "\<bar>fl (acc + y) - (acc + y)\<bar> \<le> 2 / 100000000" by simp
  with assms(1,2) show ?thesis unfolding num_add_def by linarith
qed

end
