(* ===== verification/Prelude.thy ===== *)
theory Prelude
  imports JsNumber
begin

section \<open>Prelude: results, transactions, tables, transition systems\<close>

text \<open>
  The vocabulary every component shares.
  \<^item> \<open>('s, 'e, 'a) tx\<close> is a computation inside a database transaction: it reads and
    writes the service's tables and returns or throws. A thrown error keeps the writes made so
    far, as an exception caught inside the callback of \<^verbatim>\<open>dataSource.transaction\<close>
    does; only \<open>transaction\<close> discards them, when the error leaves the callback or the
    database refuses the commit (the argument \<open>fault\<close>).
  \<^item> A table is the list of its rows. \<open>row_of\<close> and \<open>update_where\<close> are the reads
    and writes the repositories issue by primary key or by a unique column.
  \<^item> \<open>env\<close> holds what the code takes from its surroundings: the clock, the generator of
    UUIDs, and the two conversions to text whose result the program only stores and forwards.
  \<^item> \<open>transition_system\<close> is the contract of a component with state: a step relation,
    its initial states and an invariant; reachable states satisfy the invariant.
\<close>

named_theorems tx_simps \<open>equations of the transaction combinators\<close>
named_theorems tab_simps \<open>reads after writes on tables\<close>
named_theorems handler_defs \<open>the definitions a handler's proof unfolds\<close>

subsection \<open>The environment\<close>

type_synonym date = int

record env =
  e_now :: date
  e_uuid :: "nat \<Rightarrow> string"
  e_iso :: "date \<Rightarrow> string"
  e_str :: "number \<Rightarrow> string"

text \<open>
  UUIDs are modelled by the sequence the generators of one service produce; a service's
  state counts how many it has used. What the code relies on is that no two of them are equal
  and that they are made of hexadecimal digits and hyphens, so that an id with a suffix like
  \<^verbatim>\<open>-pay\<close> is not an id. (That 36 characters cannot name infinitely many rows is the
  one thing the model idealises.)
\<close>

definition uuid_ok :: "(nat \<Rightarrow> string) \<Rightarrow> bool" where
  "uuid_ok u \<longleftrightarrow> inj u \<and> (\<forall>m. u m \<noteq> [] \<and> set (u m) \<subseteq> set ''0123456789abcdef-'')"

subsection \<open>Computations in a transaction\<close>

type_synonym ('s, 'e, 'a) tx = "'s \<Rightarrow> ('e + 'a) \<times> 's"

definition ret :: "'a \<Rightarrow> ('s, 'e, 'a) tx" where
  "ret a s = (Inr a, s)"

definition raise :: "'e \<Rightarrow> ('s, 'e, 'a) tx" where
  "raise e s = (Inl e, s)"

text \<open>A pure result, the value of a query that must be found, and a write.\<close>

definition lift :: "'e + 'a \<Rightarrow> ('s, 'e, 'a) tx" where
  "lift r s = (r, s)"

definition found :: "'e \<Rightarrow> ('s \<Rightarrow> 'a option) \<Rightarrow> ('s, 'e, 'a) tx" where
  "found e q s = (case q s of None \<Rightarrow> (Inl e, s) | Some a \<Rightarrow> (Inr a, s))"

definition modify :: "('s \<Rightarrow> 's) \<Rightarrow> ('s, 'e, unit) tx" where
  "modify f s = (Inr (), f s)"

definition tx_bind :: "('s, 'e, 'a) tx \<Rightarrow> ('a \<Rightarrow> ('s, 'e, 'b) tx) \<Rightarrow> ('s, 'e, 'b) tx" where
  "tx_bind m f s = (case m s of (Inl e, s') \<Rightarrow> (Inl e, s') | (Inr a, s') \<Rightarrow> f a s')"

definition try_catch :: "('s, 'e, 'a) tx \<Rightarrow> ('e \<Rightarrow> ('s, 'e, 'a) tx) \<Rightarrow> ('s, 'e, 'a) tx" where
  "try_catch m h s = (case m s of (Inl e, s') \<Rightarrow> h e s' | (Inr a, s') \<Rightarrow> (Inr a, s'))"

definition transaction :: "'e option \<Rightarrow> ('s, 'e, 'a) tx \<Rightarrow> ('s, 'e, 'a) tx" where
  "transaction fault m s =
     (case m s of
        (Inl e, _) \<Rightarrow> (Inl e, s)
      | (Inr a, s') \<Rightarrow> (case fault of None \<Rightarrow> (Inr a, s') | Some e \<Rightarrow> (Inl e, s)))"

subsection \<open>Tables\<close>

definition row_of :: "('r \<Rightarrow> 'k) \<Rightarrow> 'k \<Rightarrow> 'r list \<Rightarrow> 'r option" where
  "row_of key k rows = List.find (\<lambda>r. key r = k) rows"

definition update_where :: "('r \<Rightarrow> bool) \<Rightarrow> ('r \<Rightarrow> 'r) \<Rightarrow> 'r list \<Rightarrow> 'r list" where
  "update_where p f rows = map (\<lambda>r. if p r then f r else r) rows"

text \<open>\<^verbatim>\<open>repo.save\<close> of an entity that carries its primary key: update the row, or insert it.\<close>

definition save_row :: "('r \<Rightarrow> 'k) \<Rightarrow> 'r \<Rightarrow> 'r list \<Rightarrow> 'r list" where
  "save_row key r rows =
     (if row_of key (key r) rows = None then rows @ [r]
      else update_where (\<lambda>x. key x = key r) (\<lambda>_. r) rows)"

subsection \<open>Equations of the combinators\<close>

lemma fresh_id:
  assumes "uuid_ok u" "set ids \<subseteq> u ` {..<n}" "n \<le> m"
  shows "u m \<notin> set ids"
proof
  assume "u m \<in> set ids"
  with assms(2) obtain i where "i < n" "u m = u i" by auto
  with assms(1,3) show False by (auto simp: uuid_ok_def dest: injD)
qed

lemma ids_mono: "X \<subseteq> u ` {..<n} \<Longrightarrow> n \<le> m \<Longrightarrow> X \<subseteq> u ` {..<(m :: nat)}"
  by fastforce

lemma ids_next: "X \<subseteq> u ` {..<n} \<Longrightarrow> insert (u n) X \<subseteq> u ` {..<Suc n}"
  by fastforce

lemma ret_run [tx_simps]: "ret a s = (Inr a, s)"
  by (simp add: ret_def)

lemma raise_run [tx_simps]: "raise e s = (Inl e, s)"
  by (simp add: raise_def)

lemma lift_Inr [tx_simps]: "lift r s = (Inr a, s') \<longleftrightarrow> r = Inr a \<and> s' = s"
  by (auto simp: lift_def)

lemma found_Inr [tx_simps]: "found e q s = (Inr a, s') \<longleftrightarrow> q s = Some a \<and> s' = s"
  by (auto simp: found_def split: option.splits)

lemma modify_Inr [tx_simps]: "modify f s = (Inr a, s') \<longleftrightarrow> s' = f s"
  by (auto simp: modify_def)

lemma tx_bind_Inr [tx_simps]:
  "tx_bind m f s = (Inr b, s'') \<longleftrightarrow> (\<exists>a s'. m s = (Inr a, s') \<and> f a s' = (Inr b, s''))"
  by (auto simp: tx_bind_def split: prod.splits sum.splits)

lemma transaction_Inl: "fst (transaction fault m s) = Inl e \<Longrightarrow> snd (transaction fault m s) = s"
  by (auto simp: transaction_def split: prod.splits sum.splits option.splits)

lemma transaction_Inr:
  "transaction fault m s = (Inr a, s') \<longleftrightarrow> fault = None \<and> m s = (Inr a, s')"
  by (auto simp: transaction_def split: prod.splits sum.splits option.splits)

text \<open>A transaction either leaves the state alone or installs the state its callback returned.\<close>

lemma transaction_cases:
  obtains (abort) e where "transaction fault m s = (Inl e, s)"
  | (commit) a s' where "transaction fault m s = (Inr a, s')" "m s = (Inr a, s')" "fault = None"
  by (cases "m s"; cases "fst (m s)"; cases fault) (auto simp: transaction_def)

lemma transaction_keeps:
  assumes "P s" and "\<And>a s'. m s = (Inr a, s') \<Longrightarrow> P s'"
  shows "P (snd (transaction fault m s))"
  by (cases fault m s rule: transaction_cases) (use assms in auto)

subsection \<open>Reads after writes\<close>

lemma row_of_Nil [tab_simps]: "row_of key k [] = None"
  by (simp add: row_of_def)

lemma row_of_Cons [tab_simps]:
  "row_of key k (r # rows) = (if key r = k then Some r else row_of key k rows)"
  by (simp add: row_of_def)

lemma row_of_key: "row_of key k rows = Some r \<Longrightarrow> key r = k"
  by (induction rows) (auto simp: tab_simps split: if_splits)

lemma row_of_in: "row_of key k rows = Some r \<Longrightarrow> r \<in> set rows"
  by (induction rows) (auto simp: tab_simps split: if_splits)

lemma row_of_None: "row_of key k rows = None \<longleftrightarrow> k \<notin> key ` set rows"
  by (induction rows) (auto simp: tab_simps)

lemma row_of_unique:
  "distinct (map key rows) \<Longrightarrow> r \<in> set rows \<Longrightarrow> row_of key (key r) rows = Some r"
  by (induction rows) (auto simp: tab_simps)

lemma row_of_append [tab_simps]:
  "row_of key k (xs @ ys) =
     (case row_of key k xs of Some r \<Rightarrow> Some r | None \<Rightarrow> row_of key k ys)"
  by (induction xs) (auto simp: tab_simps)

lemma row_of_snoc:
  "row_of key k (rows @ [r]) = (if row_of key k rows = None \<and> key r = k then Some r else row_of key k rows)"
  by (simp add: tab_simps split: option.splits)

lemma update_where_Nil [simp]: "update_where p f [] = []"
  by (simp add: update_where_def)

lemma update_where_Cons [simp]:
  "update_where p f (r # rows) = (if p r then f r else r) # update_where p f rows"
  by (simp add: update_where_def)

lemma update_where_append [simp]: "update_where p f (xs @ ys) = update_where p f xs @ update_where p f ys"
  by (simp add: update_where_def)

lemma update_where_idle: "\<forall>r \<in> set rows. \<not> p r \<Longrightarrow> update_where p f rows = rows"
  by (induction rows) auto

lemma length_update_where [simp]: "length (update_where p f rows) = length rows"
  by (simp add: update_where_def)

lemma set_update_where: "set (update_where p f rows) = (\<lambda>r. if p r then f r else r) ` set rows"
  by (simp add: update_where_def)

lemma map_update_where:
  "(\<And>r. p r \<Longrightarrow> g (f r) = g r) \<Longrightarrow> map g (update_where p f rows) = map g rows"
  by (simp add: update_where_def)

lemma row_of_update_where [tab_simps]:
  assumes "\<And>r. key (f r) = key r"
  shows "row_of key k (update_where p f rows) =
    map_option (\<lambda>r. if p r then f r else r) (row_of key k rows)"
  by (induction rows) (auto simp: tab_simps assms)

lemma row_of_update_key [tab_simps]:
  assumes "\<And>r. key r = j \<Longrightarrow> key (f r) = j"
  shows "row_of key k (update_where (\<lambda>r. key r = j) f rows) =
    (if k = j then map_option f (row_of key k rows) else row_of key k rows)"
  by (induction rows) (auto simp: tab_simps assms)

lemma row_of_save_row [tab_simps]:
  "row_of key k (save_row key r rows) = (if k = key r then Some r else row_of key k rows)"
proof (cases "row_of key (key r) rows")
  case None
  then show ?thesis by (auto simp: save_row_def tab_simps split: option.splits)
next
  case (Some x)
  then show ?thesis by (auto simp: save_row_def row_of_update_key)
qed

lemma distinct_save_row:
  "distinct (map key rows) \<Longrightarrow> distinct (map key (save_row key r rows))"
proof -
  have "map key (update_where (\<lambda>x. key x = key r) (\<lambda>_. r) rows) = map key rows"
    by (rule map_update_where) simp
  then show "distinct (map key rows) \<Longrightarrow> ?thesis"
    by (auto simp: save_row_def row_of_None)
qed

lemma filter_key_single: "distinct (map key rows) \<Longrightarrow> r \<in> set rows \<Longrightarrow> filter (\<lambda>x. key x = key r) rows = [r]"
proof (induction rows)
  case (Cons x rows)
  then show ?case
  proof (cases "x = r")
    case True
    with Cons.prems have "key r \<notin> set (map key rows)" by simp
    then have "filter (\<lambda>y. key y = key r) rows = []" by (auto simp: filter_empty_conv image_iff)
    with True show ?thesis by simp
  qed (use Cons in auto)
qed simp

lemma map_coarser:
  assumes "map f xs = map f ys" "\<And>x y. f x = f y \<Longrightarrow> g x = g y"
  shows "map g xs = map g ys"
  using assms(1)
proof (induction xs arbitrary: ys)
  case (Cons x xs)
  then obtain y zs where "ys = y # zs" "f x = f y" "map f xs = map f zs" by (cases ys) auto
  with Cons.IH [of zs] assms(2) [of x y] show ?case by simp
qed simp

lemma row_of_map_cong:
  assumes "map h xs = map h ys" "\<And>x y. h x = h y \<Longrightarrow> key x = key y"
  shows "map_option h (row_of key k xs) = map_option h (row_of key k ys)"
  using assms(1)
proof (induction xs arbitrary: ys)
  case (Cons x xs)
  then obtain y zs where "ys = y # zs" "h x = h y" "map h xs = map h zs" by (cases ys) auto
  with Cons.IH [of zs] assms(2) [of x y] show ?case by (simp add: tab_simps)
qed simp

lemma row_of_same_row:
  assumes "distinct (map key rows)" "row_of key k rows = Some r" "r' \<in> set rows" "key r' = k"
  shows "r' = r"
  using row_of_unique [OF assms(1,3)] assms(2,4) by simp

lemma find_SomeD: "List.find P xs = Some x \<Longrightarrow> x \<in> set xs \<and> P x"
  by (induction xs) (auto split: if_splits)

lemma filter_map_commute:
  "(\<And>x. P (f x) = P x) \<Longrightarrow> filter P (map f xs) = map f (filter P xs)"
  by (induction xs) auto

subsection \<open>Transition systems\<close>

text \<open>
  The contract of a component whose operations are the steps of a machine: the client proves
  that an initial state satisfies the invariant and that a step keeps it, and gets it for every
  state a run reaches, together with what holds between two states of a run.
\<close>

inductive run :: "('s \<Rightarrow> 's \<Rightarrow> bool) \<Rightarrow> 's \<Rightarrow> 's \<Rightarrow> bool" for step where
  run_refl: "run step s s"
| run_step: "run step s t \<Longrightarrow> step t u \<Longrightarrow> run step s u"

lemma run_trans: "run step s t \<Longrightarrow> run step t u \<Longrightarrow> run step s u"
  by (rotate_tac, induction rule: run.induct) (auto intro: run.intros)

locale transition_system =
  fixes step :: "'s \<Rightarrow> 's \<Rightarrow> bool"
    and initial :: "'s \<Rightarrow> bool"
    and inv :: "'s \<Rightarrow> bool"
  assumes initial_inv: "initial s \<Longrightarrow> inv s"
    and step_inv: "step s t \<Longrightarrow> inv s \<Longrightarrow> inv t"
begin

lemma run_keeps_inv: "run step s t \<Longrightarrow> inv s \<Longrightarrow> inv t"
  by (induction rule: run.induct) (auto intro: step_inv)

lemma reachable_inv: "initial s \<Longrightarrow> run step s t \<Longrightarrow> inv t"
  using run_keeps_inv initial_inv by blast

lemma run_keeps_rel:
  assumes "run step s t" "inv s"
    and "\<And>u. R u u" and "\<And>u v w. R u v \<Longrightarrow> inv v \<Longrightarrow> step v w \<Longrightarrow> R u w"
  shows "R s t"
  using assms(1,2)
proof (induction rule: run.induct)
  case (run_refl s)
  show ?case by (rule assms(3))
next
  case (run_step s t u)
  then show ?case using assms(4) run_keeps_inv by blast
qed

end

end
