(* ===== verification/Shared.thy ===== *)
theory Shared
  imports Prelude
begin

section \<open>The shared package\<close>

text \<open>
  \<^verbatim>\<open>packages/shared\<close>: the roles, the outbox status, the Kafka topics, the interfaces
  of the commands, replies and domain events the services exchange, and the guard every
  internal service installs. A message interface that \<^verbatim>\<open>extends BaseCommand\<close> is a
  record that extends \<open>base_command\<close>; \<open>payload\<close> is their sum, the type of what an
  outbox row or an envelope carries. The lemmas show that topics are pairwise different
  and that the guard lets an HTTP request through exactly when the route is public or the
  secret matches.
\<close>

subsection \<open>constants/index.ts\<close>

datatype header_key = CORRELATION_ID | USER_ID | USER_EMAIL | USER_ROLES | INTERNAL_SECRET

fun HEADERS :: "header_key \<Rightarrow> string" where
  "HEADERS CORRELATION_ID = ''x-correlation-id''"
| "HEADERS USER_ID = ''x-user-id''"
| "HEADERS USER_EMAIL = ''x-user-email''"
| "HEADERS USER_ROLES = ''x-roles''"
| "HEADERS INTERNAL_SECRET = ''x-internal-secret''"

datatype role = Role_USER | Role_ADMIN | Role_MODERATOR

fun role_value :: "role \<Rightarrow> string" where
  "role_value Role_USER = ''user''"
| "role_value Role_ADMIN = ''admin''"
| "role_value Role_MODERATOR = ''moderator''"

datatype outbox_status = OutboxStatus_PENDING | OutboxStatus_PUBLISHED | OutboxStatus_FAILED

datatype topic_key =
    RESERVE_STOCK | RELEASE_STOCK | PROCESS_PAYMENT
  | STOCK_RESERVED | STOCK_RESERVATION_FAILED | STOCK_RELEASED
  | PAYMENT_PROCESSED | PAYMENT_FAILED
  | ORDER_CONFIRMED | ORDER_CANCELLED
  | PDF_GENERATED
  | USER_REGISTERED

fun KAFKA_TOPICS :: "topic_key \<Rightarrow> string" where
  "KAFKA_TOPICS RESERVE_STOCK = ''orders.reserve-stock''"
| "KAFKA_TOPICS RELEASE_STOCK = ''orders.release-stock''"
| "KAFKA_TOPICS PROCESS_PAYMENT = ''orders.process-payment''"
| "KAFKA_TOPICS STOCK_RESERVED = ''orders.stock-reserved''"
| "KAFKA_TOPICS STOCK_RESERVATION_FAILED = ''orders.stock-reservation-failed''"
| "KAFKA_TOPICS STOCK_RELEASED = ''orders.stock-released''"
| "KAFKA_TOPICS PAYMENT_PROCESSED = ''orders.payment-processed''"
| "KAFKA_TOPICS PAYMENT_FAILED = ''orders.payment-failed''"
| "KAFKA_TOPICS ORDER_CONFIRMED = ''orders.order-confirmed''"
| "KAFKA_TOPICS ORDER_CANCELLED = ''orders.order-cancelled''"
| "KAFKA_TOPICS PDF_GENERATED = ''pdf.pdf-generated''"
| "KAFKA_TOPICS USER_REGISTERED = ''users.user-registered''"

subsection \<open>interfaces/index.ts\<close>

record base_command =
  commandId :: string
  orderId :: string
  correlationId :: string

record base_order_event =
  ev_orderId :: string
  ev_userId :: string
  ev_userEmail :: string
  ev_correlationId :: string

record order_created_event_item =
  oi_productId :: string
  oi_name :: string
  oi_quantity :: int
  oi_unitPrice :: number

record command_item =
  ci_productId :: string
  ci_quantity :: int

record reserve_stock_command = base_command +
  rs_items :: "command_item list"

record release_stock_command = base_command +
  rl_items :: "command_item list"

record process_payment_command = base_command +
  pp_userId :: string
  pp_amount :: number

record stock_reserved_event = base_command +
  sr_items :: "order_created_event_item list"
  sr_total :: number

record stock_reservation_failed_event = base_command +
  sf_reason :: string

type_synonym stock_released_event = base_command

record payment_processed_event = base_command +
  pd_transactionId :: string

record payment_failed_event = base_command +
  pf_reason :: string

record order_confirmed_event = base_order_event +
  oc_items :: "order_created_event_item list"
  oc_total :: number
  oc_confirmedAt :: string

record order_cancelled_event = base_order_event +
  ox_reason :: string
  ox_cancelledAt :: string

record pdf_generated_event = base_order_event +
  pg_pdfPath :: string
  pg_createdAt :: string

record user_registered_event =
  ur_userId :: string
  ur_email :: string

record pagination_meta =
  pm_page :: int
  pm_limit :: int
  pm_total :: int
  pm_totalPages :: int

record 'a paginated_result =
  pr_data :: "'a list"
  pr_meta :: pagination_meta

datatype payload =
    ReserveStock reserve_stock_command
  | ReleaseStock release_stock_command
  | ProcessPayment process_payment_command
  | StockReserved stock_reserved_event
  | StockReservationFailed stock_reservation_failed_event
  | StockReleased stock_released_event
  | PaymentProcessed payment_processed_event
  | PaymentFailed payment_failed_event
  | OrderConfirmed order_confirmed_event
  | OrderCancelled order_cancelled_event
  | PdfGenerated pdf_generated_event
  | UserRegistered user_registered_event

text \<open>
  \<^verbatim>\<open>payload.correlationId\<close>: every interface but \<^verbatim>\<open>UserRegisteredEvent\<close> has the
  field.
\<close>

fun payload_correlationId :: "payload \<Rightarrow> string option" where
  "payload_correlationId (ReserveStock c) = Some (correlationId c)"
| "payload_correlationId (ReleaseStock c) = Some (correlationId c)"
| "payload_correlationId (ProcessPayment c) = Some (correlationId c)"
| "payload_correlationId (StockReserved e) = Some (correlationId e)"
| "payload_correlationId (StockReservationFailed e) = Some (correlationId e)"
| "payload_correlationId (StockReleased e) = Some (correlationId e)"
| "payload_correlationId (PaymentProcessed e) = Some (correlationId e)"
| "payload_correlationId (PaymentFailed e) = Some (correlationId e)"
| "payload_correlationId (OrderConfirmed e) = Some (ev_correlationId e)"
| "payload_correlationId (OrderCancelled e) = Some (ev_correlationId e)"
| "payload_correlationId (PdfGenerated e) = Some (ev_correlationId e)"
| "payload_correlationId (UserRegistered e) = None"

text \<open>
  The topic whose subscribers cast the payload to this interface. The handlers do not
  check it (\<^verbatim>\<open>as KafkaEnvelope<T>\<close> is erased), so that every writer keeps to it is a
  property of the services, not of the transport.
\<close>

fun payload_topic :: "payload \<Rightarrow> topic_key" where
  "payload_topic (ReserveStock _) = RESERVE_STOCK"
| "payload_topic (ReleaseStock _) = RELEASE_STOCK"
| "payload_topic (ProcessPayment _) = PROCESS_PAYMENT"
| "payload_topic (StockReserved _) = STOCK_RESERVED"
| "payload_topic (StockReservationFailed _) = STOCK_RESERVATION_FAILED"
| "payload_topic (StockReleased _) = STOCK_RELEASED"
| "payload_topic (PaymentProcessed _) = PAYMENT_PROCESSED"
| "payload_topic (PaymentFailed _) = PAYMENT_FAILED"
| "payload_topic (OrderConfirmed _) = ORDER_CONFIRMED"
| "payload_topic (OrderCancelled _) = ORDER_CANCELLED"
| "payload_topic (PdfGenerated _) = PDF_GENERATED"
| "payload_topic (UserRegistered _) = USER_REGISTERED"

text \<open>\<^verbatim>\<open>Math.ceil(total / limit)\<close>; the quotient of two small integers is rounded before the ceiling.\<close>

definition total_pages :: "int \<Rightarrow> int \<Rightarrow> int" where
  "total_pages count limit = \<lceil>fl (of_int count / of_int limit)\<rceil>"

subsection \<open>Role headers\<close>

text \<open>
  JavaScript's \<^verbatim>\<open>split\<close> by a character and \<^verbatim>\<open>trim\<close>, which the controllers apply
  to the roles header.
\<close>

fun js_split :: "char \<Rightarrow> string \<Rightarrow> string list" where
  "js_split c [] = [[]]"
| "js_split c (x # xs) =
     (if x = c then [] # js_split c xs
      else case js_split c xs of [] \<Rightarrow> [[x]] | w # ws \<Rightarrow> (x # w) # ws)"

definition js_space :: "char \<Rightarrow> bool" where
  "js_space c \<longleftrightarrow> c \<in> {CHR 0x09, CHR 0x0A, CHR 0x0B, CHR 0x0C, CHR 0x0D, CHR 0x20, CHR 0xA0}"

definition js_trim :: "string \<Rightarrow> string" where
  "js_trim s = rev (dropWhile js_space (rev (dropWhile js_space s)))"

definition js_join :: "string \<Rightarrow> string list \<Rightarrow> string" where
  "js_join sep ws = (case ws of [] \<Rightarrow> '''' | w # rest \<Rightarrow> w @ concat (map (\<lambda>x. sep @ x) rest))"

text \<open>
  \<open>parseRoles\<close> of the wallets and the users controller, the same code in both: the roles the
  gateway forwards in a header, without what is not a role.
\<close>

definition all_roles :: "role list" where
  "all_roles = [Role_USER, Role_ADMIN, Role_MODERATOR]"

definition role_of :: "string \<Rightarrow> role option" where
  "role_of r = List.find (\<lambda>x. role_value x = r) all_roles"

definition parseRoles :: "string option \<Rightarrow> role list" where
  "parseRoles rolesHeader =
     (case rolesHeader of
        None \<Rightarrow> []
      | Some h \<Rightarrow> if h = '''' then []
                 else List.map_filter role_of (map js_trim (js_split CHR '','' h)))"

subsection \<open>guards/internal.guard.ts\<close>

datatype http_exception =
    UnauthorizedException string
  | ForbiddenException string
  | NotFoundException string
  | BadRequestException string
  | ConflictException string
  | InternalError string

text \<open>
  \<open>isPublic\<close> is what the reflector found for the handler or its class; \<open>expected\<close> is
  the configured secret, whose absence makes \<^verbatim>\<open>getOrThrow\<close> throw.
\<close>

definition InternalGuard_canActivate ::
  "string \<Rightarrow> bool option \<Rightarrow> string option \<Rightarrow> string option \<Rightarrow> http_exception + bool" where
  "InternalGuard_canActivate ctx isPublic secret expected =
     (if ctx \<noteq> ''http'' then Inr True
      else if isPublic = Some True then Inr True
      else case expected of
        None \<Rightarrow> Inl (InternalError ''Configuration key does not exist'')
      | Some e \<Rightarrow>
          if secret = None \<or> secret = Some '''' \<or> secret \<noteq> Some e
          then Inl (UnauthorizedException ''Missing or invalid internal secret'')
          else Inr True)"

subsection \<open>Topics are pairwise different\<close>

lemma KAFKA_TOPICS_inject [simp]: "KAFKA_TOPICS a = KAFKA_TOPICS b \<longleftrightarrow> a = b"
  by (cases a; cases b) simp_all

declare KAFKA_TOPICS.simps [simp del]

lemma HEADERS_inject [simp]: "HEADERS a = HEADERS b \<longleftrightarrow> a = b"
  by (cases a; cases b) simp_all

lemma role_value_inject [simp]: "role_value a = role_value b \<longleftrightarrow> a = b"
  by (cases a; cases b) simp_all

subsection \<open>The internal guard\<close>

lemma InternalGuard_cases:
  "InternalGuard_canActivate ctx isPublic secret expected = Inr b \<longleftrightarrow>
     b \<and> (ctx \<noteq> ''http'' \<or> isPublic = Some True \<or>
       (\<exists>e. expected = Some e \<and> e \<noteq> '''' \<and> secret = Some e))"
  by (cases expected) (auto simp: InternalGuard_canActivate_def)

subsection \<open>Roles travel in a header\<close>

lemma role_of_value [simp]: "role_of (role_value r) = Some r"
  by (cases r) (simp_all add: role_of_def all_roles_def)

lemma role_ofD: "role_of w = Some r \<Longrightarrow> w = role_value r"
  by (auto simp: role_of_def dest: find_SomeD)

lemma js_split_char: "c \<notin> set w \<Longrightarrow> js_split c (w @ c # rest) = w # js_split c rest"
  by (induction w) auto

lemma js_split_last: "c \<notin> set w \<Longrightarrow> js_split c w = [w]"
  by (induction w) auto

lemma js_split_join:
  assumes "ws \<noteq> []" "\<forall>w \<in> set ws. c \<notin> set w"
  shows "js_split c (js_join [c] ws) = ws"
  using assms
proof (induction ws)
  case (Cons w ws)
  show ?case
  proof (cases ws)
    case Nil
    with Cons.prems show ?thesis by (simp add: js_join_def js_split_last)
  next
    case more: (Cons v vs)
    then have "js_join [c] (w # ws) = w @ c # js_join [c] ws" by (simp add: js_join_def)
    then show ?thesis using Cons.IH Cons.prems more js_split_char [of c w "js_join [c] ws"] by simp
  qed
qed simp

lemma role_value_chars: "CHR '','' \<notin> set (role_value r)" "js_trim (role_value r) = role_value r" "role_value r \<noteq> ''''"
  by (cases r; simp add: js_trim_def js_space_def)+

lemma js_join_roles: "rs \<noteq> [] \<Longrightarrow> js_join '','' (map role_value rs) \<noteq> ''''"
  by (cases rs) (simp_all add: js_join_def role_value_chars)

lemma parseRoles_join: "parseRoles (Some (js_join '','' (map role_value rs))) = rs"
proof (cases "rs = []")
  case False
  have "js_split CHR '','' (js_join '','' (map role_value rs)) = map role_value rs"
    using False role_value_chars(1) by (intro js_split_join) auto
  then show ?thesis using False js_join_roles [OF False]
    by (simp add: parseRoles_def comp_def role_value_chars List.map_filter_def)
qed (simp add: parseRoles_def js_join_def)

end
