(* ===== verification/Kafka.thy ===== *)
theory Kafka
  imports Shared
begin

section \<open>The kafka package\<close>

text \<open>
  \<^verbatim>\<open>packages/kafka\<close>: the envelope, the producer and the consumer's dispatch loop with
  its retries and its dead-letter topic. The KafkaJS client is a parameter: \<open>send_outcome\<close>
  says whether the broker stored a message and whether \<^verbatim>\<open>producer.send\<close> threw (a send
  can fail after the message was stored, which is why delivery is at least once); the trace
  context is the carrier that the propagator filled; \<open>JSON_parse\<close> is the parser applied
  to the raw bytes. A handler is a computation on the state of the service that owns it, one
  per attempt because each attempt sees its own clock and database. The lemmas show that a
  message is handled, or is sent to its dead-letter topic, after at most the configured number
  of attempts, and what the attempts waited.
\<close>

subsection \<open>kafka.envelope.ts and kafka.options.ts\<close>

record 'p kafka_envelope =
  ke_messageId :: string
  ke_correlationId :: string
  ke_traceparent :: string
  ke_tracestate :: string
  ke_timestamp :: string
  ke_source :: string
  ke_retryCount :: nat
  ke_payload :: 'p

record 'p kafka_dlq_envelope =
  dq_originalEnvelope :: "'p kafka_envelope"
  dq_failedTopic :: string
  dq_failedAt :: string
  dq_error :: string
  dq_totalAttempts :: nat

record ('p, 's) subscribe_options =
  so_topic :: string
  so_handler :: "'p kafka_envelope \<Rightarrow> nat \<Rightarrow> ('s, string, unit) tx"
  so_maxRetries :: "nat option"

subsection \<open>kafka.producer.service.ts\<close>

record trace_carrier =
  tc_traceparent :: "string option"
  tc_tracestate :: "string option"

record 'p kafka_message =
  km_topic :: string
  km_key :: string
  km_value :: "'p kafka_envelope"
  km_headers :: "(string \<times> string) list"

datatype send_outcome = Stored | Lost string | StoredButThrew string

definition make_envelope ::
  "env \<Rightarrow> string \<Rightarrow> trace_carrier \<Rightarrow> string \<Rightarrow> 'p \<Rightarrow> string option \<Rightarrow> string option \<Rightarrow> 'p kafka_envelope"
where
  "make_envelope env src carrier rnd pl cid mid =
     \<lparr>ke_messageId = (case mid of Some m \<Rightarrow> m | None \<Rightarrow> rnd),
      ke_correlationId = (case cid of Some c \<Rightarrow> c | None \<Rightarrow> ''''),
      ke_traceparent = (case tc_traceparent carrier of Some t \<Rightarrow> t | None \<Rightarrow> ''''),
      ke_tracestate = (case tc_tracestate carrier of Some t \<Rightarrow> t | None \<Rightarrow> ''''),
      ke_timestamp = e_iso env (e_now env),
      ke_source = src,
      ke_retryCount = 0,
      ke_payload = pl\<rparr>"

definition make_message :: "string \<Rightarrow> 'p kafka_envelope \<Rightarrow> 'p kafka_message" where
  "make_message topic e =
     \<lparr>km_topic = topic,
      km_key = (if ke_correlationId e = '''' then ke_messageId e else ke_correlationId e),
      km_value = e,
      km_headers =
        [(''x-message-id'', ke_messageId e), (''x-correlation-id'', ke_correlationId e),
         (''traceparent'', ke_traceparent e), (''tracestate'', ke_tracestate e)]\<rparr>"

definition KafkaProducerService_publish ::
  "env \<Rightarrow> string \<Rightarrow> trace_carrier \<Rightarrow> string \<Rightarrow> send_outcome \<Rightarrow> string \<Rightarrow> 'p \<Rightarrow> string option \<Rightarrow>
    string option \<Rightarrow> ('p kafka_message list, string, unit) tx" where
  "KafkaProducerService_publish env src carrier rnd outcome topic pl cid mid bus =
     (let msg = make_message topic (make_envelope env src carrier rnd pl cid mid)
      in case outcome of
           Stored \<Rightarrow> (Inr (), bus @ [msg])
         | Lost err \<Rightarrow> (Inl err, bus)
         | StoredButThrew err \<Rightarrow> (Inl err, bus @ [msg]))"

subsection \<open>kafka.consumer.service.ts\<close>

definition KafkaConsumerService_subscribe ::
  "('p, 's) subscribe_options \<Rightarrow> ('p, 's) subscribe_options list \<Rightarrow> ('p, 's) subscribe_options list"
where
  "KafkaConsumerService_subscribe options subs = subs @ [options]"

datatype dispatch_result = Handled nat | Exhausted string | NotAttempted

text \<open>
  The retry loop of \<^verbatim>\<open>dispatch\<close>: the result, the waits between the attempts in
  milliseconds, and the state the attempts leave.
\<close>

function dispatch_loop ::
  "(nat \<Rightarrow> ('s, string, unit) tx) \<Rightarrow> nat \<Rightarrow> nat \<Rightarrow> 's \<Rightarrow> dispatch_result \<times> nat list \<times> 's" where
  "dispatch_loop h maxRetries attempt s =
     (if attempt \<le> maxRetries then
        (case h attempt s of
           (Inr _, s') \<Rightarrow> (Handled attempt, [], s')
         | (Inl err, s') \<Rightarrow>
             if attempt = maxRetries then (Exhausted err, [], s')
             else (case dispatch_loop h maxRetries (attempt + 1) s' of
                     (r, waits, s'') \<Rightarrow> (r, 300 * 2 ^ (attempt - 1) # waits, s'')))
      else (NotAttempted, [], s))"
  by pat_completeness auto
termination
  by (relation "measure (\<lambda>(h, maxRetries, attempt, s). maxRetries + 1 - attempt)") auto

declare dispatch_loop.simps [simp del]

definition sendToDlq ::
  "env \<Rightarrow> string \<Rightarrow> trace_carrier \<Rightarrow> string \<Rightarrow> send_outcome \<Rightarrow> string \<Rightarrow> 'p kafka_envelope \<Rightarrow> string \<Rightarrow> nat \<Rightarrow>
    'p kafka_dlq_envelope kafka_message list \<Rightarrow> 'p kafka_dlq_envelope kafka_message list" where
  "sendToDlq env src carrier rnd outcome topic envelope err totalAttempts dlq =
     (let dlqTopic = topic @ ''.dlq'';
          dlqPayload = \<lparr>dq_originalEnvelope = envelope, dq_failedTopic = topic,
            dq_failedAt = e_iso env (e_now env), dq_error = err, dq_totalAttempts = totalAttempts\<rparr>
      in snd (KafkaProducerService_publish env src carrier rnd outcome dlqTopic dlqPayload
                (Some (ke_correlationId envelope)) None dlq))"

record ('p, 's) consumer_state =
  cs_service :: 's
  cs_dlq :: "'p kafka_dlq_envelope kafka_message list"

definition KafkaConsumerService_dispatch ::
  "env \<Rightarrow> string \<Rightarrow> trace_carrier \<Rightarrow> string \<Rightarrow> send_outcome \<Rightarrow> (string \<Rightarrow> 'p kafka_envelope option) \<Rightarrow>
    ('p, 's) subscribe_options list \<Rightarrow> string \<Rightarrow> string option \<Rightarrow>
    ('p, 's) consumer_state \<Rightarrow> ('p, 's) consumer_state" where
  "KafkaConsumerService_dispatch env src carrier rnd outcome JSON_parse subs topic raw st =
     (case raw of
        None \<Rightarrow> st
      | Some txt \<Rightarrow>
          if txt = '''' then st
          else (case JSON_parse txt of
            None \<Rightarrow> st
          | Some envelope \<Rightarrow>
              (case List.find (\<lambda>s. so_topic s = topic) subs of
                 None \<Rightarrow> st
               | Some sub \<Rightarrow>
                   let maxRetries = (case so_maxRetries sub of Some n \<Rightarrow> n | None \<Rightarrow> 3)
                   in case dispatch_loop (so_handler sub envelope) maxRetries 1 (cs_service st) of
                        (Exhausted err, _, s') \<Rightarrow>
                          st\<lparr>cs_service := s',
                            cs_dlq := sendToDlq env src carrier rnd outcome topic envelope err
                              maxRetries (cs_dlq st)\<rparr>
                      | (_, _, s') \<Rightarrow> st\<lparr>cs_service := s'\<rparr>)))"

subsection \<open>The retry loop\<close>

text \<open>The waits before the attempts \<open>a + 1\<close> to \<open>b\<close>.\<close>

definition backoff :: "nat \<Rightarrow> nat \<Rightarrow> nat list" where
  "backoff a b = map (\<lambda>i. 300 * 2 ^ (i - 1)) [a..<b]"

lemma backoff_same [simp]: "backoff a a = []"
  by (simp add: backoff_def)

lemma backoff_Cons: "a < b \<Longrightarrow> backoff a b = 300 * 2 ^ (a - 1) # backoff (a + 1) b"
  by (simp add: backoff_def upt_conv_Cons)

text \<open>The states the attempts pass through, while each of them throws.\<close>

fun after_failures :: "(nat \<Rightarrow> ('s, string, unit) tx) \<Rightarrow> nat \<Rightarrow> nat \<Rightarrow> 's \<Rightarrow> 's" where
  "after_failures h attempt 0 s = s"
| "after_failures h attempt (Suc n) s = after_failures h (attempt + 1) n (snd (h attempt s))"

fun all_fail :: "(nat \<Rightarrow> ('s, string, unit) tx) \<Rightarrow> nat \<Rightarrow> nat \<Rightarrow> 's \<Rightarrow> bool" where
  "all_fail h attempt 0 s = True"
| "all_fail h attempt (Suc n) s =
     ((\<exists>e. fst (h attempt s) = Inl e) \<and> all_fail h (attempt + 1) n (snd (h attempt s)))"

lemma dispatch_loop_success:
  assumes "all_fail h a n s" "h (a + n) (after_failures h a n s) = (Inr (), s')" "a + n \<le> m"
  shows "dispatch_loop h m a s = (Handled (a + n), backoff a (a + n), s')"
  using assms
proof (induction n arbitrary: a s)
  case 0
  then show ?case by (simp add: dispatch_loop.simps [of h m a])
next
  case (Suc n)
  from Suc.prems obtain e t where step: "h a s = (Inl e, t)"
    by (cases "h a s") auto
  have "dispatch_loop h m (a + 1) t =
      (Handled (a + 1 + n), backoff (a + 1) (a + 1 + n), s')"
    using Suc.prems step by (intro Suc.IH) auto
  then show ?case
    using Suc.prems step by (simp add: dispatch_loop.simps [of h m a] backoff_Cons)
qed

lemma dispatch_loop_exhausted:
  assumes "all_fail h a (Suc n) s" "m = a + n"
  shows "\<exists>e. dispatch_loop h m a s =
    (Exhausted e, backoff a m, after_failures h a (Suc n) s)"
  using assms
proof (induction n arbitrary: a s)
  case 0
  then show ?case by (cases "h a s") (auto simp: dispatch_loop.simps [of h a a])
next
  case (Suc n)
  from Suc.prems obtain e t where step: "h a s = (Inl e, t)"
    by (cases "h a s") auto
  have "\<exists>e. dispatch_loop h m (a + 1) t =
      (Exhausted e, backoff (a + 1) m, after_failures h (a + 1) (Suc n) t)"
    using Suc.prems step by (intro Suc.IH) auto
  then obtain e' where "dispatch_loop h m (a + 1) t =
      (Exhausted e', backoff (a + 1) m, after_failures h (a + 1) (Suc n) t)" ..
  then have "dispatch_loop h m a s =
      (Exhausted e', backoff a m, after_failures h a (Suc (Suc n)) s)"
    using Suc.prems(2) step
    by (simp add: dispatch_loop.simps [of h "Suc (a + n)" a] backoff_Cons)
  then show ?case ..
qed

text \<open>A predicate on the service's state that every attempt keeps survives the dispatch.\<close>

lemma dispatch_loop_keeps:
  assumes "\<And>i t. P t \<Longrightarrow> P (snd (h i t))" "P s"
  shows "P (snd (snd (dispatch_loop h m a s)))"
  using assms
proof (induction h m a s rule: dispatch_loop.induct)
  case (1 h m a s)
  obtain r t where step: "h a s = (r, t)" by (cases "h a s")
  have "P (snd (h a s))" by (rule "1.prems")+
  with step have t: "P t" by simp
  show ?case
  proof (cases r)
    case (Inl e)
    with "1.IH" step t "1.prems"(1) have "P (snd (snd (dispatch_loop h m (a + 1) t)))"
      if "a \<le> m" "a \<noteq> m" using that by auto
    with Inl step t "1.prems"(2) show ?thesis
      by (auto simp: dispatch_loop.simps [of h m a] split: prod.splits)
  next
    case (Inr u)
    with step t "1.prems"(2) show ?thesis by (simp add: dispatch_loop.simps [of h m a])
  qed
qed

lemma sum_backoff: "sum_list (backoff 1 (Suc n)) = 300 * (2 ^ n - 1)"
proof -
  have "sum_list (backoff 1 (Suc n)) + 300 = 300 * 2 ^ n"
    by (induction n) (simp_all add: backoff_def)
  then show ?thesis by (simp add: right_diff_distrib')
qed

lemma first_success:
  "all_fail h a n s \<or> (\<exists>k < n. \<exists>t. all_fail h a k s \<and> h (a + k) (after_failures h a k s) = (Inr (), t))"
proof (induction n arbitrary: a s)
  case (Suc n)
  show ?case
  proof (cases "h a s")
    case (Pair r t)
    show ?thesis
    proof (cases r)
      case (Inr u)
      with Pair show ?thesis by (intro disjI2 exI [of _ 0]) simp
    next
      case (Inl e)
      from Suc.IH [of "a + 1" t] show ?thesis
      proof
        assume "all_fail h (a + 1) n t"
        with Pair Inl show ?thesis by simp
      next
        assume "\<exists>k < n. \<exists>t'. all_fail h (a + 1) k t \<and> h (a + 1 + k) (after_failures h (a + 1) k t) = (Inr (), t')"
        then obtain k t' where "k < n" "all_fail h (a + 1) k t"
          "h (a + 1 + k) (after_failures h (a + 1) k t) = (Inr (), t')" by blast
        with Pair Inl show ?thesis by (intro disjI2 exI [of _ "Suc k"]) auto
      qed
    qed
  qed
qed simp

subsection \<open>Properties of the consumer\<close>

definition max_attempts :: "('p, 's) subscribe_options \<Rightarrow> nat" where
  "max_attempts sub = (case so_maxRetries sub of Some n \<Rightarrow> n | None \<Rightarrow> 3)"

definition dlq_entry ::
  "string \<Rightarrow> 'p kafka_envelope \<Rightarrow> nat \<Rightarrow> 'p kafka_dlq_envelope kafka_message \<Rightarrow> bool" where
  "dlq_entry topic e n m \<longleftrightarrow>
     km_topic m = topic @ ''.dlq'' \<and> dq_originalEnvelope (ke_payload (km_value m)) = e \<and>
     dq_failedTopic (ke_payload (km_value m)) = topic \<and>
     dq_totalAttempts (ke_payload (km_value m)) = n \<and>
     ke_correlationId (km_value m) = ke_correlationId e"

lemma sendToDlq_Stored:
  "\<exists>m. sendToDlq env src carrier rnd Stored topic e err n dlq = dlq @ [m] \<and> dlq_entry topic e n m"
  by (simp add: sendToDlq_def KafkaProducerService_publish_def make_message_def make_envelope_def
      dlq_entry_def Let_def)

text \<open>
  C15. A parsed message on a subscribed topic is never silently dropped while the dead-letter
  topic can be written: either one of the first \<open>maxRetries\<close> attempts of the handler returns
  and the consumer's state is the one that attempt leaves, or all of them throw and exactly one
  message, with the original envelope and the number of attempts, goes to the dead-letter topic.
\<close>

theorem dispatch_handles_or_dlq:
  assumes "txt \<noteq> ''''" "JSON_parse txt = Some envelope"
    and sub: "List.find (\<lambda>s. so_topic s = topic) subs = Some sub" and n: "0 < max_attempts sub"
    and "h = so_handler sub envelope" "s = cs_service st"
    and "st' = KafkaConsumerService_dispatch env src carrier rnd Stored JSON_parse subs topic (Some txt) st"
  shows "(\<exists>k < max_attempts sub. all_fail h 1 k s \<and>
            h (1 + k) (after_failures h 1 k s) = (Inr (), cs_service st') \<and> cs_dlq st' = cs_dlq st) \<or>
         (all_fail h 1 (max_attempts sub) s \<and>
            cs_service st' = after_failures h 1 (max_attempts sub) s \<and>
            (\<exists>m. cs_dlq st' = cs_dlq st @ [m] \<and> dlq_entry topic envelope (max_attempts sub) m))"
proof -
  let ?n = "max_attempts sub"
  have st': "st' = (case dispatch_loop h ?n 1 s of
      (Exhausted err, _, s') \<Rightarrow> st\<lparr>cs_service := s',
        cs_dlq := sendToDlq env src carrier rnd Stored topic envelope err ?n (cs_dlq st)\<rparr>
    | (_, _, s') \<Rightarrow> st\<lparr>cs_service := s'\<rparr>)"
    using assms by (simp add: KafkaConsumerService_dispatch_def max_attempts_def [symmetric] Let_def)
  from first_success [of h 1 ?n s] show ?thesis
  proof
    assume fail: "all_fail h 1 ?n s"
    from n obtain j where j: "?n = Suc j" using gr0_implies_Suc by blast
    then obtain e where loop: "dispatch_loop h ?n 1 s = (Exhausted e, backoff 1 ?n, after_failures h 1 ?n s)"
      using dispatch_loop_exhausted [of h 1 j s ?n] fail by auto
    obtain m where "sendToDlq env src carrier rnd Stored topic envelope e ?n (cs_dlq st) = cs_dlq st @ [m]"
      "dlq_entry topic envelope ?n m" using sendToDlq_Stored by blast
    with loop fail st' show ?thesis by simp
  next
    assume "\<exists>k < ?n. \<exists>t. all_fail h 1 k s \<and> h (1 + k) (after_failures h 1 k s) = (Inr (), t)"
    then obtain k t where k: "k < ?n" "all_fail h 1 k s" "h (1 + k) (after_failures h 1 k s) = (Inr (), t)"
      by blast
    then have "dispatch_loop h ?n 1 s = (Handled (1 + k), backoff 1 (1 + k), t)"
      by (intro dispatch_loop_success) auto
    with k st' show ?thesis by auto
  qed
qed

theorem dispatch_handles_or_dlq_witness:
  "\<exists>m. cs_dlq (KafkaConsumerService_dispatch
      \<lparr>e_now = 0, e_uuid = (\<lambda>_. []), e_iso = (\<lambda>_. ''t''), e_str = (\<lambda>_. ''0'')\<rparr> ''pdf-service''
      \<lparr>tc_traceparent = None, tc_tracestate = None\<rparr> ''d'' Stored
      (\<lambda>_. Some (make_envelope \<lparr>e_now = 0, e_uuid = (\<lambda>_. []), e_iso = (\<lambda>_. ''t''), e_str = (\<lambda>_. ''0'')\<rparr>
        ''order-service'' \<lparr>tc_traceparent = None, tc_tracestate = None\<rparr> ''x'' (7 :: nat) (Some ''c'') None))
      [\<lparr>so_topic = ''t'', so_handler = (\<lambda>_ _ s. (Inl ''boom'', s)), so_maxRetries = None\<rparr>]
      ''t'' (Some ''{}'') \<lparr>cs_service = (), cs_dlq = []\<rparr>) = [m] \<and>
    dq_totalAttempts (ke_payload (km_value m)) = 3"
proof -
  let ?env = "\<lparr>e_now = 0, e_uuid = (\<lambda>_. []), e_iso = (\<lambda>_. ''t''), e_str = (\<lambda>_. ''0'')\<rparr>"
  let ?c = "\<lparr>tc_traceparent = None, tc_tracestate = None\<rparr>"
  let ?e = "make_envelope ?env ''order-service'' ?c ''x'' (7 :: nat) (Some ''c'') None"
  let ?sub = "\<lparr>so_topic = ''t'', so_handler = (\<lambda>_ _ s. (Inl ''boom'', s)), so_maxRetries = None\<rparr>"
  show ?thesis
    using dispatch_handles_or_dlq [of "''{}''" "\<lambda>_. Some ?e" ?e "''t''" "[?sub]" ?sub
      "so_handler ?sub ?e" "()" "\<lparr>cs_service = (), cs_dlq = []\<rparr>" _ ?env "''pdf-service''" ?c "''d''"]
    by (simp add: max_attempts_def dlq_entry_def) blast
qed

end
