(* ===== verification/Outbox.thy ===== *)
theory Outbox
  imports Kafka
begin

section \<open>The transactional outbox\<close>

text \<open>
  \<^verbatim>\<open>packages/outbox\<close> and the outbox of each service: the entity, the write that a
  business transaction makes, the query for due rows and the two processors that publish
  them: \<open>AbstractOutboxProcessorService\<close> (auth, product and payment service) and the
  order-service's own \<open>OutboxProcessorService\<close> over its repository. A service's tables
  are a record that extends \<open>outbox_db\<close>. The processor's tick is one transaction on the
  rows with sends to Kafka inside it; \<open>db_fault = Some k\<close> says that the database fails
  while the outcome of the \<open>k\<close>-th due row is recorded, which rolls every row back but
  cannot unsend what was sent. \<open>locked\<close> are the rows other instances hold.
\<close>

subsection \<open>The entity and its writers\<close>

record outbox_entity =
  ob_id :: string
  ob_aggregateId :: string
  ob_topic :: string
  ob_messageKey :: string
  ob_payload :: payload
  ob_status :: outbox_status
  ob_retryCount :: nat
  ob_lastError :: "string option"
  ob_scheduledAt :: date
  ob_publishedAt :: "date option"
  ob_createdAt :: date

record outbox_db =
  seq :: nat
  outbox :: "outbox_entity list"

definition new_outbox_row ::
  "env \<Rightarrow> nat \<Rightarrow> string \<Rightarrow> string \<Rightarrow> string \<Rightarrow> payload \<Rightarrow> outbox_entity" where
  "new_outbox_row env n aggregateId topic messageKey pl =
     \<lparr>ob_id = e_uuid env n, ob_aggregateId = aggregateId, ob_topic = topic,
      ob_messageKey = messageKey, ob_payload = pl, ob_status = OutboxStatus_PENDING,
      ob_retryCount = 0, ob_lastError = None, ob_scheduledAt = e_now env,
      ob_publishedAt = None, ob_createdAt = e_now env\<rparr>"

definition OutboxService_write ::
  "env \<Rightarrow> string \<Rightarrow> string \<Rightarrow> string \<Rightarrow> payload \<Rightarrow> 'a outbox_db_scheme \<Rightarrow> 'a outbox_db_scheme" where
  "OutboxService_write env aggregateId topic messageKey pl s =
     s\<lparr>outbox := outbox s @ [new_outbox_row env (seq s) aggregateId topic messageKey pl],
       seq := Suc (seq s)\<rparr>"

definition TypeOrmOutboxRepository_write ::
  "env \<Rightarrow> string \<Rightarrow> string \<Rightarrow> string \<Rightarrow> payload \<Rightarrow> 'a outbox_db_scheme \<Rightarrow> 'a outbox_db_scheme" where
  "TypeOrmOutboxRepository_write env aggregateId topic key pl s =
     s\<lparr>outbox := outbox s @ [new_outbox_row env (seq s) aggregateId topic key pl],
       seq := Suc (seq s)\<rparr>"

subsection \<open>The repository of the order-service\<close>

definition due :: "date \<Rightarrow> (string \<Rightarrow> bool) \<Rightarrow> outbox_entity \<Rightarrow> bool" where
  "due now locked r \<longleftrightarrow>
     ob_status r = OutboxStatus_PENDING \<and> ob_scheduledAt r \<le> now \<and> \<not> locked (ob_id r)"

definition findPendingWithLock ::
  "date \<Rightarrow> (string \<Rightarrow> bool) \<Rightarrow> nat \<Rightarrow> outbox_entity list \<Rightarrow> outbox_entity list" where
  "findPendingWithLock now locked limit rows =
     take limit (sort_key ob_scheduledAt (filter (due now locked) rows))"

definition markPublished :: "date \<Rightarrow> string \<Rightarrow> outbox_entity list \<Rightarrow> outbox_entity list" where
  "markPublished now i rows =
     update_where (\<lambda>r. ob_id r = i)
       (\<lambda>r. r\<lparr>ob_status := OutboxStatus_PUBLISHED, ob_publishedAt := Some now\<rparr>) rows"

definition scheduleRetry_row ::
  "string \<Rightarrow> nat \<Rightarrow> string \<Rightarrow> date \<Rightarrow> outbox_entity list \<Rightarrow> outbox_entity list" where
  "scheduleRetry_row i retryCount err scheduledAt rows =
     update_where (\<lambda>r. ob_id r = i)
       (\<lambda>r. r\<lparr>ob_status := OutboxStatus_PENDING, ob_retryCount := retryCount,
          ob_lastError := Some err, ob_scheduledAt := scheduledAt\<rparr>) rows"

definition permanentlyFail ::
  "string \<Rightarrow> nat \<Rightarrow> string \<Rightarrow> outbox_entity list \<Rightarrow> outbox_entity list" where
  "permanentlyFail i retryCount err rows =
     update_where (\<lambda>r. ob_id r = i)
       (\<lambda>r. r\<lparr>ob_status := OutboxStatus_FAILED, ob_retryCount := retryCount,
          ob_lastError := Some err\<rparr>) rows"

subsection \<open>The processors\<close>

text \<open>\<^verbatim>\<open>Math.min(1000 * Math.pow(2, retryCount), 300_000)\<close>\<close>

definition retry_delay :: "nat \<Rightarrow> nat" where
  "retry_delay retryCount = min (1000 * 2 ^ retryCount) 300000"

record broker =
  b_source :: string
  b_carrier :: trace_carrier
  b_send :: "string \<Rightarrow> send_outcome"

definition publish_record ::
  "env \<Rightarrow> broker \<Rightarrow> outbox_entity \<Rightarrow> (payload kafka_message list, string, unit) tx" where
  "publish_record env b r =
     KafkaProducerService_publish env (b_source b) (b_carrier b) '''' (b_send b (ob_id r))
       (ob_topic r) (ob_payload r)
       (Some (case payload_correlationId (ob_payload r) of Some c \<Rightarrow> c | None \<Rightarrow> ''''))
       (Some (ob_id r))"

type_synonym bus_state = "outbox_entity list \<times> payload kafka_message list"

text \<open>One iteration of the loop in \<^verbatim>\<open>abstract-outbox-processor.service.ts\<close>.\<close>

definition abstract_process_record ::
  "env \<Rightarrow> broker \<Rightarrow> nat \<Rightarrow> outbox_entity \<Rightarrow> bus_state \<Rightarrow> bus_state" where
  "abstract_process_record env b maxRetries r st =
     (case publish_record env b r (snd st) of
        (Inr _, bus) \<Rightarrow> (markPublished (e_now env) (ob_id r) (fst st), bus)
      | (Inl err, bus) \<Rightarrow>
          let retryCount = ob_retryCount r + 1;
              delayMs = retry_delay retryCount
          in (update_where (\<lambda>x. ob_id x = ob_id r)
                (\<lambda>x. x\<lparr>ob_status := (if retryCount \<ge> maxRetries then OutboxStatus_FAILED
                                    else OutboxStatus_PENDING),
                   ob_retryCount := retryCount, ob_lastError := Some err,
                   ob_scheduledAt := e_now env + int delayMs\<rparr>) (fst st), bus))"

text \<open>One iteration of the loop in the order-service's \<^verbatim>\<open>outbox-processor.service.ts\<close>.\<close>

definition order_process_record ::
  "env \<Rightarrow> broker \<Rightarrow> nat \<Rightarrow> outbox_entity \<Rightarrow> bus_state \<Rightarrow> bus_state" where
  "order_process_record env b maxRetries r st =
     (case publish_record env b r (snd st) of
        (Inr _, bus) \<Rightarrow> (markPublished (e_now env) (ob_id r) (fst st), bus)
      | (Inl err, bus) \<Rightarrow>
          let retryCount = ob_retryCount r + 1;
              delayMs = retry_delay retryCount
          in if retryCount \<ge> maxRetries
             then (permanentlyFail (ob_id r) retryCount err (fst st), bus)
             else (scheduleRetry_row (ob_id r) retryCount err (e_now env + int delayMs) (fst st),
                   bus))"

record processor =
  isProcessing :: bool
  maxRetries :: nat

text \<open>
  The body of \<^verbatim>\<open>processPending\<close> over either iteration: the due rows are read once, the
  iterations run in order, and a database fault restores the rows.
\<close>

definition process_batch ::
  "(outbox_entity \<Rightarrow> bus_state \<Rightarrow> bus_state) \<Rightarrow> nat option \<Rightarrow> outbox_entity list \<Rightarrow>
    bus_state \<Rightarrow> bus_state" where
  "process_batch iteration db_fault records st =
     (case db_fault of
        None \<Rightarrow> fold iteration records st
      | Some k \<Rightarrow> (fst st, snd (fold iteration (take (Suc k) records) st)))"

definition abstract_processPending ::
  "env \<Rightarrow> broker \<Rightarrow> nat option \<Rightarrow> (string \<Rightarrow> bool) \<Rightarrow> processor \<Rightarrow> bus_state \<Rightarrow>
    processor \<times> bus_state" where
  "abstract_processPending env b db_fault locked p st =
     (if isProcessing p then (p, st)
      else let p' = p\<lparr>isProcessing := True\<rparr>
           in (p'\<lparr>isProcessing := False\<rparr>,
            process_batch (abstract_process_record env b (maxRetries p)) db_fault
              (take 10 (sort_key ob_scheduledAt (filter (due (e_now env) locked) (fst st)))) st))"

definition order_processPending ::
  "env \<Rightarrow> broker \<Rightarrow> nat option \<Rightarrow> (string \<Rightarrow> bool) \<Rightarrow> processor \<Rightarrow> bus_state \<Rightarrow>
    processor \<times> bus_state" where
  "order_processPending env b db_fault locked p st =
     (if isProcessing p then (p, st)
      else let p' = p\<lparr>isProcessing := True\<rparr>
           in (p'\<lparr>isProcessing := False\<rparr>,
            process_batch (order_process_record env b (maxRetries p)) db_fault
              (findPendingWithLock (e_now env) locked 10 (fst st)) st))"

subsection \<open>The contract of a writer\<close>

text \<open>
  Whatever writes to the outbox appends one pending row under the next generated id and touches
  no other table. A client of the contract keeps the ids of its rows distinct.
\<close>

definition outbox_ids_ok :: "(nat \<Rightarrow> string) \<Rightarrow> 'a outbox_db_scheme \<Rightarrow> bool" where
  "outbox_ids_ok u s \<longleftrightarrow>
     distinct (map ob_id (outbox s)) \<and> set (map ob_id (outbox s)) \<subseteq> u ` {..<seq s}"

locale outbox_writer =
  fixes put :: "env \<Rightarrow> string \<Rightarrow> string \<Rightarrow> string \<Rightarrow> payload \<Rightarrow> 'a outbox_db_scheme \<Rightarrow> 'a outbox_db_scheme"
  assumes put_outbox:
      "outbox (put env a t k p s) = outbox s @ [new_outbox_row env (seq s) a t k p]"
    and put_seq: "seq (put env a t k p s) = Suc (seq s)"
    and put_more: "outbox_db.more (put env a t k p s) = outbox_db.more s"
begin

lemma put_keeps_ids:
  assumes "uuid_ok (e_uuid env)" "outbox_ids_ok (e_uuid env) s"
  shows "outbox_ids_ok (e_uuid env) (put env a t k p s)"
proof -
  have "e_uuid env (seq s) \<notin> set (map ob_id (outbox s))"
    using assms fresh_id [of "e_uuid env" _ "seq s" "seq s"] by (simp add: outbox_ids_ok_def del: set_map)
  moreover have "e_uuid env ` {..<seq s} \<subseteq> e_uuid env ` {..<Suc (seq s)}"
    by (intro image_mono) auto
  ultimately show ?thesis
    using assms(2) by (auto simp: outbox_ids_ok_def put_outbox put_seq new_outbox_row_def)
qed

lemma put_is_due:
  "e_now env \<le> now \<Longrightarrow> \<not> locked (e_uuid env (seq s)) \<Longrightarrow>
     filter (due now locked) (outbox (put env a t k p s)) =
       filter (due now locked) (outbox s) @ [new_outbox_row env (seq s) a t k p]"
  by (simp add: put_outbox due_def new_outbox_row_def)

end

interpretation service_outbox: outbox_writer OutboxService_write
  by unfold_locales (simp_all add: OutboxService_write_def)

interpretation repo_outbox: outbox_writer TypeOrmOutboxRepository_write
  by unfold_locales (simp_all add: TypeOrmOutboxRepository_write_def)

subsection \<open>The contract of a processor iteration\<close>

text \<open>What no processor changes of a row.\<close>

definition ob_ident :: "outbox_entity \<Rightarrow> string \<times> string \<times> string \<times> string \<times> payload \<times> date" where
  "ob_ident r =
     (ob_id r, ob_aggregateId r, ob_topic r, ob_messageKey r, ob_payload r, ob_createdAt r)"

definition carries :: "outbox_entity \<Rightarrow> payload kafka_message \<Rightarrow> bool" where
  "carries r m \<longleftrightarrow>
     km_topic m = ob_topic r \<and> ke_messageId (km_value m) = ob_id r \<and>
     ke_payload (km_value m) = ob_payload r"

text \<open>Published rows are on the bus; the retry counter matches the status.\<close>

definition delivered_inv :: "bus_state \<Rightarrow> bool" where
  "delivered_inv st \<longleftrightarrow>
     (\<forall>r \<in> set (fst st). ob_status r = OutboxStatus_PUBLISHED \<longrightarrow> (\<exists>m \<in> set (snd st). carries r m))"

definition retry_inv :: "nat \<Rightarrow> outbox_entity \<Rightarrow> bool" where
  "retry_inv limit r \<longleftrightarrow>
     (ob_status r = OutboxStatus_PENDING \<longrightarrow> ob_retryCount r < limit) \<and>
     (ob_status r = OutboxStatus_FAILED \<longrightarrow> ob_retryCount r = limit)"

lemma publish_record_bus:
  "publish_record env b r bus = (res, bus') \<Longrightarrow>
     bus' = bus \<or> (\<exists>m. bus' = bus @ [m] \<and> carries r m)"
  by (auto simp: publish_record_def KafkaProducerService_publish_def make_message_def
      make_envelope_def carries_def Let_def split: send_outcome.splits)

lemma publish_record_ok:
  "publish_record env b r bus = (Inr u, bus') \<Longrightarrow> \<exists>m. bus' = bus @ [m] \<and> carries r m"
  by (auto simp: publish_record_def KafkaProducerService_publish_def make_message_def
      make_envelope_def carries_def Let_def split: send_outcome.splits)

lemma publish_record_Stored:
  "b_send b (ob_id r) = Stored \<Longrightarrow>
     \<exists>m. publish_record env b r bus = (Inr (), bus @ [m]) \<and> carries r m"
  by (simp add: publish_record_def KafkaProducerService_publish_def make_message_def
      make_envelope_def carries_def Let_def)

lemma carries_ident: "ob_ident x = ob_ident r \<Longrightarrow> carries r m \<Longrightarrow> carries x m"
  by (simp add: ob_ident_def carries_def)

locale outbox_processor =
  fixes iteration :: "env \<Rightarrow> broker \<Rightarrow> nat \<Rightarrow> outbox_entity \<Rightarrow> bus_state \<Rightarrow> bus_state"
  assumes iteration_ok:
      "publish_record env b r (snd st) = (Inr u, bus) \<Longrightarrow>
        iteration env b lmt r st = (markPublished (e_now env) (ob_id r) (fst st), bus)"
    and iteration_fail:
      "publish_record env b r (snd st) = (Inl e, bus) \<Longrightarrow>
        \<exists>f. iteration env b lmt r st = (update_where (\<lambda>x. ob_id x = ob_id r) f (fst st), bus) \<and>
          (\<forall>x. ob_ident (f x) = ob_ident x \<and> ob_retryCount (f x) = Suc (ob_retryCount r) \<and>
             ob_status (f x) = (if lmt \<le> Suc (ob_retryCount r) then OutboxStatus_FAILED
               else OutboxStatus_PENDING))"
begin

text \<open>One iteration changes only the row it is about, and keeps its identity.\<close>

lemma iteration_shape:
  obtains f bus where "iteration env b lmt r st = (update_where (\<lambda>x. ob_id x = ob_id r) f (fst st), bus)"
    "\<And>x. ob_ident (f x) = ob_ident x" "bus = snd st \<or> (\<exists>m. bus = snd st @ [m] \<and> carries r m)"
    "\<And>x. ob_status (f x) = OutboxStatus_PUBLISHED \<Longrightarrow> \<exists>m. bus = snd st @ [m] \<and> carries r m"
    "\<And>x. ob_retryCount r < lmt \<Longrightarrow> retry_inv lmt (f x)"
proof (cases "publish_record env b r (snd st)")
  case (Pair res bus)
  show ?thesis
  proof (cases res)
    case (Inl e)
    from iteration_fail [OF Pair [unfolded Inl], of lmt] obtain f where
      "iteration env b lmt r st = (update_where (\<lambda>x. ob_id x = ob_id r) f (fst st), bus)" and
      f: "\<And>x. ob_ident (f x) = ob_ident x" "\<And>x. ob_retryCount (f x) = Suc (ob_retryCount r)"
        "\<And>x. ob_status (f x) = (if lmt \<le> Suc (ob_retryCount r) then OutboxStatus_FAILED
               else OutboxStatus_PENDING)"
      by blast
    then show ?thesis
      using publish_record_bus [OF Pair] by (intro that [of f bus]) (auto simp: retry_inv_def split: if_splits)
  next
    case (Inr u)
    then show ?thesis
      using iteration_ok [OF Pair [unfolded Inr], of lmt] publish_record_ok [OF Pair [unfolded Inr]]
      by (intro that [of "\<lambda>r. r\<lparr>ob_status := OutboxStatus_PUBLISHED, ob_publishedAt := Some (e_now env)\<rparr>" bus])
        (auto simp: markPublished_def ob_ident_def retry_inv_def)
  qed
qed

lemma iteration_ident: "map ob_ident (fst (iteration env b lmt r st)) = map ob_ident (fst st)"
  by (rule iteration_shape [of env b lmt r st]) (simp add: map_update_where)

lemma fold_ident: "map ob_ident (fst (fold (iteration env b lmt) rs st)) = map ob_ident (fst st)"
  by (induction rs arbitrary: st) (simp_all add: iteration_ident)

lemma iteration_bus:
  "\<exists>ext. snd (iteration env b lmt r st) = snd st @ ext \<and> length ext \<le> 1 \<and> (\<forall>m \<in> set ext. carries r m)"
  by (rule iteration_shape [of env b lmt r st]) auto

lemma fold_bus:
  "\<exists>ext. snd (fold (iteration env b lmt) rs st) = snd st @ ext \<and> length ext \<le> length rs \<and>
     (\<forall>m \<in> set ext. \<exists>r \<in> set rs. carries r m)"
proof (induction rs arbitrary: st)
  case (Cons r rs)
  obtain e1 where 1: "snd (iteration env b lmt r st) = snd st @ e1" "length e1 \<le> 1"
    "\<forall>m \<in> set e1. carries r m" using iteration_bus by blast
  obtain e2 where 2: "snd (fold (iteration env b lmt) rs (iteration env b lmt r st)) =
      snd (iteration env b lmt r st) @ e2" "length e2 \<le> length rs"
    "\<forall>m \<in> set e2. \<exists>r \<in> set rs. carries r m" using Cons by blast
  show ?case by (rule exI [of _ "e1 @ e2"]) (use 1 2 in auto)
qed simp

lemma iteration_delivered:
  assumes "delivered_inv st" "\<forall>x \<in> set (fst st). ob_id x = ob_id r \<longrightarrow> ob_ident x = ob_ident r"
  shows "delivered_inv (iteration env b lmt r st)"
proof (rule iteration_shape [of env b lmt r st])
  fix f bus
  assume it: "iteration env b lmt r st = (update_where (\<lambda>x. ob_id x = ob_id r) f (fst st), bus)"
    and f: "\<And>x. ob_ident (f x) = ob_ident x"
    and bus: "bus = snd st \<or> (\<exists>m. bus = snd st @ [m] \<and> carries r m)"
    and pub: "\<And>x. ob_status (f x) = OutboxStatus_PUBLISHED \<Longrightarrow> \<exists>m. bus = snd st @ [m] \<and> carries r m"
  show ?thesis
    unfolding delivered_inv_def it set_update_where fst_conv snd_conv
  proof safe
    fix x assume x: "x \<in> set (fst st)"
      and p: "ob_status (if ob_id x = ob_id r then f x else x) = OutboxStatus_PUBLISHED"
    show "\<exists>m \<in> set bus. carries (if ob_id x = ob_id r then f x else x) m"
    proof (cases "ob_id x = ob_id r")
      case True
      with pub p obtain m where m: "bus = snd st @ [m]" "carries r m" by auto
      have "ob_ident (f x) = ob_ident r" using f assms(2) x True by auto
      with m True show ?thesis by (auto intro: carries_ident)
    next
      case False
      with assms(1) x p obtain m where "m \<in> set (snd st)" "carries x m"
        by (auto simp: delivered_inv_def)
      with bus False show ?thesis by auto
    qed
  qed
qed

lemma fold_delivered:
  assumes "delivered_inv st" "distinct (map ob_id (fst st))" "set (map ob_ident rs) \<subseteq> set (map ob_ident (fst st))"
  shows "delivered_inv (fold (iteration env b lmt) rs st)"
  using assms
proof (induction rs arbitrary: st)
  case (Cons r rs)
  let ?st = "iteration env b lmt r st"
  have ids: "map ob_id (fst ?st) = map ob_id (fst st)"
    using arg_cong [OF iteration_ident [of env b lmt r st], of "map fst"]
    by (simp add: ob_ident_def comp_def)
  from Cons.prems(3) obtain y where y: "y \<in> set (fst st)" "ob_ident y = ob_ident r" by auto
  then have "ob_id y = ob_id r" by (simp add: ob_ident_def)
  with Cons.prems(2) y have "\<forall>x \<in> set (fst st). ob_id x = ob_id r \<longrightarrow> ob_ident x = ob_ident r"
    by (metis inj_on_def distinct_map)
  then have "delivered_inv ?st" by (rule iteration_delivered [OF Cons.prems(1)])
  then show ?case
    using Cons.prems ids iteration_ident [of env b lmt r st]
    by (auto intro!: Cons.IH simp del: set_map simp: set_map [symmetric])
qed simp

lemma iteration_retry:
  "\<forall>x \<in> set (fst st). retry_inv lmt x \<Longrightarrow> ob_retryCount r < lmt \<Longrightarrow>
     \<forall>x \<in> set (fst (iteration env b lmt r st)). retry_inv lmt x"
  by (rule iteration_shape [of env b lmt r st]) (auto simp: set_update_where)

lemma fold_retry:
  "\<forall>x \<in> set (fst st). retry_inv lmt x \<Longrightarrow> \<forall>r \<in> set rs. ob_retryCount r < lmt \<Longrightarrow>
     \<forall>x \<in> set (fst (fold (iteration env b lmt) rs st)). retry_inv lmt x"
proof (induction rs arbitrary: st)
  case (Cons r rs)
  have "\<forall>x \<in> set (fst (iteration env b lmt r st)). retry_inv lmt x"
    using Cons.prems by (intro iteration_retry) auto
  with Cons show ?case by simp
qed simp

lemma fold_all_stored:
  assumes "\<And>i. b_send b i = Stored"
  shows "fst (fold (iteration env b lmt) rs st) =
    update_where (\<lambda>x. ob_id x \<in> ob_id ` set rs)
      (\<lambda>x. x\<lparr>ob_status := OutboxStatus_PUBLISHED, ob_publishedAt := Some (e_now env)\<rparr>) (fst st)"
proof (induction rs arbitrary: st)
  case Nil
  show ?case by (simp add: update_where_def)
next
  case (Cons r rs)
  obtain m where "publish_record env b r (snd st) = (Inr (), snd st @ [m])"
    using publish_record_Stored assms by blast
  then have "iteration env b lmt r st = (markPublished (e_now env) (ob_id r) (fst st), snd st @ [m])"
    by (rule iteration_ok)
  then show ?case
    by (auto simp: Cons.IH markPublished_def update_where_def)
qed

lemma fold_all_sent:
  assumes "\<And>i. b_send b i = Stored"
  shows "\<exists>ext. snd (fold (iteration env b lmt) rs st) = snd st @ ext \<and> list_all2 carries rs ext"
proof (induction rs arbitrary: st)
  case (Cons r rs)
  obtain m where m: "publish_record env b r (snd st) = (Inr (), snd st @ [m])" "carries r m"
    using publish_record_Stored assms by blast
  then have it: "iteration env b lmt r st = (markPublished (e_now env) (ob_id r) (fst st), snd st @ [m])"
    by (intro iteration_ok)
  obtain ext where "snd (fold (iteration env b lmt) rs (iteration env b lmt r st)) = snd (iteration env b lmt r st) @ ext"
    "list_all2 carries rs ext" using Cons.IH by blast
  with it m(2) show ?case by (intro exI [of _ "m # ext"]) simp
qed simp

end

interpretation abstract_processor: outbox_processor abstract_process_record
  by unfold_locales
    (auto simp: abstract_process_record_def ob_ident_def Let_def intro!: exI)

interpretation order_processor: outbox_processor order_process_record
proof unfold_locales
  fix env b r and st :: bus_state and u bus lmt
  assume "publish_record env b r (snd st) = (Inr u, bus)"
  then show "order_process_record env b lmt r st = (markPublished (e_now env) (ob_id r) (fst st), bus)"
    by (simp add: order_process_record_def)
next
  fix env b r and st :: bus_state and e bus lmt
  assume p: "publish_record env b r (snd st) = (Inl e, bus)"
  show "\<exists>f. order_process_record env b lmt r st = (update_where (\<lambda>x. ob_id x = ob_id r) f (fst st), bus) \<and>
          (\<forall>x. ob_ident (f x) = ob_ident x \<and> ob_retryCount (f x) = Suc (ob_retryCount r) \<and>
             ob_status (f x) = (if lmt \<le> Suc (ob_retryCount r) then OutboxStatus_FAILED
               else OutboxStatus_PENDING))"
    using p by (cases "lmt \<le> Suc (ob_retryCount r)")
      (auto simp: order_process_record_def permanentlyFail_def scheduleRetry_row_def
        ob_ident_def Let_def intro!: exI)
qed

lemmas processPending_defs = abstract_processPending_def order_processPending_def process_batch_def
  findPendingWithLock_def Let_def

lemma batch_due: "r \<in> set (take n (sort_key f (filter P xs))) \<Longrightarrow> r \<in> set xs \<and> P r"
  by (drule in_set_takeD) simp

subsection \<open>Properties of the processors\<close>

lemma order_tick_effect:
  assumes "distinct (map ob_id rows)" and "delivered_inv (rows, bus)"
    and "order_processPending env b db_fault locked p (rows, bus) = (p', rows', bus')"
  shows "map ob_ident rows' = map ob_ident rows \<and> delivered_inv (rows', bus') \<and>
    (\<exists>ext. bus' = bus @ ext \<and> length ext \<le> 10 \<and>
      (\<forall>m \<in> set ext. \<exists>r \<in> set rows. due (e_now env) locked r \<and> carries r m))"
proof (cases "isProcessing p")
  case True
  with assms show ?thesis by (auto simp: order_processPending_def)
next
  case False
  let ?it = "order_process_record env b (maxRetries p)"
  let ?batch = "take 10 (sort_key ob_scheduledAt (filter (due (e_now env) locked) rows))"
  have sub: "set (map ob_ident rs) \<subseteq> set (map ob_ident rows)"
    if "set rs \<subseteq> set ?batch" for rs using that by (auto dest: batch_due)
  have ext: "\<exists>ext. snd (fold ?it rs (rows, bus)) = bus @ ext \<and> length ext \<le> 10 \<and>
      (\<forall>m \<in> set ext. \<exists>r \<in> set rows. due (e_now env) locked r \<and> carries r m)"
    if "set rs \<subseteq> set ?batch" "length rs \<le> 10" for rs
  proof -
    obtain ext where "snd (fold ?it rs (rows, bus)) = bus @ ext" "length ext \<le> length rs"
      "\<forall>m \<in> set ext. \<exists>r \<in> set rs. carries r m"
      using order_processor.fold_bus [of env b "maxRetries p" rs "(rows, bus)"] by auto
    moreover have "\<forall>r \<in> set rs. r \<in> set rows \<and> due (e_now env) locked r"
      using that(1) by (auto dest: batch_due)
    ultimately show ?thesis using that(2) by (meson le_trans)
  qed
  show ?thesis
  proof (cases db_fault)
    case None
    then have eq: "(rows', bus') = fold ?it ?batch (rows, bus)"
      using assms(3) False by (auto simp: processPending_defs)
    have "delivered_inv (rows', bus')"
      unfolding eq using assms(1,2) sub by (intro order_processor.fold_delivered) auto
    moreover have "map ob_ident rows' = map ob_ident rows"
      using order_processor.fold_ident [of env b "maxRetries p" ?batch "(rows, bus)"]
      by (simp add: eq [symmetric])
    ultimately show ?thesis using ext [of ?batch] by (simp add: eq [symmetric])
  next
    case (Some k)
    let ?sent = "take (Suc k) ?batch"
    have eq: "rows' = rows" "bus' = snd (fold ?it ?sent (rows, bus))"
      using assms(3) False Some by (auto simp: processPending_defs)
    have sent: "set ?sent \<subseteq> set ?batch" by (rule set_take_subset)
    have ten: "length ?sent \<le> 10" by simp
    from ext [OF sent ten] obtain e where "bus' = bus @ e" "length e \<le> 10"
      "\<forall>m \<in> set e. \<exists>r \<in> set rows. due (e_now env) locked r \<and> carries r m"
      unfolding eq by blast
    with assms(2) eq(1) show ?thesis by (auto simp: delivered_inv_def)
  qed
qed


text \<open>
  C12. A tick of the order-service's outbox processor, whatever the broker and the database do
  (sends that fail, sends that fail after the message was stored, a database failure in the
  middle of the batch), keeps the rows' identities, keeps every published row backed by a
  message on the bus with its id, topic and payload, and adds to the bus at most ten messages,
  each carrying a row that was due when the tick began.
\<close>

theorem order_tick_delivers:
  assumes "distinct (map ob_id rows)" and "delivered_inv (rows, bus)"
    and "order_processPending env b db_fault locked p (rows, bus) = (p', rows', bus')"
  shows "map ob_ident rows' = map ob_ident rows \<and> delivered_inv (rows', bus') \<and>
    (\<exists>ext. bus' = bus @ ext \<and> length ext \<le> 10 \<and>
      (\<forall>m \<in> set ext. \<exists>r \<in> set rows. due (e_now env) locked r \<and> carries r m))"
  using assms by (rule order_tick_effect)

text \<open>A row, the broker and the clock of the witnesses below.\<close>

definition sample_env :: env where
  "sample_env = \<lparr>e_now = 1000, e_uuid = (\<lambda>n. replicate (Suc n) CHR ''a''),
     e_iso = (\<lambda>_. ''2026-01-01T00:00:00.000Z''), e_str = (\<lambda>_. ''0'')\<rparr>"

definition sample_broker :: "(string \<Rightarrow> send_outcome) \<Rightarrow> broker" where
  "sample_broker send = \<lparr>b_source = ''order-service'',
     b_carrier = \<lparr>tc_traceparent = None, tc_tracestate = None\<rparr>, b_send = send\<rparr>"

definition sample_row :: "string \<Rightarrow> outbox_entity" where
  "sample_row i = \<lparr>ob_id = i, ob_aggregateId = ''u1'', ob_topic = KAFKA_TOPICS USER_REGISTERED,
     ob_messageKey = ''u1'', ob_payload = UserRegistered \<lparr>ur_userId = ''u1'', ur_email = ''a@b.c''\<rparr>,
     ob_status = OutboxStatus_PENDING, ob_retryCount = 0, ob_lastError = None,
     ob_scheduledAt = 500, ob_publishedAt = None, ob_createdAt = 500\<rparr>"

lemma sample_uuid_ok: "uuid_ok (e_uuid sample_env)"
proof -
  have "inj (\<lambda>n. replicate (Suc n) CHR ''a'')" by (rule injI) (metis length_replicate nat.inject)
  then show ?thesis by (auto simp: uuid_ok_def sample_env_def)
qed

lemmas sample_defs = sample_env_def sample_broker_def sample_row_def

theorem order_tick_delivers_witness:
  "\<exists>p' rows' bus'.
     order_processPending sample_env (sample_broker (\<lambda>i. if i = ''1'' then Stored else Lost ''down'')) None
       (\<lambda>_. False) \<lparr>isProcessing = False, maxRetries = 5\<rparr> ([sample_row ''1'', sample_row ''2''], [])
       = (p', rows', bus') \<and>
     map ob_status rows' = [OutboxStatus_PUBLISHED, OutboxStatus_PENDING] \<and>
     length bus' = 1 \<and> delivered_inv (rows', bus')"
proof -
  let ?b = "sample_broker (\<lambda>i. if i = ''1'' then Stored else Lost ''down'')"
  let ?p = "\<lparr>isProcessing = False, maxRetries = 5\<rparr>"
  let ?rows = "[sample_row ''1'', sample_row ''2'']"
  obtain p' rows' bus' where
    run: "order_processPending sample_env ?b None (\<lambda>_. False) ?p (?rows, []) = (p', rows', bus')"
    by (metis surj_pair)
  have "distinct (map ob_id ?rows)" "delivered_inv (?rows, [])"
    by (simp_all add: sample_row_def delivered_inv_def)
  from order_tick_delivers [OF this run] have "delivered_inv (rows', bus')" by simp
  moreover have "map ob_status rows' = [OutboxStatus_PUBLISHED, OutboxStatus_PENDING]" "length bus' = 1"
    using run
    by (auto simp: processPending_defs sample_defs due_def order_process_record_def publish_record_def
      KafkaProducerService_publish_def markPublished_def scheduleRetry_row_def)
  ultimately show ?thesis using run by (intro exI conjI)
qed

text \<open>
  The retry budget: a tick of either processor keeps every pending row below the configured
  number of retries and every permanently failed row exactly at it, so that no row is ever
  published more often than \<open>maxRetries\<close> times in failing attempts and none is failed early.
\<close>

theorem tick_retry_budget:
  assumes "\<forall>r \<in> set (fst st). retry_inv (maxRetries p) r"
  shows "(\<forall>r \<in> set (fst (snd (order_processPending env b db_fault locked p st))).
            retry_inv (maxRetries p) r) \<and>
         (\<forall>r \<in> set (fst (snd (abstract_processPending env b db_fault locked p st))).
            retry_inv (maxRetries p) r)"
proof -
  let ?batch = "take 10 (sort_key ob_scheduledAt (filter (due (e_now env) locked) (fst st)))"
  have below: "\<forall>r \<in> set ?batch. ob_retryCount r < maxRetries p"
    using assms by (auto simp: retry_inv_def due_def dest!: batch_due)
  show ?thesis
    using assms order_processor.fold_retry [OF assms below] abstract_processor.fold_retry [OF assms below]
    by (auto simp: processPending_defs split: option.splits)
qed

theorem tick_retry_budget_witness:
  "list_all (retry_inv 1) (fst (snd (order_processPending sample_env (sample_broker (\<lambda>_. Lost ''down'')) None
      (\<lambda>_. False) \<lparr>isProcessing = False, maxRetries = 1\<rparr> ([sample_row ''1''], []))))"
  using tick_retry_budget [of "([sample_row ''1''], [])" "\<lparr>isProcessing = False, maxRetries = 1\<rparr>"
      sample_env "sample_broker (\<lambda>_. Lost ''down'')" None "\<lambda>_. False"]
  by (simp add: retry_inv_def sample_row_def list_all_iff)

subsection \<open>The two processors agree\<close>

text \<open>What the two processors may differ in: when a row that is no longer pending was scheduled.\<close>

definition settled :: "outbox_entity \<Rightarrow> outbox_entity" where
  "settled r = (if ob_status r = OutboxStatus_PENDING then r else r\<lparr>ob_scheduledAt := 0\<rparr>)"

definition agree :: "bus_state \<Rightarrow> bus_state \<Rightarrow> bool" where
  "agree st st' \<longleftrightarrow> map settled (fst st) = map settled (fst st') \<and> snd st = snd st'"

lemma settled_cases:
  assumes "settled x = settled y"
  obtains "x = y" "ob_status y = OutboxStatus_PENDING"
  | t where "x = y\<lparr>ob_scheduledAt := t\<rparr>" "ob_status y \<noteq> OutboxStatus_PENDING"
proof (cases "ob_status x = OutboxStatus_PENDING")
  case True
  have "ob_status (settled x) = ob_status (settled y)" using assms by simp
  with True have "ob_status y = OutboxStatus_PENDING" by (auto simp: settled_def split: if_splits)
  with True assms show ?thesis using that by (simp add: settled_def)
next
  case False
  have "ob_status (settled x) = ob_status (settled y)" using assms by simp
  with False have "ob_status y \<noteq> OutboxStatus_PENDING" by (auto simp: settled_def split: if_splits)
  with False assms have "x = y\<lparr>ob_scheduledAt := ob_scheduledAt x\<rparr>"
    by (cases x; cases y) (simp add: settled_def)
  then show ?thesis using \<open>ob_status y \<noteq> OutboxStatus_PENDING\<close> that by blast
qed

lemma settled_due: "settled x = settled y \<Longrightarrow> due now locked x \<longleftrightarrow> due now locked y"
  by (erule settled_cases) (auto simp: due_def)

lemma settled_filter:
  "map settled xs = map settled ys \<Longrightarrow> filter (due now locked) xs = filter (due now locked) ys"
proof (induction xs arbitrary: ys)
  case (Cons x xs)
  then obtain y zs where ys: "ys = y # zs" "settled x = settled y" "map settled xs = map settled zs"
    by (cases ys) auto
  have "due now locked x \<Longrightarrow> x = y"
    using ys(2) by (rule settled_cases) (auto simp: due_def)
  with ys Cons.IH [of zs] settled_due [OF ys(2)] show ?case by auto
qed simp

lemma settled_update:
  assumes "map settled xs = map settled ys"
    and "\<And>x y. settled x = settled y \<Longrightarrow> settled (f x) = settled (g y)"
  shows "map settled (update_where (\<lambda>r. ob_id r = i) f xs) =
    map settled (update_where (\<lambda>r. ob_id r = i) g ys)"
  using assms(1)
proof (induction xs arbitrary: ys)
  case (Cons x xs)
  then obtain y zs where ys: "ys = y # zs" "settled x = settled y" "map settled xs = map settled zs"
    by (cases ys) auto
  have "ob_id (settled x) = ob_id (settled y)" using ys(2) by simp
  then have "ob_id x = ob_id y" by (simp add: settled_def split: if_splits)
  with ys Cons.IH [of zs] assms(2) show ?case by auto
qed simp

lemma process_record_agree:
  assumes "agree st st'"
  shows "agree (order_process_record env b lmt r st) (abstract_process_record env b lmt r st')"
proof -
  have rows: "map settled (fst st) = map settled (fst st')" and bus: "snd st = snd st'"
    using assms by (auto simp: agree_def)
  have pub: "map settled (markPublished (e_now env) (ob_id r) (fst st)) =
      map settled (markPublished (e_now env) (ob_id r) (fst st'))"
    unfolding markPublished_def using rows
    by (rule settled_update) (erule settled_cases, auto simp: settled_def)
  show ?thesis
  proof (cases "publish_record env b r (snd st')")
    case (Pair res bus')
    show ?thesis
    proof (cases res)
      case (Inr u)
      with Pair bus pub show ?thesis
        by (simp add: agree_def order_process_record_def abstract_process_record_def)
    next
      case (Inl e)
      show ?thesis
        unfolding agree_def order_process_record_def abstract_process_record_def bus Pair Inl
          permanentlyFail_def scheduleRetry_row_def
        using rows by (auto simp: Let_def settled_def intro!: settled_update elim!: settled_cases)
    qed
  qed
qed

lemma fold_agree:
  "agree st st' \<Longrightarrow> agree (fold (order_process_record env b lmt) rs st)
     (fold (abstract_process_record env b lmt) rs st')"
  by (induction rs arbitrary: st st') (simp_all add: process_record_agree)

text \<open>
  C14. The order-service's own processor and the processor the other services inherit are the
  same program: from states that agree, a tick under the same clock, broker, database and locks
  publishes the same messages in the same order and leaves rows that agree in every field, except
  that a row that is no longer pending may have been scheduled for a different time, which no
  later tick reads.
\<close>

theorem processors_agree:
  assumes "agree st st'"
  shows "agree (snd (order_processPending env b db_fault locked p st))
           (snd (abstract_processPending env b db_fault locked p st')) \<and>
    fst (order_processPending env b db_fault locked p st) =
      fst (abstract_processPending env b db_fault locked p st')"
proof -
  let ?batch = "\<lambda>rows. take 10 (sort_key ob_scheduledAt (filter (due (e_now env) locked) rows))"
  have "?batch (fst st) = ?batch (fst st')"
    using assms settled_filter by (metis agree_def)
  moreover have "agree (fold (order_process_record env b (maxRetries p)) rs st)
      (fold (abstract_process_record env b (maxRetries p)) rs st')" for rs
    using assms by (rule fold_agree)
  ultimately show ?thesis
    using assms by (auto simp: processPending_defs agree_def split: option.splits)
qed

theorem processors_agree_witness:
  "agree (snd (order_processPending sample_env (sample_broker (\<lambda>_. Lost ''down'')) None (\<lambda>_. False)
        \<lparr>isProcessing = False, maxRetries = 1\<rparr> ([sample_row ''1''], [])))
     (snd (abstract_processPending sample_env (sample_broker (\<lambda>_. Lost ''down'')) None (\<lambda>_. False)
        \<lparr>isProcessing = False, maxRetries = 1\<rparr> ([sample_row ''1''], [])))"
  using processors_agree [of "([sample_row ''1''], [])" "([sample_row ''1''], [])"]
  by (simp add: agree_def)

subsection \<open>The outbox drains\<close>

definition order_ticks ::
  "env \<Rightarrow> broker \<Rightarrow> (string \<Rightarrow> bool) \<Rightarrow> nat \<Rightarrow> processor \<times> bus_state \<Rightarrow> processor \<times> bus_state" where
  "order_ticks env b locked k = ((\<lambda>(p, st). order_processPending env b None locked p st) ^^ k)"

definition published_row :: "env \<Rightarrow> outbox_entity \<Rightarrow> outbox_entity" where
  "published_row env r = r\<lparr>ob_status := OutboxStatus_PUBLISHED, ob_publishedAt := Some (e_now env)\<rparr>"

lemma published_not_due [simp]: "\<not> due now locked (published_row env r)" "ob_id (published_row env r) = ob_id r"
  by (simp_all add: due_def published_row_def)

lemma filter_not_taken: "distinct xs \<Longrightarrow> filter (\<lambda>x. x \<notin> set (take m xs)) xs = drop m xs"
proof (induction xs arbitrary: m)
  case (Cons x xs)
  show ?case
  proof (cases m)
    case (Suc n)
    have "filter (\<lambda>y. y \<noteq> x \<and> y \<notin> set (take n xs)) xs = filter (\<lambda>y. y \<notin> set (take n xs)) xs"
      using Cons.prems by (intro filter_cong) auto
    with Suc Cons show ?thesis by simp
  qed simp
qed simp

text \<open>One tick of a table of which the rows \<open>taken\<close> are published.\<close>

lemma order_tick_healthy:
  assumes line_def: "line = sort_key ob_scheduledAt (filter (due (e_now env) locked) rows)"
    and "\<And>i. b_send b i = Stored" "distinct (map ob_id rows)" "\<not> isProcessing p"
    and "order_processPending env b None locked p
      (map (\<lambda>r. if r \<in> set (take m line) then published_row env r else r) rows, bus) = (p', st')"
  shows "\<not> isProcessing p' \<and> fst st' = map (\<lambda>r. if r \<in> set (take (m + 10) line) then published_row env r else r) rows \<and>
    (\<exists>ext. snd st' = bus @ ext \<and> list_all2 carries (take 10 (drop m line)) ext)"
proof -
  let ?pub = "\<lambda>xs. map (\<lambda>r. if r \<in> set xs then published_row env r else r) rows"
  let ?D = "due (e_now env) locked"
  have dist: "distinct rows" "inj_on ob_id (set rows)" using assms(3) by (auto simp: distinct_map)
  have "filter ?D (?pub (take m line)) = filter (\<lambda>r. r \<notin> set (take m line)) (filter ?D rows)"
    by (induction rows) auto
  also have "sort_key ob_scheduledAt \<dots> = filter (\<lambda>r. r \<notin> set (take m line)) line"
    unfolding line_def by (simp only: filter_sort)
  also have "\<dots> = drop m line" using dist(1) by (intro filter_not_taken) (simp add: line_def)
  finally have batch: "take 10 (sort_key ob_scheduledAt (filter ?D (?pub (take m line)))) = take 10 (drop m line)" by simp
  let ?b = "take 10 (drop m line)"
  have st': "st' = fold (order_process_record env b (maxRetries p)) ?b (?pub (take m line), bus)" "\<not> isProcessing p'"
    using assms(4,5) by (auto simp: processPending_defs batch)
  have "set ?b \<subseteq> set line" using set_take_subset set_drop_subset by fastforce
  then have sub: "set ?b \<subseteq> set rows" by (auto simp: line_def)
  have ids: "ob_id r \<in> ob_id ` set ?b \<longleftrightarrow> r \<in> set ?b" if "r \<in> set rows" for r
    using dist(2) that sub by (rule inj_on_image_mem_iff)
  have "set (take (m + 10) line) = set (take m line) \<union> set ?b" by (simp add: take_add)
  then have "fst st' = ?pub (take (m + 10) line)"
    unfolding st' order_processor.fold_all_stored [OF assms(2)]
    using ids by (auto simp: update_where_def published_row_def)
  with order_processor.fold_all_sent [OF assms(2), of env "maxRetries p" ?b "(?pub (take m line), bus)"] st'
  show ?thesis by simp
qed

text \<open>
  C13. Liveness of the outbox: while the broker stores what it is sent and the database answers,
  each tick publishes ten due rows, those scheduled earliest first (rows scheduled at the same instant in the
  order the table lists them, which stands for the order the database returns them in). After \<open>k\<close> ticks the first \<open>10 * k\<close> due
  rows are marked published and nothing else of the table has changed, and the bus has grown by one message for each of them, in
  that order; so of \<open>n\<close> due rows \<open>n - 10 * k\<close> are left, and no row that was due stays unpublished for ever.
\<close>

theorem order_ticks_drain:
  assumes "\<And>i. b_send b i = Stored" "distinct (map ob_id rows)" "\<not> isProcessing p"
    and "line = sort_key ob_scheduledAt (filter (due (e_now env) locked) rows)"
    and "order_ticks env b locked k (p, rows, bus) = (p', rows', bus')"
  shows "rows' = map (\<lambda>r. if r \<in> set (take (10 * k) line)
      then r\<lparr>ob_status := OutboxStatus_PUBLISHED, ob_publishedAt := Some (e_now env)\<rparr> else r) rows \<and>
    (\<exists>ext. bus' = bus @ ext \<and> list_all2 carries (take (10 * k) line) ext) \<and>
    length (filter (due (e_now env) locked) rows') = length (filter (due (e_now env) locked) rows) - 10 * k"
proof -
  have "\<not> isProcessing p' \<and> rows' = map (\<lambda>r. if r \<in> set (take (10 * k) line) then published_row env r else r) rows \<and>
      (\<exists>ext. bus' = bus @ ext \<and> list_all2 carries (take (10 * k) line) ext)"
    using assms(5)
  proof (induction k arbitrary: p' rows' bus')
    case 0
    with assms(3) show ?case by (simp add: order_ticks_def)
  next
    case (Suc k)
    obtain q qrows qbus where mid: "order_ticks env b locked k (p, rows, bus) = (q, qrows, qbus)"
      by (metis prod_cases3)
    from Suc.IH [OF mid] obtain ext where q: "\<not> isProcessing q" "qbus = bus @ ext" "list_all2 carries (take (10 * k) line) ext"
      "qrows = map (\<lambda>r. if r \<in> set (take (10 * k) line) then published_row env r else r) rows" by blast
    have "order_processPending env b None locked q (qrows, qbus) = (p', rows', bus')"
      using Suc.prems mid by (simp add: order_ticks_def)
    from order_tick_healthy [OF assms(4,1,2) q(1) this [unfolded q(4)]]
    obtain ext' where "\<not> isProcessing p'" "bus' = qbus @ ext'" "list_all2 carries (take 10 (drop (10 * k) line)) ext'"
      "rows' = map (\<lambda>r. if r \<in> set (take (10 * k + 10) line) then published_row env r else r) rows"
      using assms(4) by auto
    moreover have "take (10 * Suc k) line = take (10 * k) line @ take 10 (drop (10 * k) line)"
      by (simp add: take_add [symmetric] add.commute)
    ultimately show ?case using q(2,3) by (auto intro: list_all2_appendI simp: add.commute)
  qed
  note run = this
  have dist: "distinct line" using assms(2,4) by (simp add: distinct_map)
  have "filter (due (e_now env) locked) rows' = filter (\<lambda>r. r \<notin> set (take (10 * k) line)) (filter (due (e_now env) locked) rows)"
    using run by (induction rows arbitrary: rows') auto
  moreover have "filter (\<lambda>r. r \<notin> set (take (10 * k) line)) line
      = sort_key ob_scheduledAt (filter (\<lambda>r. r \<notin> set (take (10 * k) line)) (filter (due (e_now env) locked) rows))"
    by (subst (2) assms(4)) (rule filter_sort)
  ultimately have "length (filter (due (e_now env) locked) rows') = length (filter (\<lambda>r. r \<notin> set (take (10 * k) line)) line)"
    by (simp only: length_sort)
  then have "length (filter (due (e_now env) locked) rows') = length line - 10 * k"
    using filter_not_taken [OF dist] by simp
  with run show ?thesis by (simp add: published_row_def assms(4))
qed

theorem order_ticks_drain_witness:
  "\<exists>p' rows' bus'. order_ticks sample_env (sample_broker (\<lambda>_. Stored)) (\<lambda>_. False) 1
       (\<lparr>isProcessing = False, maxRetries = 5\<rparr>, [sample_row ''1'', sample_row ''2''], []) = (p', rows', bus') \<and>
     map ob_status rows' = [OutboxStatus_PUBLISHED, OutboxStatus_PUBLISHED] \<and>
     list_all2 carries [sample_row ''1'', sample_row ''2''] bus'"
proof -
  let ?rows = "[sample_row ''1'', sample_row ''2'']" and ?p = "\<lparr>isProcessing = False, maxRetries = 5\<rparr>"
  obtain p' rows' bus' where run: "order_ticks sample_env (sample_broker (\<lambda>_. Stored)) (\<lambda>_. False) 1 (?p, ?rows, []) = (p', rows', bus')"
    by (metis prod_cases3)
  have line: "sort_key ob_scheduledAt (filter (due (e_now sample_env) (\<lambda>_. False)) ?rows) = ?rows" by (simp add: sample_defs due_def)
  have pre: "\<And>i. b_send (sample_broker (\<lambda>_. Stored)) i = Stored" "distinct (map ob_id ?rows)" "\<not> isProcessing ?p"
    by (simp_all add: sample_defs)
  from order_ticks_drain [OF pre line [symmetric] run]
  have "list_all2 carries ?rows bus'" "map ob_status rows' = [OutboxStatus_PUBLISHED, OutboxStatus_PUBLISHED]" by auto
  then show ?thesis using run by (intro exI [of _ p'] exI [of _ rows'] exI [of _ bus']) simp
qed

end
