(* ===== verification/OrderDomain.thy ===== *)
theory OrderDomain
  imports Outbox
begin

section \<open>The domain of the order-service\<close>

text \<open>
  \<^verbatim>\<open>services/order-service/src/orders/domain\<close>: the entities \<open>Order\<close>,
  \<open>OrderItem\<close> and \<open>Saga\<close> with their transitions, and the errors these throw.
  Entities are immutable, so a transition returns the next entity or an error; the clock is
  an argument. The lemmas show which transitions are refused, that a saga's status, step and
  retry time always fit together (\<open>saga_wf\<close>), and that a saga moves along
  \<open>RESERVE_STOCK \<rightarrow> PROCESS_PAYMENT \<rightarrow> COMPLETED\<close>, or through \<open>RELEASE_STOCK\<close> to
  \<open>FAILED\<close>, and never leaves a terminal step.
\<close>

subsection \<open>Statuses, steps and errors\<close>

datatype order_status =
  OrderStatus_PENDING | OrderStatus_CONFIRMED | OrderStatus_CANCELLED | OrderStatus_COMPLETED

fun order_status_value :: "order_status \<Rightarrow> string" where
  "order_status_value OrderStatus_PENDING = ''pending''"
| "order_status_value OrderStatus_CONFIRMED = ''confirmed''"
| "order_status_value OrderStatus_CANCELLED = ''cancelled''"
| "order_status_value OrderStatus_COMPLETED = ''completed''"

datatype saga_step_name =
    SagaStep_RESERVE_STOCK | SagaStep_PROCESS_PAYMENT | SagaStep_RELEASE_STOCK
  | SagaStep_COMPLETED | SagaStep_FAILED

datatype saga_status = SagaStatus_RUNNING | SagaStatus_COMPLETED | SagaStatus_FAILED

text \<open>The last constructor is what the database driver throws.\<close>

datatype order_error =
    OrderNotFoundError string
  | InvalidOrderTransitionError order_status order_status
  | InvalidSagaTransitionError saga_step_name
  | QueryFailedError string

subsection \<open>entities/order-item.ts and entities/order.ts\<close>

record order_item =
  it_id :: string
  it_productId :: string
  it_productName :: string
  it_quantity :: int
  it_unitPrice :: number

record order =
  ord_id :: string
  ord_userId :: string
  ord_userEmail :: string
  ord_status :: order_status
  ord_total :: number
  ord_items :: "order_item list"
  ord_createdAt :: date
  ord_updatedAt :: date

definition Order_create :: "date \<Rightarrow> string \<Rightarrow> string \<Rightarrow> command_item list \<Rightarrow> order" where
  "Order_create now userId userEmail items =
     \<lparr>ord_id = '''', ord_userId = userId, ord_userEmail = userEmail,
      ord_status = OrderStatus_PENDING, ord_total = 0,
      ord_items = map (\<lambda>i. \<lparr>it_id = '''', it_productId = ci_productId i, it_productName = '''',
        it_quantity = ci_quantity i, it_unitPrice = 0\<rparr>) items,
      ord_createdAt = now, ord_updatedAt = now\<rparr>"

definition Order_confirm ::
  "date \<Rightarrow> number \<Rightarrow> order_created_event_item list \<Rightarrow> order \<Rightarrow> order_error + order" where
  "Order_confirm now tot itemDetails o' =
     (if ord_status o' \<noteq> OrderStatus_PENDING
      then Inl (InvalidOrderTransitionError (ord_status o') OrderStatus_CONFIRMED)
      else Inr (o'\<lparr>ord_status := OrderStatus_CONFIRMED, ord_total := tot,
        ord_items := map (\<lambda>item.
          case List.find (\<lambda>d. oi_productId d = it_productId item) itemDetails of
            Some detail \<Rightarrow> item\<lparr>it_productName := oi_name detail, it_unitPrice := oi_unitPrice detail\<rparr>
          | None \<Rightarrow> item) (ord_items o'),
        ord_updatedAt := now\<rparr>))"

definition Order_cancel :: "date \<Rightarrow> order \<Rightarrow> order_error + order" where
  "Order_cancel now o' =
     (if ord_status o' = OrderStatus_CONFIRMED \<or> ord_status o' = OrderStatus_COMPLETED
      then Inl (InvalidOrderTransitionError (ord_status o') OrderStatus_CANCELLED)
      else Inr (o'\<lparr>ord_status := OrderStatus_CANCELLED, ord_updatedAt := now\<rparr>))"

definition Order_compensate :: "date \<Rightarrow> order \<Rightarrow> order_error + order" where
  "Order_compensate now o' =
     (if ord_status o' = OrderStatus_COMPLETED \<or> ord_status o' = OrderStatus_CANCELLED
      then Inl (InvalidOrderTransitionError (ord_status o') OrderStatus_CANCELLED)
      else Inr (o'\<lparr>ord_status := OrderStatus_CANCELLED, ord_updatedAt := now\<rparr>))"

subsection \<open>entities/saga.ts\<close>

record saga =
  sg_id :: string
  sg_orderId :: string
  sg_correlationId :: string
  sg_currentStep :: saga_step_name
  sg_status :: saga_status
  sg_retryCount :: nat
  sg_lastError :: "string option"
  sg_nextRetryAt :: "date option"
  sg_createdAt :: date
  sg_updatedAt :: date

definition RETRY_TIMEOUT_MS :: int where
  "RETRY_TIMEOUT_MS = 30000"

definition MAX_RETRIES :: nat where
  "MAX_RETRIES = 3"

fun ADVANCE_MAP :: "saga_step_name \<Rightarrow> saga_step_name option" where
  "ADVANCE_MAP SagaStep_RESERVE_STOCK = Some SagaStep_PROCESS_PAYMENT"
| "ADVANCE_MAP SagaStep_PROCESS_PAYMENT = Some SagaStep_COMPLETED"
| "ADVANCE_MAP _ = None"

definition Saga_create :: "date \<Rightarrow> string \<Rightarrow> string \<Rightarrow> saga" where
  "Saga_create now orderId' correlationId' =
     \<lparr>sg_id = '''', sg_orderId = orderId', sg_correlationId = correlationId',
      sg_currentStep = SagaStep_RESERVE_STOCK, sg_status = SagaStatus_RUNNING,
      sg_retryCount = 0, sg_lastError = None,
      sg_nextRetryAt = Some (now + RETRY_TIMEOUT_MS), sg_createdAt = now, sg_updatedAt = now\<rparr>"

definition Saga_canHandle :: "saga_step_name \<Rightarrow> saga \<Rightarrow> bool" where
  "Saga_canHandle stp g \<longleftrightarrow> sg_status g = SagaStatus_RUNNING \<and> sg_currentStep g = stp"

definition Saga_advance :: "date \<Rightarrow> saga \<Rightarrow> order_error + saga" where
  "Saga_advance now g =
     (case ADVANCE_MAP (sg_currentStep g) of
        None \<Rightarrow> Inl (InvalidSagaTransitionError (sg_currentStep g))
      | Some next' \<Rightarrow>
          let isCompleted = (next' = SagaStep_COMPLETED)
          in Inr (g\<lparr>sg_currentStep := next',
               sg_status := (if isCompleted then SagaStatus_COMPLETED else SagaStatus_RUNNING),
               sg_nextRetryAt := (if isCompleted then None else Some (now + RETRY_TIMEOUT_MS)),
               sg_updatedAt := now\<rparr>))"

definition Saga_startCompensation :: "date \<Rightarrow> string \<Rightarrow> saga \<Rightarrow> saga" where
  "Saga_startCompensation now reason g =
     g\<lparr>sg_currentStep := SagaStep_RELEASE_STOCK, sg_status := SagaStatus_RUNNING,
       sg_lastError := Some reason, sg_nextRetryAt := Some (now + RETRY_TIMEOUT_MS),
       sg_updatedAt := now\<rparr>"

definition Saga_fail :: "date \<Rightarrow> string \<Rightarrow> saga \<Rightarrow> saga" where
  "Saga_fail now reason g =
     g\<lparr>sg_currentStep := SagaStep_FAILED, sg_status := SagaStatus_FAILED,
       sg_lastError := Some reason, sg_nextRetryAt := None, sg_updatedAt := now\<rparr>"

definition Saga_scheduleRetry :: "date \<Rightarrow> saga \<Rightarrow> saga" where
  "Saga_scheduleRetry now g =
     (let nextCount = sg_retryCount g + 1
      in g\<lparr>sg_retryCount := nextCount,
           sg_nextRetryAt := Some (now + RETRY_TIMEOUT_MS * 2 ^ nextCount), sg_updatedAt := now\<rparr>)"

definition Saga_hasExceededMaxRetries :: "saga \<Rightarrow> bool" where
  "Saga_hasExceededMaxRetries g \<longleftrightarrow> sg_retryCount g \<ge> MAX_RETRIES"

lemmas saga_ops [handler_defs] = Saga_create_def Saga_advance_def Saga_startCompensation_def
  Saga_fail_def Saga_scheduleRetry_def Let_def

subsection \<open>What the transitions keep\<close>

text \<open>The fields no transition of a saga changes.\<close>

definition saga_ident :: "saga \<Rightarrow> string \<times> string \<times> string \<times> date" where
  "saga_ident g = (sg_id g, sg_orderId g, sg_correlationId g, sg_createdAt g)"

definition saga_wf :: "saga \<Rightarrow> bool" where
  "saga_wf g \<longleftrightarrow>
     (sg_status g = SagaStatus_RUNNING \<longleftrightarrow>
        sg_currentStep g \<in> {SagaStep_RESERVE_STOCK, SagaStep_PROCESS_PAYMENT, SagaStep_RELEASE_STOCK}) \<and>
     (sg_status g = SagaStatus_COMPLETED \<longleftrightarrow> sg_currentStep g = SagaStep_COMPLETED) \<and>
     (sg_status g = SagaStatus_FAILED \<longleftrightarrow> sg_currentStep g = SagaStep_FAILED) \<and>
     (sg_nextRetryAt g = None \<longleftrightarrow> sg_status g \<noteq> SagaStatus_RUNNING) \<and>
     (sg_currentStep g \<in> {SagaStep_RELEASE_STOCK, SagaStep_FAILED} \<longrightarrow> sg_lastError g \<noteq> None) \<and>
     sg_retryCount g \<le> MAX_RETRIES"

text \<open>
  The moves of one saga, with the guard under which the orchestrator makes them: a reply
  advances it, a failed payment starts the compensation, a refused reservation, a released
  stock or an exhausted retry budget fails it, and the retry timer counts.
\<close>

inductive saga_move :: "saga \<Rightarrow> saga \<Rightarrow> bool" where
  move_advance: "sg_status g = SagaStatus_RUNNING \<Longrightarrow> Saga_advance now g = Inr g' \<Longrightarrow> saga_move g g'"
| move_compensate: "Saga_canHandle SagaStep_PROCESS_PAYMENT g \<Longrightarrow>
    saga_move g (Saga_startCompensation now reason g)"
| move_fail: "sg_status g = SagaStatus_RUNNING \<Longrightarrow> saga_move g (Saga_fail now reason g)"
| move_retry: "sg_status g = SagaStatus_RUNNING \<Longrightarrow> \<not> Saga_hasExceededMaxRetries g \<Longrightarrow>
    saga_move g (Saga_scheduleRetry now g)"

inductive_cases saga_moveE: "saga_move g g'"

definition saga_initial :: "saga \<Rightarrow> bool" where
  "saga_initial g \<longleftrightarrow> (\<exists>now i o' c. g = (Saga_create now o' c)\<lparr>sg_id := i\<rparr>)"

text \<open>How far a saga has come; a move never goes back.\<close>

fun step_rank :: "saga_step_name \<Rightarrow> nat" where
  "step_rank SagaStep_RESERVE_STOCK = 0"
| "step_rank SagaStep_PROCESS_PAYMENT = 1"
| "step_rank SagaStep_RELEASE_STOCK = 2"
| "step_rank SagaStep_COMPLETED = 3"
| "step_rank SagaStep_FAILED = 3"

lemma ADVANCE_MAP_Some:
  "ADVANCE_MAP s = Some t \<longleftrightarrow>
     s = SagaStep_RESERVE_STOCK \<and> t = SagaStep_PROCESS_PAYMENT \<or>
     s = SagaStep_PROCESS_PAYMENT \<and> t = SagaStep_COMPLETED"
  by (cases s) auto

lemma Saga_advance_Inr:
  "Saga_advance now g = Inr g' \<longleftrightarrow>
     sg_currentStep g = SagaStep_RESERVE_STOCK \<and>
       g' = g\<lparr>sg_currentStep := SagaStep_PROCESS_PAYMENT, sg_status := SagaStatus_RUNNING,
          sg_nextRetryAt := Some (now + RETRY_TIMEOUT_MS), sg_updatedAt := now\<rparr> \<or>
     sg_currentStep g = SagaStep_PROCESS_PAYMENT \<and>
       g' = g\<lparr>sg_currentStep := SagaStep_COMPLETED, sg_status := SagaStatus_COMPLETED,
          sg_nextRetryAt := None, sg_updatedAt := now\<rparr>"
  by (cases "sg_currentStep g") (auto simp: Saga_advance_def)

lemma saga_create_wf: "saga_wf ((Saga_create now o' c)\<lparr>sg_id := i\<rparr>)"
  by (simp add: saga_wf_def Saga_create_def)

lemma saga_move_wf: "saga_move g g' \<Longrightarrow> saga_wf g \<Longrightarrow> saga_wf g'"
  by (erule saga_moveE)
    (auto simp: Saga_advance_Inr Saga_startCompensation_def Saga_fail_def Saga_scheduleRetry_def
      Saga_canHandle_def Saga_hasExceededMaxRetries_def saga_wf_def Let_def)

lemma saga_move_ident: "saga_move g g' \<Longrightarrow> saga_ident g' = saga_ident g"
  by (erule saga_moveE)
    (auto simp: Saga_advance_Inr Saga_startCompensation_def Saga_fail_def Saga_scheduleRetry_def
      saga_ident_def Let_def)

lemma saga_move_running: "saga_move g g' \<Longrightarrow> sg_status g = SagaStatus_RUNNING"
  by (erule saga_moveE) (auto simp: Saga_canHandle_def)

lemma saga_move_rank:
  "saga_move g g' \<Longrightarrow> saga_wf g \<Longrightarrow>
     4 * step_rank (sg_currentStep g) + sg_retryCount g < 4 * step_rank (sg_currentStep g') + sg_retryCount g'"
  by (erule saga_moveE)
    (auto simp: Saga_advance_Inr Saga_startCompensation_def Saga_fail_def Saga_scheduleRetry_def
      Saga_canHandle_def saga_wf_def Let_def)

interpretation saga_machine: transition_system saga_move saga_initial saga_wf
  by unfold_locales (auto simp: saga_initial_def saga_create_wf saga_move_wf)

subsection \<open>Properties of the entities\<close>

text \<open>
  Every saga that the moves of the orchestrator reach from its creation is well-formed: its
  status is determined by its step, it has a retry time exactly while it runs, a saga that is
  compensating or has failed knows the reason, and its retry counter is at most the maximum.
  It keeps its id, order and correlation id. Each move uses up part of a fixed budget, so a saga
  makes at most fifteen moves, timer included, and a saga that is not running makes none.
\<close>

theorem saga_reachable_wf:
  assumes "saga_initial g" "run saga_move g g'"
  shows "saga_wf g' \<and> saga_ident g' = saga_ident g \<and>
    4 * step_rank (sg_currentStep g') + sg_retryCount g' \<le> 15 \<and>
    (\<forall>h. saga_move g' h \<longrightarrow> sg_status g' = SagaStatus_RUNNING \<and>
       4 * step_rank (sg_currentStep g') + sg_retryCount g' <
       4 * step_rank (sg_currentStep h) + sg_retryCount h)"
proof -
  have wf: "saga_wf g'" using assms by (rule saga_machine.reachable_inv)
  have "saga_wf g" using assms(1) by (rule saga_machine.initial_inv)
  then have ident: "saga_ident g' = saga_ident g"
    by (rule saga_machine.run_keeps_rel [OF assms(2), of "\<lambda>u v. saga_ident v = saga_ident u"])
      (auto dest: saga_move_ident)
  have "step_rank (sg_currentStep g') \<le> 3" by (cases "sg_currentStep g'") auto
  moreover have "sg_retryCount g' \<le> 3" using wf by (simp add: saga_wf_def MAX_RETRIES_def)
  ultimately show ?thesis
    using wf ident saga_move_running saga_move_rank by (auto simp del: step_rank.simps)
qed

theorem saga_reachable_wf_witness:
  "saga_wf (Saga_scheduleRetry 7 ((Saga_create 5 ''o'' ''c'')\<lparr>sg_id := ''s''\<rparr>))"
proof -
  let ?g = "(Saga_create 5 ''o'' ''c'')\<lparr>sg_id := ''s''\<rparr>"
  have "saga_initial ?g" unfolding saga_initial_def by (intro exI) (rule refl)
  moreover have "run saga_move ?g (Saga_scheduleRetry 7 ?g)"
    by (rule run_step [OF run_refl], rule move_retry)
      (simp_all add: Saga_create_def Saga_hasExceededMaxRetries_def MAX_RETRIES_def)
  ultimately show ?thesis using saga_reachable_wf by blast
qed

text \<open>
  The transitions of an order: \<open>confirm\<close> succeeds exactly on pending orders and then
  keeps the order's identity, its items' products and quantities, and stores the total it is
  given; \<open>cancel\<close> succeeds exactly on pending or cancelled orders; \<open>compensate\<close> exactly
  on pending or confirmed ones. What is refused is refused with the two statuses involved.
\<close>

theorem order_transitions:
  "(case Order_confirm now tot det o' of
      Inr c \<Rightarrow> ord_status o' = OrderStatus_PENDING \<and> ord_status c = OrderStatus_CONFIRMED \<and>
        ord_total c = tot \<and> ord_id c = ord_id o' \<and> ord_userId c = ord_userId o' \<and>
        map it_id (ord_items c) = map it_id (ord_items o') \<and>
        map it_productId (ord_items c) = map it_productId (ord_items o') \<and>
        map it_quantity (ord_items c) = map it_quantity (ord_items o')
    | Inl e \<Rightarrow> ord_status o' \<noteq> OrderStatus_PENDING \<and>
        e = InvalidOrderTransitionError (ord_status o') OrderStatus_CONFIRMED) \<and>
   (case Order_cancel now o' of
      Inr c \<Rightarrow> ord_status o' \<in> {OrderStatus_PENDING, OrderStatus_CANCELLED} \<and>
        c = o'\<lparr>ord_status := OrderStatus_CANCELLED, ord_updatedAt := now\<rparr>
    | Inl e \<Rightarrow> ord_status o' \<in> {OrderStatus_CONFIRMED, OrderStatus_COMPLETED} \<and>
        e = InvalidOrderTransitionError (ord_status o') OrderStatus_CANCELLED) \<and>
   (case Order_compensate now o' of
      Inr c \<Rightarrow> ord_status o' \<in> {OrderStatus_PENDING, OrderStatus_CONFIRMED} \<and>
        c = o'\<lparr>ord_status := OrderStatus_CANCELLED, ord_updatedAt := now\<rparr>
    | Inl e \<Rightarrow> ord_status o' \<in> {OrderStatus_CANCELLED, OrderStatus_COMPLETED} \<and>
        e = InvalidOrderTransitionError (ord_status o') OrderStatus_CANCELLED)"
  by (cases "ord_status o'")
    (auto simp: Order_confirm_def Order_cancel_def Order_compensate_def comp_def split: option.splits)

end
