(* ===== verification/OrderPersistence.thy ===== *)
theory OrderPersistence
  imports OrderDomain
begin

section \<open>The persistence of the order-service\<close>

text \<open>
  \<^verbatim>\<open>services/order-service/src/orders/infrastructure/persistence\<close>: the ORM entities, the
  two mappers and the TypeORM repositories of orders and sagas. The tables are the lists of
  \<open>order_db\<close>, which extends the outbox; the items of an order are kept inside its row, as
  the eager relation returns them, in the order of the table. A record whose name ends in
  \<open>_insert\<close> is an entity before it is saved: it lacks what the database fills in. Decimal
  columns round what they store and refuse what does not fit, integer columns refuse what is
  not a 32-bit value, and the unique column \<^verbatim>\<open>saga_states.orderId\<close> refuses duplicates;
  a refusal is a \<open>QueryFailedError\<close>. \<open>locked\<close> are the rows that
  \<^verbatim>\<open>SKIP LOCKED\<close> skips, and \<open>scan\<close> is the order in which the database returns rows
  that no \<^verbatim>\<open>ORDER BY\<close> sorts.

  The locales state the contracts of the domain's repository interfaces; the
  interpretations show that the TypeORM repositories keep them.
\<close>

subsection \<open>ORM entities\<close>

record order_item_orm =
  oie_id :: string
  oie_orderId :: string
  oie_productId :: string
  oie_productName :: string
  oie_quantity :: int
  oie_unitPrice :: rat

record order_orm =
  oe_id :: string
  oe_userId :: string
  oe_userEmail :: string
  oe_status :: order_status
  oe_total :: rat
  oe_items :: "order_item_orm list"
  oe_createdAt :: date
  oe_updatedAt :: date

record saga_state_orm =
  se_id :: string
  se_orderId :: string
  se_currentStep :: saga_step_name
  se_status :: saga_status
  se_retryCount :: nat
  se_correlationId :: "string option"
  se_lastError :: "string option"
  se_nextRetryAt :: "date option"
  se_createdAt :: date
  se_updatedAt :: date

record order_item_insert =
  oin_id :: "string option"
  oin_productId :: string
  oin_productName :: string
  oin_quantity :: int
  oin_unitPrice :: number

record order_insert =
  on_userId :: string
  on_userEmail :: string
  on_status :: order_status
  on_total :: number
  on_items :: "order_item_insert list"

record saga_insert =
  sn_orderId :: string
  sn_correlationId :: "string option"
  sn_currentStep :: saga_step_name
  sn_status :: saga_status
  sn_retryCount :: nat
  sn_lastError :: "string option"
  sn_nextRetryAt :: "date option"

record order_db = outbox_db +
  orders :: "order_orm list"
  saga_states :: "saga_state_orm list"

subsection \<open>order.mapper.ts and saga.mapper.ts\<close>

definition OrderMapper_toDomain :: "order_orm \<Rightarrow> order" where
  "OrderMapper_toDomain orm =
     \<lparr>ord_id = oe_id orm, ord_userId = oe_userId orm, ord_userEmail = oe_userEmail orm,
      ord_status = oe_status orm, ord_total = fl (oe_total orm),
      ord_items = map (\<lambda>i. \<lparr>it_id = oie_id i, it_productId = oie_productId i,
        it_productName = oie_productName i, it_quantity = oie_quantity i,
        it_unitPrice = fl (oie_unitPrice i)\<rparr>) (oe_items orm),
      ord_createdAt = oe_createdAt orm, ord_updatedAt = oe_updatedAt orm\<rparr>"

definition OrderMapper_toOrm :: "order \<Rightarrow> order_insert" where
  "OrderMapper_toOrm data =
     \<lparr>on_userId = ord_userId data, on_userEmail = ord_userEmail data,
      on_status = ord_status data, on_total = ord_total data,
      on_items = map (\<lambda>item. \<lparr>oin_id = (if it_id item = '''' then None else Some (it_id item)),
        oin_productId = it_productId item, oin_productName = it_productName item,
        oin_quantity = it_quantity item, oin_unitPrice = it_unitPrice item\<rparr>) (ord_items data)\<rparr>"

definition SagaMapper_toDomain :: "saga_state_orm \<Rightarrow> saga" where
  "SagaMapper_toDomain orm =
     \<lparr>sg_id = se_id orm, sg_orderId = se_orderId orm,
      sg_correlationId = (case se_correlationId orm of Some c \<Rightarrow> c | None \<Rightarrow> ''''),
      sg_currentStep = se_currentStep orm, sg_status = se_status orm,
      sg_retryCount = se_retryCount orm, sg_lastError = se_lastError orm,
      sg_nextRetryAt = se_nextRetryAt orm, sg_createdAt = se_createdAt orm,
      sg_updatedAt = se_updatedAt orm\<rparr>"

definition SagaMapper_toOrm :: "saga \<Rightarrow> saga_insert" where
  "SagaMapper_toOrm data =
     \<lparr>sn_orderId = sg_orderId data, sn_correlationId = Some (sg_correlationId data),
      sn_currentStep = sg_currentStep data, sn_status = sg_status data,
      sn_retryCount = sg_retryCount data, sn_lastError = sg_lastError data,
      sn_nextRetryAt = sg_nextRetryAt data\<rparr>"

subsection \<open>typeorm-order.repository.ts\<close>

definition TypeOrmOrderRepository_findById :: "string \<Rightarrow> order_db \<Rightarrow> order option" where
  "TypeOrmOrderRepository_findById i s = map_option OrderMapper_toDomain (row_of oe_id i (orders s))"

text \<open>
  The query orders by \<^verbatim>\<open>createdAt\<close> only, so the database may return rows of the same instant
  in any order: \<open>scan\<close> is the order in which it comes upon the rows in this query.
\<close>

definition TypeOrmOrderRepository_findByUser ::
  "(order_orm list \<Rightarrow> order_orm list) \<Rightarrow> string \<Rightarrow> int \<Rightarrow> int \<Rightarrow> order_db \<Rightarrow> order list \<times> int" where
  "TypeOrmOrderRepository_findByUser scan userId page limit s =
     (let found = sort_key (\<lambda>r. - oe_createdAt r) (scan (filter (\<lambda>r. oe_userId r = userId) (orders s)))
      in (map OrderMapper_toDomain (take (nat limit) (drop (nat ((page - 1) * limit)) found)),
          int (length found)))"

text \<open>
  \<^verbatim>\<open>repo.save\<close> of a new entity inserts it and, by the cascade, its items. It fills the
  generated columns of the entity and returns it, so the numbers of the returned entity are
  the ones that were given, and the numbers of the row are the rounded ones.
\<close>

fun insert_items :: "env \<Rightarrow> nat \<Rightarrow> string \<Rightarrow> order_item_insert list \<Rightarrow> order_item_orm list" where
  "insert_items env n orderId' [] = []"
| "insert_items env n orderId' (i # is) =
     \<lparr>oie_id = (case oin_id i of Some k \<Rightarrow> k | None \<Rightarrow> e_uuid env n), oie_orderId = orderId',
      oie_productId = oin_productId i, oie_productName = oin_productName i,
      oie_quantity = oin_quantity i, oie_unitPrice = oin_unitPrice i\<rparr>
     # insert_items env (Suc n) orderId' is"

definition store_item :: "order_item_orm \<Rightarrow> order_item_orm" where
  "store_item i = i\<lparr>oie_unitPrice := dec2 (oie_unitPrice i)\<rparr>"

definition store_order :: "order_orm \<Rightarrow> order_orm" where
  "store_order r = r\<lparr>oe_total := dec2 (oe_total r), oe_items := map store_item (oe_items r)\<rparr>"

definition TypeOrmOrderRepository_save :: "env \<Rightarrow> order \<Rightarrow> (order_db, order_error, order) tx" where
  "TypeOrmOrderRepository_save env data s =
     (let ins = OrderMapper_toOrm data;
          n = seq s;
          saved = \<lparr>oe_id = e_uuid env n, oe_userId = on_userId ins, oe_userEmail = on_userEmail ins,
            oe_status = on_status ins, oe_total = on_total ins,
            oe_items = insert_items env (Suc n) (e_uuid env n) (on_items ins),
            oe_createdAt = e_now env, oe_updatedAt = e_now env\<rparr>
      in if \<not> fits_decimal 10 (on_total ins) \<or>
            (\<exists>i \<in> set (on_items ins). \<not> fits_int4 (oin_quantity i) \<or> \<not> fits_decimal 10 (oin_unitPrice i))
         then (Inl (QueryFailedError ''numeric field overflow''), s)
         else (Inr (OrderMapper_toDomain saved),
               s\<lparr>orders := orders s @ [store_order saved],
                 seq := Suc n + length (on_items ins)\<rparr>))"

definition update_item :: "order_item \<Rightarrow> order_orm \<Rightarrow> order_orm" where
  "update_item item r =
     r\<lparr>oe_items := update_where (\<lambda>x. oie_id x = it_id item)
         (\<lambda>x. x\<lparr>oie_productName := it_productName item, oie_unitPrice := dec2 (it_unitPrice item)\<rparr>)
         (oe_items r)\<rparr>"

fun update_items :: "order_item list \<Rightarrow> (order_db, order_error, unit) tx" where
  "update_items [] s = (Inr (), s)"
| "update_items (item # is) s =
     (if it_id item = '''' then update_items is s
      else if \<not> fits_decimal 10 (it_unitPrice item)
      then (Inl (QueryFailedError ''numeric field overflow''), s)
      else update_items is (s\<lparr>orders := map (update_item item) (orders s)\<rparr>))"

definition TypeOrmOrderRepository_update :: "env \<Rightarrow> order \<Rightarrow> (order_db, order_error, order) tx" where
  "TypeOrmOrderRepository_update env o' s =
     (if \<not> fits_decimal 10 (ord_total o')
      then (Inl (QueryFailedError ''numeric field overflow''), s)
      else tx_bind (update_items (ord_items o')) (\<lambda>_. ret o')
        (s\<lparr>orders := update_where (\<lambda>r. oe_id r = ord_id o')
            (\<lambda>r. r\<lparr>oe_status := ord_status o', oe_total := dec2 (ord_total o'),
               oe_updatedAt := e_now env\<rparr>) (orders s)\<rparr>))"

subsection \<open>typeorm-saga.repository.ts\<close>

definition TypeOrmSagaRepository_findByOrderIdWithLock :: "string \<Rightarrow> order_db \<Rightarrow> saga option" where
  "TypeOrmSagaRepository_findByOrderIdWithLock orderId' s =
     map_option SagaMapper_toDomain (row_of se_orderId orderId' (saga_states s))"

definition TypeOrmSagaRepository_findByIdSkipLocked ::
  "(string \<Rightarrow> bool) \<Rightarrow> string \<Rightarrow> order_db \<Rightarrow> saga option" where
  "TypeOrmSagaRepository_findByIdSkipLocked locked i s =
     map_option SagaMapper_toDomain
       (List.find (\<lambda>r. se_id r = i \<and> se_status r = SagaStatus_RUNNING \<and> \<not> locked (se_id r))
         (saga_states s))"

definition TypeOrmSagaRepository_findStuck ::
  "date \<Rightarrow> (saga_state_orm list \<Rightarrow> saga_state_orm list) \<Rightarrow> nat \<Rightarrow> order_db \<Rightarrow> saga list" where
  "TypeOrmSagaRepository_findStuck now scan limit s =
     map SagaMapper_toDomain (take limit (scan (filter (\<lambda>r. se_status r = SagaStatus_RUNNING \<and>
       (case se_nextRetryAt r of Some t \<Rightarrow> t \<le> now | None \<Rightarrow> False)) (saga_states s))))"

definition TypeOrmSagaRepository_save :: "env \<Rightarrow> saga \<Rightarrow> (order_db, order_error, saga) tx" where
  "TypeOrmSagaRepository_save env data s =
     (let ins = SagaMapper_toOrm data;
          saved = \<lparr>se_id = e_uuid env (seq s), se_orderId = sn_orderId ins,
            se_currentStep = sn_currentStep ins, se_status = sn_status ins,
            se_retryCount = sn_retryCount ins, se_correlationId = sn_correlationId ins,
            se_lastError = sn_lastError ins, se_nextRetryAt = sn_nextRetryAt ins,
            se_createdAt = e_now env, se_updatedAt = e_now env\<rparr>
      in if row_of se_orderId (sn_orderId ins) (saga_states s) \<noteq> None
         then (Inl (QueryFailedError ''duplicate key value violates unique constraint''), s)
         else (Inr (SagaMapper_toDomain saved),
               s\<lparr>saga_states := saga_states s @ [saved], seq := Suc (seq s)\<rparr>))"

definition TypeOrmSagaRepository_update :: "env \<Rightarrow> saga \<Rightarrow> (order_db, order_error, saga) tx" where
  "TypeOrmSagaRepository_update env g s =
     (Inr g, s\<lparr>saga_states := update_where (\<lambda>r. se_id r = sg_id g)
        (\<lambda>r. r\<lparr>se_currentStep := sg_currentStep g, se_status := sg_status g,
           se_retryCount := sg_retryCount g, se_lastError := sg_lastError g,
           se_nextRetryAt := sg_nextRetryAt g, se_updatedAt := e_now env\<rparr>) (saga_states s)\<rparr>)"

subsection \<open>The contract of the order repository\<close>

text \<open>What no update of an order changes.\<close>

definition order_core ::
  "order \<Rightarrow> string \<times> string \<times> string \<times> (string \<times> string \<times> int) list \<times> date" where
  "order_core o' = (ord_id o', ord_userId o', ord_userEmail o',
     map (\<lambda>i. (it_id i, it_productId i, it_quantity i)) (ord_items o'), ord_createdAt o')"

locale order_repository =
  fixes find_order :: "string \<Rightarrow> 's \<Rightarrow> order option"
    and update_order :: "env \<Rightarrow> order \<Rightarrow> ('s, order_error, order) tx"
  assumes find_order_id: "find_order k s = Some o' \<Longrightarrow> ord_id o' = k"
    and update_core:
      "update_order env o' s = (Inr x, s') \<Longrightarrow>
        map_option order_core (find_order k s') = map_option order_core (find_order k s)"
    and update_status:
      "update_order env o' s = (Inr x, s') \<Longrightarrow>
        map_option ord_status (find_order k s') =
          (if k = ord_id o' then map_option (\<lambda>_. ord_status o') (find_order k s)
           else map_option ord_status (find_order k s))"
    and update_total:
      "update_order env o' s = (Inr x, s') \<Longrightarrow>
        map_option ord_total (find_order k s') =
          (if k = ord_id o' then map_option (\<lambda>_. fl (dec2 (ord_total o'))) (find_order k s)
           else map_option ord_total (find_order k s))"
    and update_fits: "update_order env o' s = (Inr x, s') \<Longrightarrow> fits_decimal 10 (ord_total o')"
begin

lemma update_order_found:
  assumes "update_order env o' s = (Inr x, s')" "find_order k s = Some a"
  obtains b where "find_order k s' = Some b" "order_core b = order_core a"
    "ord_status b = (if k = ord_id o' then ord_status o' else ord_status a)"
    "ord_total b = (if k = ord_id o' then fl (dec2 (ord_total o')) else ord_total a)"
proof -
  have c: "map_option order_core (find_order k s') = Some (order_core a)"
    using update_core [OF assms(1)] assms(2) by simp
  then obtain b where b: "find_order k s' = Some b" by (cases "find_order k s'") auto
  with c update_status [OF assms(1), of k] update_total [OF assms(1), of k] assms(2) show ?thesis
    by (intro that [of b]) (auto split: if_splits)
qed

lemma update_order_none:
  "update_order env o' s = (Inr x, s') \<Longrightarrow> find_order k s' = None \<longleftrightarrow> find_order k s = None"
  using update_core [of env o' s x s' k] by (auto simp: map_option_is_None [symmetric])

end

definition oe_core :: "order_orm \<Rightarrow>
    (string \<times> string \<times> string \<times> (string \<times> string \<times> int) list \<times> date) \<times> order_status \<times> rat" where
  "oe_core r = (order_core (OrderMapper_toDomain r), oe_status r, oe_total r)"

lemma order_core_toDomain:
  "order_core (OrderMapper_toDomain r) = (oe_id r, oe_userId r, oe_userEmail r,
     map (\<lambda>i. (oie_id i, oie_productId i, oie_quantity i)) (oe_items r), oe_createdAt r)"
  by (simp add: order_core_def OrderMapper_toDomain_def comp_def)

lemma update_item_core: "oe_core (update_item item r) = oe_core r"
  by (simp add: oe_core_def order_core_toDomain update_item_def map_update_where)

lemma update_items_frame:
  "update_items is s = (res, s') \<Longrightarrow>
     map oe_core (orders s') = map oe_core (orders s) \<and> saga_states s' = saga_states s \<and>
     outbox s' = outbox s \<and> seq s' = seq s"
proof (induction "is" arbitrary: s)
  case (Cons item "is")
  have "map oe_core (map (update_item item) (orders s)) = map oe_core (orders s)"
    by (simp add: update_item_core)
  with Cons show ?case
    by (auto split: if_splits simp del: map_map)
qed simp

lemma order_update_frame:
  assumes "TypeOrmOrderRepository_update env o' s = (Inr x, s')"
  shows "map oe_core (orders s') = map oe_core (update_where (\<lambda>r. oe_id r = ord_id o')
      (\<lambda>r. r\<lparr>oe_status := ord_status o', oe_total := dec2 (ord_total o'), oe_updatedAt := e_now env\<rparr>)
      (orders s))"
    and "saga_states s' = saga_states s" "outbox s' = outbox s" "seq s' = seq s" "x = o'"
    and "fits_decimal 10 (ord_total o')"
proof -
  from assms obtain u where "update_items (ord_items o') (s\<lparr>orders := update_where (\<lambda>r. oe_id r = ord_id o')
      (\<lambda>r. r\<lparr>oe_status := ord_status o', oe_total := dec2 (ord_total o'), oe_updatedAt := e_now env\<rparr>)
      (orders s)\<rparr>) = (Inr u, s')" and fits: "fits_decimal 10 (ord_total o')" and "x = o'"
    by (auto simp: TypeOrmOrderRepository_update_def tx_bind_def ret_def
        split: if_splits prod.splits sum.splits)
  from update_items_frame [OF this(1)] fits \<open>x = o'\<close>
  show "map oe_core (orders s') = map oe_core (update_where (\<lambda>r. oe_id r = ord_id o')
      (\<lambda>r. r\<lparr>oe_status := ord_status o', oe_total := dec2 (ord_total o'), oe_updatedAt := e_now env\<rparr>)
      (orders s))"
    and "saga_states s' = saga_states s" "outbox s' = outbox s" "seq s' = seq s" "x = o'"
    and "fits_decimal 10 (ord_total o')" by simp_all
qed

lemma order_update_row:
  assumes "TypeOrmOrderRepository_update env o' s = (Inr x, s')"
  shows "map_option oe_core (row_of oe_id k (orders s')) =
    map_option (\<lambda>r. (order_core (OrderMapper_toDomain r),
        if k = ord_id o' then ord_status o' else oe_status r,
        if k = ord_id o' then dec2 (ord_total o') else oe_total r)) (row_of oe_id k (orders s))"
proof -
  have "map_option oe_core (row_of oe_id k (orders s')) = map_option oe_core (row_of oe_id k
      (update_where (\<lambda>r. oe_id r = ord_id o')
        (\<lambda>r. r\<lparr>oe_status := ord_status o', oe_total := dec2 (ord_total o'), oe_updatedAt := e_now env\<rparr>)
        (orders s)))"
    by (rule row_of_map_cong [OF order_update_frame(1) [OF assms]])
      (simp add: oe_core_def order_core_toDomain)
  then show ?thesis
    by (cases "row_of oe_id k (orders s)")
      (auto simp: row_of_update_key oe_core_def order_core_toDomain)
qed

interpretation order_repo: order_repository TypeOrmOrderRepository_findById TypeOrmOrderRepository_update
proof unfold_locales
  fix k o' and s :: order_db
  assume "TypeOrmOrderRepository_findById k s = Some o'"
  then show "ord_id o' = k"
    by (auto simp: TypeOrmOrderRepository_findById_def OrderMapper_toDomain_def dest: row_of_key)
next
  fix env o' x k and s s' :: order_db
  assume u: "TypeOrmOrderRepository_update env o' s = (Inr x, s')"
  show "map_option order_core (TypeOrmOrderRepository_findById k s') =
      map_option order_core (TypeOrmOrderRepository_findById k s)"
    using arg_cong [OF order_update_row [OF u, of k], of "map_option fst"]
    by (simp add: TypeOrmOrderRepository_findById_def oe_core_def option.map_comp comp_def)
  have "oe_status r = ord_status (OrderMapper_toDomain r)" for r
    by (simp add: OrderMapper_toDomain_def)
  then show "map_option ord_status (TypeOrmOrderRepository_findById k s') =
          (if k = ord_id o' then map_option (\<lambda>_. ord_status o') (TypeOrmOrderRepository_findById k s)
           else map_option ord_status (TypeOrmOrderRepository_findById k s))"
    using arg_cong [OF order_update_row [OF u, of k], of "map_option (fst \<circ> snd)"]
    by (simp add: TypeOrmOrderRepository_findById_def oe_core_def option.map_comp comp_def)
  have "fl (oe_total r) = ord_total (OrderMapper_toDomain r)" for r
    by (simp add: OrderMapper_toDomain_def)
  then show "map_option ord_total (TypeOrmOrderRepository_findById k s') =
          (if k = ord_id o' then map_option (\<lambda>_. fl (dec2 (ord_total o'))) (TypeOrmOrderRepository_findById k s)
           else map_option ord_total (TypeOrmOrderRepository_findById k s))"
    using arg_cong [OF order_update_row [OF u, of k], of "map_option (fl \<circ> snd \<circ> snd)"]
    by (simp add: TypeOrmOrderRepository_findById_def oe_core_def option.map_comp comp_def)
  show "fits_decimal 10 (ord_total o')" using u by (rule order_update_frame)
qed

subsection \<open>The contract of the saga repository\<close>

text \<open>
  The columns an update writes; the row keeps its id, order, correlation id and creation time.
\<close>

definition saga_written :: "date \<Rightarrow> saga \<Rightarrow> saga \<Rightarrow> saga" where
  "saga_written now g old =
     old\<lparr>sg_currentStep := sg_currentStep g, sg_status := sg_status g, sg_retryCount := sg_retryCount g,
       sg_lastError := sg_lastError g, sg_nextRetryAt := sg_nextRetryAt g, sg_updatedAt := now\<rparr>"

lemma saga_written_own:
  "saga_ident g' = saga_ident g \<Longrightarrow> sg_updatedAt g' = now \<Longrightarrow> saga_written now g' g = g'"
  by (cases g; cases g') (simp add: saga_written_def saga_ident_def)

locale saga_repository =
  fixes find_saga :: "string \<Rightarrow> 's \<Rightarrow> saga option"
    and find_running :: "(string \<Rightarrow> bool) \<Rightarrow> string \<Rightarrow> 's \<Rightarrow> saga option"
    and update_saga :: "env \<Rightarrow> saga \<Rightarrow> ('s, order_error, saga) tx"
    and keys_ok :: "'s \<Rightarrow> bool"
  assumes find_saga_order: "find_saga k s = Some g \<Longrightarrow> sg_orderId g = k"
    and find_running_found:
      "find_running locked i s = Some g \<Longrightarrow> keys_ok s \<Longrightarrow>
        sg_id g = i \<and> sg_status g = SagaStatus_RUNNING \<and> find_saga (sg_orderId g) s = Some g"
    and update_saga_ok: "\<exists>s'. update_saga env g s = (Inr g, s')"
    and update_saga_keys: "update_saga env g s = (Inr g, s') \<Longrightarrow> keys_ok s \<Longrightarrow> keys_ok s'"
    and update_saga_row:
      "update_saga env g s = (Inr g, s') \<Longrightarrow>
        find_saga k s' = map_option
          (\<lambda>old. if sg_id old = sg_id g then saga_written (e_now env) g old else old) (find_saga k s)"
    and find_saga_inj:
      "keys_ok s \<Longrightarrow> find_saga k s = Some g \<Longrightarrow> find_saga j s = Some h \<Longrightarrow> sg_id g = sg_id h \<Longrightarrow> g = h"
begin

lemma update_found:
  assumes "update_saga env g' s = (Inr g', s')" "keys_ok s" "find_saga k s = Some g"
    and "saga_ident g' = saga_ident g" "sg_updatedAt g' = e_now env"
  shows "find_saga j s' = (if j = k then Some g' else find_saga j s)"
proof (cases "j = k")
  case True
  with update_saga_row [OF assms(1), of k] assms(3,4) saga_written_own [OF assms(4,5)]
  show ?thesis by (simp add: saga_ident_def)
next
  case False
  have "sg_id old \<noteq> sg_id g'" if "find_saga j s = Some old" for old
  proof
    assume "sg_id old = sg_id g'"
    with assms(4) have "sg_id old = sg_id g" by (simp add: saga_ident_def)
    with find_saga_inj [OF assms(2) that assms(3)] have "old = g" .
    with find_saga_order that assms(3) False show False by blast
  qed
  with False update_saga_row [OF assms(1), of j] show ?thesis
    by (cases "find_saga j s") auto
qed

end

definition saga_keys_ok :: "order_db \<Rightarrow> bool" where
  "saga_keys_ok s \<longleftrightarrow> distinct (map se_id (saga_states s)) \<and> distinct (map se_orderId (saga_states s))"

lemma SagaMapper_toDomain_simps [simp]:
  "sg_id (SagaMapper_toDomain r) = se_id r" "sg_orderId (SagaMapper_toDomain r) = se_orderId r"
  "sg_status (SagaMapper_toDomain r) = se_status r"
  "sg_currentStep (SagaMapper_toDomain r) = se_currentStep r"
  "sg_retryCount (SagaMapper_toDomain r) = se_retryCount r"
  by (simp_all add: SagaMapper_toDomain_def)

interpretation saga_repo: saga_repository TypeOrmSagaRepository_findByOrderIdWithLock
  TypeOrmSagaRepository_findByIdSkipLocked TypeOrmSagaRepository_update saga_keys_ok
proof unfold_locales
  fix k g and s :: order_db
  assume "TypeOrmSagaRepository_findByOrderIdWithLock k s = Some g"
  then show "sg_orderId g = k"
    by (auto simp: TypeOrmSagaRepository_findByOrderIdWithLock_def dest: row_of_key)
next
  fix locked i g and s :: order_db
  assume f: "TypeOrmSagaRepository_findByIdSkipLocked locked i s = Some g" and keys: "saga_keys_ok s"
  from f obtain r where r: "r \<in> set (saga_states s)" "se_id r = i" "se_status r = SagaStatus_RUNNING"
    "g = SagaMapper_toDomain r"
    by (auto simp: TypeOrmSagaRepository_findByIdSkipLocked_def find_Some_iff in_set_conv_nth)
  have "row_of se_orderId (se_orderId r) (saga_states s) = Some r"
    using keys r(1) by (auto simp: saga_keys_ok_def intro: row_of_unique)
  with r show "sg_id g = i \<and> sg_status g = SagaStatus_RUNNING \<and>
      TypeOrmSagaRepository_findByOrderIdWithLock (sg_orderId g) s = Some g"
    by (simp add: TypeOrmSagaRepository_findByOrderIdWithLock_def)
next
  fix env g and s :: order_db
  show "\<exists>s'. TypeOrmSagaRepository_update env g s = (Inr g, s')"
    by (simp add: TypeOrmSagaRepository_update_def)
next
  fix env g and s s' :: order_db
  assume "TypeOrmSagaRepository_update env g s = (Inr g, s')" "saga_keys_ok s"
  then show "saga_keys_ok s'"
    by (auto simp: TypeOrmSagaRepository_update_def saga_keys_ok_def map_update_where)
next
  fix env g k and s s' :: order_db
  assume "TypeOrmSagaRepository_update env g s = (Inr g, s')"
  then show "TypeOrmSagaRepository_findByOrderIdWithLock k s' = map_option
      (\<lambda>old. if sg_id old = sg_id g then saga_written (e_now env) g old else old)
      (TypeOrmSagaRepository_findByOrderIdWithLock k s)"
    by (cases "row_of se_orderId k (saga_states s)")
      (auto simp: TypeOrmSagaRepository_update_def TypeOrmSagaRepository_findByOrderIdWithLock_def
        row_of_update_where saga_written_def SagaMapper_toDomain_def)
next
  fix k g j h and s :: order_db
  assume "saga_keys_ok s" "TypeOrmSagaRepository_findByOrderIdWithLock k s = Some g"
    "TypeOrmSagaRepository_findByOrderIdWithLock j s = Some h" "sg_id g = sg_id h"
  then show "g = h"
    by (auto simp: TypeOrmSagaRepository_findByOrderIdWithLock_def saga_keys_ok_def distinct_map
        dest!: row_of_in dest: inj_onD)
qed

end
