(* ===== verification/SagaOrchestrator.thy ===== *)
theory SagaOrchestrator
  imports OrderPersistence
begin

section \<open>The saga orchestrator and the creation of orders\<close>

text \<open>
  \<^verbatim>\<open>saga-orchestrator.service.ts\<close>, \<^verbatim>\<open>create-order.use-case.ts\<close> and
  \<^verbatim>\<open>saga-reply.controller.ts\<close> of the order-service. Each handler is one transaction on
  \<open>order_db\<close>: it reads the saga and the order, moves both, and writes the next command
  or the final event to the outbox. \<open>fault\<close> is the error of a refused commit. The
  retry timer takes the due sagas one transaction each, with its own clock and locks, and
  swallows what a transaction throws.
\<close>

subsection \<open>Helpers of the orchestrator\<close>

definition loadSagaForStep :: "string \<Rightarrow> saga_step_name \<Rightarrow> order_db \<Rightarrow> saga option" where
  "loadSagaForStep orderId' stp s =
     (case TypeOrmSagaRepository_findByOrderIdWithLock orderId' s of
        None \<Rightarrow> None
      | Some g \<Rightarrow> if Saga_canHandle stp g then Some g else None)"

definition performCancellation ::
  "env \<Rightarrow> saga \<Rightarrow> string \<Rightarrow> string \<Rightarrow> (order_db, order_error, unit) tx" where
  "performCancellation env g orderId' reason =
     tx_bind (found (OrderNotFoundError orderId') (TypeOrmOrderRepository_findById orderId')) (\<lambda>o'.
     tx_bind (lift (Order_compensate (e_now env) o')) (\<lambda>compensated.
     tx_bind (TypeOrmOrderRepository_update env compensated) (\<lambda>_.
     tx_bind (TypeOrmSagaRepository_update env (Saga_fail (e_now env) reason g)) (\<lambda>_.
     modify (TypeOrmOutboxRepository_write env orderId' (KAFKA_TOPICS ORDER_CANCELLED) orderId'
       (OrderCancelled \<lparr>ev_orderId = ord_id o', ev_userId = ord_userId o',
          ev_userEmail = ord_userEmail o', ev_correlationId = sg_correlationId g,
          ox_reason = reason, ox_cancelledAt = e_iso env (e_now env)\<rparr>))))))"

definition order_lines :: "order \<Rightarrow> command_item list" where
  "order_lines o' =
     map (\<lambda>i. \<lparr>ci_productId = it_productId i, ci_quantity = it_quantity i\<rparr>) (ord_items o')"

definition resendCommand :: "env \<Rightarrow> saga \<Rightarrow> order \<Rightarrow> order_db \<Rightarrow> order_db" where
  "resendCommand env g o' s =
     (let cid = sg_correlationId g;
          s1 = (if sg_currentStep g = SagaStep_RESERVE_STOCK
                then TypeOrmOutboxRepository_write env (sg_orderId g) (KAFKA_TOPICS RESERVE_STOCK) (sg_orderId g)
                  (ReserveStock \<lparr>commandId = sg_id g, orderId = sg_orderId g, correlationId = cid,
                     rs_items = order_lines o'\<rparr>) s
                else s);
          s2 = (if sg_currentStep g = SagaStep_PROCESS_PAYMENT
                then TypeOrmOutboxRepository_write env (sg_orderId g) (KAFKA_TOPICS PROCESS_PAYMENT) (sg_orderId g)
                  (ProcessPayment \<lparr>commandId = sg_id g @ ''-pay'', orderId = sg_orderId g,
                     correlationId = cid, pp_userId = ord_userId o', pp_amount = ord_total o'\<rparr>) s1
                else s1)
      in if sg_currentStep g = SagaStep_RELEASE_STOCK
         then TypeOrmOutboxRepository_write env (sg_orderId g) (KAFKA_TOPICS RELEASE_STOCK) (sg_orderId g)
           (ReleaseStock \<lparr>commandId = sg_id g @ ''-release'', orderId = sg_orderId g,
              correlationId = cid, rl_items = order_lines o'\<rparr>) s2
         else s2)"

subsection \<open>The five replies\<close>

definition onStockReserved ::
  "order_error option \<Rightarrow> env \<Rightarrow> stock_reserved_event \<Rightarrow> (order_db, order_error, unit) tx" where
  "onStockReserved fault env event =
     transaction fault (\<lambda>s.
       case loadSagaForStep (orderId event) SagaStep_RESERVE_STOCK s of
         None \<Rightarrow> (Inr (), s)
       | Some g \<Rightarrow>
           tx_bind (found (OrderNotFoundError (orderId event))
             (TypeOrmOrderRepository_findById (orderId event))) (\<lambda>o'.
           tx_bind (lift (Order_confirm (e_now env) (sr_total event) (sr_items event) o')) (\<lambda>confirmed.
           tx_bind (TypeOrmOrderRepository_update env confirmed) (\<lambda>_.
           tx_bind (lift (Saga_advance (e_now env) g)) (\<lambda>advanced.
           tx_bind (TypeOrmSagaRepository_update env advanced) (\<lambda>_.
           modify (TypeOrmOutboxRepository_write env (orderId event) (KAFKA_TOPICS PROCESS_PAYMENT)
             (orderId event)
             (ProcessPayment \<lparr>commandId = sg_id g @ ''-pay'', orderId = orderId event,
                correlationId = sg_correlationId g, pp_userId = ord_userId o',
                pp_amount = sr_total event\<rparr>))))))) s)"

definition onStockReservationFailed ::
  "order_error option \<Rightarrow> env \<Rightarrow> stock_reservation_failed_event \<Rightarrow> (order_db, order_error, unit) tx" where
  "onStockReservationFailed fault env event =
     transaction fault (\<lambda>s.
       case loadSagaForStep (orderId event) SagaStep_RESERVE_STOCK s of
         None \<Rightarrow> (Inr (), s)
       | Some g \<Rightarrow> performCancellation env g (orderId event) (sf_reason event) s)"

definition onPaymentProcessed ::
  "order_error option \<Rightarrow> env \<Rightarrow> payment_processed_event \<Rightarrow> (order_db, order_error, unit) tx" where
  "onPaymentProcessed fault env event =
     transaction fault (\<lambda>s.
       case loadSagaForStep (orderId event) SagaStep_PROCESS_PAYMENT s of
         None \<Rightarrow> (Inr (), s)
       | Some g \<Rightarrow>
           tx_bind (lift (Saga_advance (e_now env) g)) (\<lambda>advanced.
           tx_bind (TypeOrmSagaRepository_update env advanced) (\<lambda>_.
           tx_bind (found (OrderNotFoundError (orderId event))
             (TypeOrmOrderRepository_findById (orderId event))) (\<lambda>o'.
           modify (TypeOrmOutboxRepository_write env (orderId event) (KAFKA_TOPICS ORDER_CONFIRMED)
             (orderId event)
             (OrderConfirmed \<lparr>ev_orderId = ord_id o', ev_userId = ord_userId o',
                ev_userEmail = ord_userEmail o', ev_correlationId = sg_correlationId g,
                oc_items = map (\<lambda>i. \<lparr>oi_productId = it_productId i, oi_name = it_productName i,
                  oi_quantity = it_quantity i, oi_unitPrice = it_unitPrice i\<rparr>) (ord_items o'),
                oc_total = ord_total o', oc_confirmedAt = e_iso env (e_now env)\<rparr>))))) s)"

definition onPaymentFailed ::
  "order_error option \<Rightarrow> env \<Rightarrow> payment_failed_event \<Rightarrow> (order_db, order_error, unit) tx" where
  "onPaymentFailed fault env event =
     transaction fault (\<lambda>s.
       case loadSagaForStep (orderId event) SagaStep_PROCESS_PAYMENT s of
         None \<Rightarrow> (Inr (), s)
       | Some g \<Rightarrow>
           tx_bind (TypeOrmSagaRepository_update env
             (Saga_startCompensation (e_now env) (pf_reason event) g)) (\<lambda>_.
           tx_bind (found (OrderNotFoundError (orderId event))
             (TypeOrmOrderRepository_findById (orderId event))) (\<lambda>o'.
           modify (TypeOrmOutboxRepository_write env (orderId event) (KAFKA_TOPICS RELEASE_STOCK)
             (orderId event)
             (ReleaseStock \<lparr>commandId = sg_id g @ ''-release'', orderId = orderId event,
                correlationId = sg_correlationId g, rl_items = order_lines o'\<rparr>)))) s)"

definition onStockReleased ::
  "order_error option \<Rightarrow> env \<Rightarrow> stock_released_event \<Rightarrow> (order_db, order_error, unit) tx" where
  "onStockReleased fault env event =
     transaction fault (\<lambda>s.
       case loadSagaForStep (orderId event) SagaStep_RELEASE_STOCK s of
         None \<Rightarrow> (Inr (), s)
       | Some g \<Rightarrow> performCancellation env g (orderId event)
           (case sg_lastError g of Some e \<Rightarrow> e | None \<Rightarrow> ''Payment failed'') s)"

subsection \<open>The retry timer\<close>

record retry_context =
  rc_env :: env
  rc_fault :: "order_error option"
  rc_locked :: "string \<Rightarrow> bool"

definition retry_saga :: "retry_context \<Rightarrow> saga \<Rightarrow> (order_db, order_error, unit) tx" where
  "retry_saga rc g0 =
     transaction (rc_fault rc) (\<lambda>s.
       case TypeOrmSagaRepository_findByIdSkipLocked (rc_locked rc) (sg_id g0) s of
         None \<Rightarrow> (Inr (), s)
       | Some freshSaga \<Rightarrow>
           if Saga_hasExceededMaxRetries freshSaga
           then tx_bind (TypeOrmSagaRepository_update (rc_env rc)
                  (Saga_fail (e_now (rc_env rc)) ''Max retries exceeded'' freshSaga)) (\<lambda>_. ret ()) s
           else
             tx_bind (TypeOrmSagaRepository_update (rc_env rc)
               (Saga_scheduleRetry (e_now (rc_env rc)) freshSaga)) (\<lambda>_.
             tx_bind (found (OrderNotFoundError (sg_orderId freshSaga))
               (TypeOrmOrderRepository_findById (sg_orderId freshSaga))) (\<lambda>o'.
             modify (resendCommand (rc_env rc) freshSaga o'))) s)"

text \<open>
  The timer: \<open>query = None\<close> when the query for stuck sagas throws, otherwise the clock and
  the scan order it runs with; \<open>rcs i\<close> is the context of the \<open>i\<close>-th transaction.
\<close>

fun retry_each :: "(nat \<Rightarrow> retry_context) \<Rightarrow> nat \<Rightarrow> saga list \<Rightarrow> order_db \<Rightarrow> order_db" where
  "retry_each rcs i [] s = s"
| "retry_each rcs i (g # gs) s = retry_each rcs (Suc i) gs (snd (retry_saga (rcs i) g s))"

definition retryStuckSagas ::
  "(date \<times> (saga_state_orm list \<Rightarrow> saga_state_orm list)) option \<Rightarrow> (nat \<Rightarrow> retry_context) \<Rightarrow>
    order_db \<Rightarrow> order_db" where
  "retryStuckSagas query rcs s =
     (case query of
        None \<Rightarrow> s
      | Some (now, scan) \<Rightarrow> retry_each rcs 0 (TypeOrmSagaRepository_findStuck now scan 10 s) s)"

subsection \<open>create-order.use-case.ts\<close>

record create_order_input =
  in_userId :: string
  in_userEmail :: "string option"
  in_correlationId :: string
  in_items :: "command_item list"

record order_item_result =
  ir_id :: string
  ir_productId :: string
  ir_productName :: string
  ir_quantity :: int
  ir_unitPrice :: number

record order_result =
  or_id :: string
  or_userId :: string
  or_userEmail :: string
  or_status :: string
  or_total :: number
  or_items :: "order_item_result list"
  or_createdAt :: date
  or_updatedAt :: date

definition order_toResult :: "order \<Rightarrow> order_result" where
  "order_toResult o' =
     \<lparr>or_id = ord_id o', or_userId = ord_userId o', or_userEmail = ord_userEmail o',
      or_status = order_status_value (ord_status o'), or_total = ord_total o',
      or_items = map (\<lambda>i. \<lparr>ir_id = it_id i, ir_productId = it_productId i,
        ir_productName = it_productName i, ir_quantity = it_quantity i,
        ir_unitPrice = it_unitPrice i\<rparr>) (ord_items o'),
      or_createdAt = ord_createdAt o', or_updatedAt = ord_updatedAt o'\<rparr>"

text \<open>A missing e-mail header is \<^verbatim>\<open>undefined\<close>, which the column refuses on insert.\<close>

definition CreateOrderUseCase_execute ::
  "order_error option \<Rightarrow> env \<Rightarrow> create_order_input \<Rightarrow> (order_db, order_error, order_result) tx" where
  "CreateOrderUseCase_execute fault env input =
     transaction fault
       (tx_bind (case in_userEmail input of
           None \<Rightarrow> raise (QueryFailedError ''null value in column userEmail'')
         | Some email \<Rightarrow> TypeOrmOrderRepository_save env
             (Order_create (e_now env) (in_userId input) email (in_items input))) (\<lambda>o'.
        tx_bind (TypeOrmSagaRepository_save env
          (Saga_create (e_now env) (ord_id o') (in_correlationId input))) (\<lambda>g.
        tx_bind (modify (TypeOrmOutboxRepository_write env (ord_id o') (KAFKA_TOPICS RESERVE_STOCK) (ord_id o')
          (ReserveStock \<lparr>commandId = sg_id g, orderId = ord_id o',
             correlationId = in_correlationId input, rs_items = in_items input\<rparr>))) (\<lambda>_.
        ret (order_toResult o')))))"

subsection \<open>saga-reply.controller.ts\<close>

definition SagaReplyController_handle ::
  "(order_db, order_error, unit) tx \<Rightarrow> (order_db, order_error, unit) tx" where
  "SagaReplyController_handle fn =
     try_catch fn (\<lambda>e. case e of OrderNotFoundError _ \<Rightarrow> ret () | _ \<Rightarrow> raise e)"

text \<open>
  The handlers \<^verbatim>\<open>onModuleInit\<close> subscribes: the topic selects the cast of the payload. A
  payload of another interface would be read with missing fields; the services never send
  one on these topics, and such a message is not modelled (it is ignored).
\<close>

definition saga_reply ::
  "order_error option \<Rightarrow> env \<Rightarrow> payload \<Rightarrow> (order_db, order_error, unit) tx" where
  "saga_reply fault env pl =
     (case pl of
        StockReserved e \<Rightarrow> SagaReplyController_handle (onStockReserved fault env e)
      | StockReservationFailed e \<Rightarrow> SagaReplyController_handle (onStockReservationFailed fault env e)
      | PaymentProcessed e \<Rightarrow> SagaReplyController_handle (onPaymentProcessed fault env e)
      | PaymentFailed e \<Rightarrow> SagaReplyController_handle (onPaymentFailed fault env e)
      | StockReleased e \<Rightarrow> SagaReplyController_handle (onStockReleased fault env e)
      | _ \<Rightarrow> ret ())"

end
