(* ===== verification/OrderInvariant.thy ===== *)
theory OrderInvariant
  imports SagaOrchestrator
begin

section \<open>The invariant of the order-service\<close>

text \<open>
  \<open>order_inv\<close> relates, for every order, the saga's step, the order's status and the
  messages written for it; \<open>order_step\<close> is the step relation of the whole service
  (requests, replies in any order and any number of times, the timer, and the outbox
  processor). Each handler is first reduced to its \<open>effect\<close> on one order, the effect is
  shown to keep the invariant and to be one move of that order's saga, and the service is
  shown to be a \<open>transition_system\<close>.
\<close>

subsection \<open>The invariant of the service\<close>

abbreviation sagaOf :: "string \<Rightarrow> order_db \<Rightarrow> saga option" where
  "sagaOf \<equiv> TypeOrmSagaRepository_findByOrderIdWithLock"

abbreviation orderOf :: "string \<Rightarrow> order_db \<Rightarrow> order option" where
  "orderOf \<equiv> TypeOrmOrderRepository_findById"

definition rowsOf :: "string \<Rightarrow> order_db \<Rightarrow> outbox_entity list" where
  "rowsOf k s = filter (\<lambda>r. ob_aggregateId r = k) (outbox s)"

fun status_ok :: "saga_step_name \<Rightarrow> order_status \<Rightarrow> bool" where
  "status_ok SagaStep_RESERVE_STOCK st \<longleftrightarrow> st = OrderStatus_PENDING"
| "status_ok SagaStep_PROCESS_PAYMENT st \<longleftrightarrow> st = OrderStatus_CONFIRMED"
| "status_ok SagaStep_RELEASE_STOCK st \<longleftrightarrow> st = OrderStatus_CONFIRMED"
| "status_ok SagaStep_COMPLETED st \<longleftrightarrow> st = OrderStatus_CONFIRMED"
| "status_ok SagaStep_FAILED st \<longleftrightarrow> st \<noteq> OrderStatus_COMPLETED"

definition command_for :: "saga \<Rightarrow> string \<Rightarrow> 'a base_command_scheme \<Rightarrow> bool" where
  "command_for g suffix c \<longleftrightarrow>
     commandId c = sg_id g @ suffix \<and> orderId c = sg_orderId g \<and> correlationId c = sg_correlationId g"

definition event_for :: "saga \<Rightarrow> order \<Rightarrow> 'a base_order_event_scheme \<Rightarrow> bool" where
  "event_for g o' e \<longleftrightarrow>
     ev_orderId e = ord_id o' \<and> ev_userId e = ord_userId o' \<and> ev_userEmail e = ord_userEmail o' \<and>
     ev_correlationId e = sg_correlationId g"

text \<open>
  What the service may have written for an order: commands that carry the saga's ids and the
  order's lines, a payment whose amount, kept to the cent, is the order's total, and the final
  event that matches the saga's end.
\<close>

fun payload_ok :: "saga \<Rightarrow> order \<Rightarrow> payload \<Rightarrow> bool" where
  "payload_ok g o' (ReserveStock c) \<longleftrightarrow> command_for g '''' c \<and> rs_items c = order_lines o'"
| "payload_ok g o' (ProcessPayment c) \<longleftrightarrow> command_for g ''-pay'' c \<and> pp_userId c = ord_userId o' \<and>
     fl (dec2 (pp_amount c)) = ord_total o' \<and> sg_currentStep g \<noteq> SagaStep_RESERVE_STOCK"
| "payload_ok g o' (ReleaseStock c) \<longleftrightarrow> command_for g ''-release'' c \<and> rl_items c = order_lines o' \<and>
     sg_currentStep g \<in> {SagaStep_RELEASE_STOCK, SagaStep_FAILED}"
| "payload_ok g o' (OrderConfirmed e) \<longleftrightarrow> event_for g o' e \<and> oc_total e = ord_total o' \<and>
     sg_currentStep g = SagaStep_COMPLETED"
| "payload_ok g o' (OrderCancelled e) \<longleftrightarrow> event_for g o' e \<and> Some (ox_reason e) = sg_lastError g \<and>
     sg_currentStep g = SagaStep_FAILED \<and> ord_status o' = OrderStatus_CANCELLED"
| "payload_ok g o' _ \<longleftrightarrow> False"

definition row_ok :: "saga \<Rightarrow> order \<Rightarrow> outbox_entity \<Rightarrow> bool" where
  "row_ok g o' r \<longleftrightarrow> ob_topic r = KAFKA_TOPICS (payload_topic (ob_payload r)) \<and>
     ob_messageKey r = ord_id o' \<and> payload_ok g o' (ob_payload r)"

definition rows_on :: "topic_key \<Rightarrow> outbox_entity list \<Rightarrow> nat" where
  "rows_on t rows = length (filter (\<lambda>r. payload_topic (ob_payload r) = t) rows)"

definition pair_ok :: "saga \<Rightarrow> order \<Rightarrow> outbox_entity list \<Rightarrow> bool" where
  "pair_ok g o' rows \<longleftrightarrow>
     saga_wf g \<and> status_ok (sg_currentStep g) (ord_status o') \<and>
     (\<exists>x. ord_total o' = fl (dec2 x) \<and> fits_decimal 10 x) \<and>
     (\<forall>r \<in> set rows. row_ok g o' r) \<and>
     rows_on ORDER_CONFIRMED rows = (if sg_currentStep g = SagaStep_COMPLETED then 1 else 0) \<and>
     rows_on ORDER_CANCELLED rows = (if ord_status o' = OrderStatus_CANCELLED then 1 else 0)"

fun view_ok :: "saga option \<Rightarrow> order option \<Rightarrow> outbox_entity list \<Rightarrow> bool" where
  "view_ok (Some g) (Some o') rows \<longleftrightarrow> pair_ok g o' rows"
| "view_ok None None rows \<longleftrightarrow> rows = []"
| "view_ok _ _ rows \<longleftrightarrow> False"

text \<open>Every primary key was generated, and none twice; every price came out of its column.\<close>

definition prices_stored :: "order_db \<Rightarrow> bool" where
  "prices_stored s \<longleftrightarrow> (\<forall>r \<in> set (orders s). \<forall>i \<in> set (oe_items r).
     \<exists>x. oie_unitPrice i = dec2 x \<and> fits_decimal 10 x)"

definition ids_ok :: "(nat \<Rightarrow> string) \<Rightarrow> order_db \<Rightarrow> bool" where
  "ids_ok u s \<longleftrightarrow>
     outbox_ids_ok u s \<and> saga_keys_ok s \<and> distinct (map oe_id (orders s)) \<and>
     set (map oe_id (orders s)) \<subseteq> u ` {..<seq s} \<and> set (map se_id (saga_states s)) \<subseteq> u ` {..<seq s} \<and>
     prices_stored s"

definition order_inv :: "(nat \<Rightarrow> string) \<Rightarrow> order_db \<Rightarrow> bool" where
  "order_inv u s \<longleftrightarrow> ids_ok u s \<and> (\<forall>k. view_ok (sagaOf k s) (orderOf k s) (rowsOf k s))"

definition order_db_initial :: "order_db \<Rightarrow> bool" where
  "order_db_initial s \<longleftrightarrow> outbox s = [] \<and> orders s = [] \<and> saga_states s = []"

subsection \<open>The effect of a handler\<close>

text \<open>
  What a handler that does not ignore its message leaves: the saga of one order has moved, the
  order may have a new status and total, and at most one message was written for it.
\<close>

definition rows_after :: "env \<Rightarrow> nat \<Rightarrow> string \<Rightarrow> payload option \<Rightarrow> outbox_entity list \<Rightarrow> outbox_entity list" where
  "rows_after env n k p rows =
     (case p of None \<Rightarrow> rows
      | Some q \<Rightarrow> rows @ [new_outbox_row env n k (KAFKA_TOPICS (payload_topic q)) k q])"

definition view :: "order \<Rightarrow> order_status \<times> number" where
  "view o' = (ord_status o', ord_total o')"

definition written :: "(order_status \<times> number) option \<Rightarrow> order \<Rightarrow> order_status \<times> number" where
  "written upd = (case upd of None \<Rightarrow> view | Some v \<Rightarrow> \<lambda>_. v)"

definition effect ::
  "env \<Rightarrow> string \<Rightarrow> saga \<Rightarrow> saga \<Rightarrow> (order_status \<times> number) option \<Rightarrow> payload option \<Rightarrow>
    order_db \<Rightarrow> order_db \<Rightarrow> bool" where
  "effect env k g g' upd pl s s' \<longleftrightarrow>
     sagaOf k s = Some g \<and> saga_move g g' \<and>
     (\<forall>j. sagaOf j s' = (if j = k then Some g' else sagaOf j s)) \<and>
     (\<forall>j. map_option order_core (orderOf j s') = map_option order_core (orderOf j s)) \<and>
     (\<forall>j. map_option view (orderOf j s') =
        map_option (if j = k then written upd else view) (orderOf j s)) \<and>
     outbox s' = rows_after env (seq s) k pl (outbox s) \<and>
     seq s' = seq s + (case pl of None \<Rightarrow> 0 | Some _ \<Rightarrow> 1) \<and>
     ids_ok (e_uuid env) s'"

lemmas repo_defs = TypeOrmSagaRepository_findByOrderIdWithLock_def TypeOrmOrderRepository_findById_def
  TypeOrmSagaRepository_update_def TypeOrmOutboxRepository_write_def

lemma sagaOf_cong: "saga_states s' = saga_states s \<Longrightarrow> sagaOf j s' = sagaOf j s"
  by (simp add: repo_defs)

lemma orderOf_cong: "orders s' = orders s \<Longrightarrow> orderOf j s' = orderOf j s"
  by (simp add: repo_defs)

lemma order_update_oe_id:
  assumes "TypeOrmOrderRepository_update env o' s = (Inr x, s')"
  shows "map oe_id (orders s') = map oe_id (orders s)"
proof -
  let ?id = "fst \<circ> fst"
  have id: "?id (oe_core r) = oe_id r" for r by (simp add: oe_core_def order_core_toDomain)
  have "map (?id \<circ> oe_core) (orders s') = map (?id \<circ> oe_core) (update_where (\<lambda>r. oe_id r = ord_id o')
      (\<lambda>r. r\<lparr>oe_status := ord_status o', oe_total := dec2 (ord_total o'), oe_updatedAt := e_now env\<rparr>)
      (orders s))"
    using arg_cong [OF order_update_frame(1) [OF assms], of "map ?id"] by simp
  then show ?thesis by (simp add: comp_def id [unfolded comp_def] map_update_where)
qed

lemma update_items_prices:
  "update_items is s = (Inr u, s') \<Longrightarrow> prices_stored s \<Longrightarrow> prices_stored s'"
proof (induction "is" arbitrary: s)
  case (Cons i "is")
  have "prices_stored (s\<lparr>orders := map (update_item i) (orders s)\<rparr>)" if "fits_decimal 10 (it_unitPrice i)"
    using that Cons.prems(2) by (auto simp: prices_stored_def update_item_def set_update_where)
  with Cons show ?case by (auto split: if_splits)
qed simp

lemma order_update_prices:
  assumes "TypeOrmOrderRepository_update env o' s = (Inr x, s')" "prices_stored s"
  shows "prices_stored s'"
proof -
  let ?s = "s\<lparr>orders := update_where (\<lambda>r. oe_id r = ord_id o')
      (\<lambda>r. r\<lparr>oe_status := ord_status o', oe_total := dec2 (ord_total o'), oe_updatedAt := e_now env\<rparr>)
      (orders s)\<rparr>"
  have "\<exists>u. update_items (ord_items o') ?s = (Inr u, s')"
    using assms(1) by (auto simp: TypeOrmOrderRepository_update_def tx_simps split: if_splits)
  moreover have "prices_stored ?s"
    using assms(2) by (auto simp: prices_stored_def set_update_where)
  ultimately show ?thesis using update_items_prices by blast
qed

lemma ids_ok_cong:
  assumes "ids_ok u s" "map oe_id (orders s') = map oe_id (orders s)"
    "map se_id (saga_states s') = map se_id (saga_states s)"
    "map se_orderId (saga_states s') = map se_orderId (saga_states s)"
    and "outbox_ids_ok u s'" "seq s \<le> seq s'" "prices_stored s'"
  shows "ids_ok u s'"
proof -
  have "{..<seq s} \<subseteq> {..<seq s'}" using assms(6) by simp
  then have "u ` {..<seq s} \<subseteq> u ` {..<seq s'}" by (rule image_mono)
  then show ?thesis
    using assms unfolding ids_ok_def saga_keys_ok_def by simp (meson order_trans)
qed

text \<open>A handler is its order update, its saga update and its message, in any order.\<close>

lemma effectI:
  assumes ids: "ids_ok (e_uuid env) s" "uuid_ok (e_uuid env)"
    and saga: "sagaOf k s = Some g" "saga_move g g'" "sg_updatedAt g' = e_now env"
      "saga_states s' = saga_states (snd (TypeOrmSagaRepository_update env g' s))"
    and ord: "orders s' = orders s1" "map oe_id (orders s1) = map oe_id (orders s)" "prices_stored s1"
      "\<And>j. map_option order_core (orderOf j s1) = map_option order_core (orderOf j s)"
      "\<And>j. map_option view (orderOf j s1) =
        map_option (if j = k then written upd else view) (orderOf j s)"
    and msg: "outbox s' = rows_after env (seq s) k pl (outbox s)"
      "seq s' = seq s + (case pl of None \<Rightarrow> 0 | Some _ \<Rightarrow> 1)"
  shows "effect env k g g' upd pl s s'"
proof -
  have keys: "saga_keys_ok s" using ids(1) by (simp add: ids_ok_def)
  let ?t = "snd (TypeOrmSagaRepository_update env g' s)"
  have run: "TypeOrmSagaRepository_update env g' s = (Inr g', ?t)"
    by (simp add: TypeOrmSagaRepository_update_def)
  have sagas: "sagaOf j s' = (if j = k then Some g' else sagaOf j s)" for j
    using sagaOf_cong [OF saga(4)]
      saga_repo.update_found [OF run keys saga(1) saga_move_ident [OF saga(2)] saga(3)] by simp
  have old: "outbox_ids_ok (e_uuid env) s" using ids(1) by (simp add: ids_ok_def)
  have "outbox_ids_ok (e_uuid env) s'"
  proof (cases pl)
    case None
    with msg old show ?thesis by (simp add: outbox_ids_ok_def rows_after_def)
  next
    case (Some p)
    with msg repo_outbox.put_keeps_ids [OF ids(2) old, of k "KAFKA_TOPICS (payload_topic p)" k p]
    show ?thesis by (simp add: outbox_ids_ok_def rows_after_def TypeOrmOutboxRepository_write_def)
  qed
  moreover have "map se_id (saga_states s') = map se_id (saga_states s)"
    "map se_orderId (saga_states s') = map se_orderId (saga_states s)"
    by (simp_all add: saga(4) TypeOrmSagaRepository_update_def map_update_where)
  moreover have "seq s \<le> seq s'" "map oe_id (orders s') = map oe_id (orders s)" "prices_stored s'"
    using msg(2) ord(1,2,3) by (simp_all add: prices_stored_def)
  ultimately have "ids_ok (e_uuid env) s'" using ids_ok_cong [OF ids(1)] by blast
  with sagas saga(1,2) ord msg show ?thesis unfolding effect_def orderOf_cong [OF ord(1)] by blast
qed

lemma effect_rows:
  assumes "effect env k g g' upd pl s s'"
  shows "rowsOf j s' = (if j = k then rows_after env (seq s) k pl (rowsOf k s) else rowsOf j s)"
  using assms by (auto simp: effect_def rowsOf_def rows_after_def new_outbox_row_def split: option.splits)

lemma order_lines_core: "order_lines o' = map (\<lambda>(_, p, q). \<lparr>ci_productId = p, ci_quantity = q\<rparr>) (fst (snd (snd (snd (order_core o')))))"
  by (simp add: order_lines_def order_core_def comp_def)

lemma order_core_fields:
  "order_core b = order_core a \<Longrightarrow>
     ord_id b = ord_id a \<and> ord_userId b = ord_userId a \<and> ord_userEmail b = ord_userEmail a \<and>
     order_lines b = order_lines a"
  by (simp add: order_lines_core) (simp add: order_core_def)

lemma pair_ok_cong:
  assumes "order_core b = order_core a" "ord_status b = ord_status a" "ord_total b = ord_total a"
  shows "pair_ok g b rows = pair_ok g a rows"
proof -
  have "payload_ok g b p = payload_ok g a p" for p
    using order_core_fields [OF assms(1)] assms by (cases p) (simp_all add: event_for_def)
  then show ?thesis
    using order_core_fields [OF assms(1)] assms by (simp add: pair_ok_def row_ok_def)
qed

text \<open>The invariant survives an effect whose new saga, order and message fit together.\<close>

lemma effect_inv:
  assumes inv: "order_inv (e_uuid env) s" and eff: "effect env k g g' upd pl s s'"
    and fit: "\<And>a b. orderOf k s = Some a \<Longrightarrow> pair_ok g a (rowsOf k s) \<Longrightarrow>
      order_core b = order_core a \<Longrightarrow> view b = written upd a \<Longrightarrow>
      pair_ok g' b (rows_after env (seq s) k pl (rowsOf k s))"
  shows "order_inv (e_uuid env) s'"
proof -
  have views: "view_ok (sagaOf j s) (orderOf j s) (rowsOf j s)" for j
    using inv by (simp add: order_inv_def)
  have g: "sagaOf k s = Some g" using eff by (simp add: effect_def)
  with views [of k] obtain a where a: "orderOf k s = Some a" "pair_ok g a (rowsOf k s)"
    by (cases "orderOf k s") auto
  have core: "map_option order_core (orderOf j s') = map_option order_core (orderOf j s)"
    and st: "map_option view (orderOf j s') =
      map_option (if j = k then written upd else view) (orderOf j s)" for j
    using eff unfolding effect_def by blast+
  have "view_ok (sagaOf j s') (orderOf j s') (rowsOf j s')" for j
  proof (cases "j = k")
    case True
    from core [of k] a obtain b where b: "orderOf k s' = Some b" "order_core b = order_core a"
      by (cases "orderOf k s'") auto
    with st [of k] a have "view b = written upd a" by simp
    with fit [OF a b(2)] have "pair_ok g' b (rowsOf k s')"
      using effect_rows [OF eff] by simp
    with True b eff show ?thesis by (simp add: effect_def)
  next
    case False
    then have same: "sagaOf j s' = sagaOf j s" "rowsOf j s' = rowsOf j s"
      using eff effect_rows [OF eff] by (simp_all add: effect_def)
    show ?thesis
    proof (cases "orderOf j s")
      case None
      with core [of j] views [of j] same show ?thesis by simp
    next
      case (Some c)
      with core [of j] st [of j] False obtain d where d: "orderOf j s' = Some d"
        "order_core d = order_core c" "view d = view c"
        by (cases "orderOf j s'") auto
      then have "pair_ok h d rows = pair_ok h c rows" for h rows
        using pair_ok_cong [of d c] by (simp add: view_def)
      with views [of j] same Some d show ?thesis by (cases "sagaOf j s") auto
    qed
  qed
  with eff show ?thesis by (simp add: order_inv_def effect_def)
qed

subsection \<open>What each handler does\<close>

lemma saga_update_run: "TypeOrmSagaRepository_update env g s = (Inr x, s') \<longleftrightarrow>
    x = g \<and> s' = snd (TypeOrmSagaRepository_update env g s)"
  by (auto simp: TypeOrmSagaRepository_update_def)

lemma saga_update_frame [simp]:
  "orders (snd (TypeOrmSagaRepository_update env g s)) = orders s"
  "outbox (snd (TypeOrmSagaRepository_update env g s)) = outbox s"
  "seq (snd (TypeOrmSagaRepository_update env g s)) = seq s"
  by (simp_all add: TypeOrmSagaRepository_update_def)

lemma saga_update_cong:
  "saga_states s1 = saga_states s \<Longrightarrow>
     saga_states (snd (TypeOrmSagaRepository_update env g s1)) =
     saga_states (snd (TypeOrmSagaRepository_update env g s))"
  by (simp add: TypeOrmSagaRepository_update_def)

lemma outbox_write_frame [simp]:
  "orders (TypeOrmOutboxRepository_write env a t k p s) = orders s"
  "saga_states (TypeOrmOutboxRepository_write env a t k p s) = saga_states s"
  by (simp_all add: TypeOrmOutboxRepository_write_def)

lemma outbox_write_outbox [simp]:
  "outbox (TypeOrmOutboxRepository_write env a t k p s) = outbox s @ [new_outbox_row env (seq s) a t k p]"
  "seq (TypeOrmOutboxRepository_write env a t k p s) = Suc (seq s)"
  by (simp_all add: TypeOrmOutboxRepository_write_def)

lemma loadSagaForStep_Some:
  "loadSagaForStep k stp s = Some g \<longleftrightarrow> sagaOf k s = Some g \<and> Saga_canHandle stp g"
  by (auto simp: loadSagaForStep_def split: option.splits if_splits)

text \<open>An order update, seen through the reads.\<close>

lemma order_update_view:
  assumes "TypeOrmOrderRepository_update env o' s = (Inr x, s')" "ord_id o' = k"
  shows "map_option view (orderOf j s') =
      map_option (if j = k then written (Some (ord_status o', fl (dec2 (ord_total o')))) else view) (orderOf j s)"
proof (cases "orderOf j s")
  case None
  with order_repo.update_order_none [OF assms(1), of j] show ?thesis by simp
next
  case (Some a)
  obtain b where "orderOf j s' = Some b"
    "ord_status b = (if j = ord_id o' then ord_status o' else ord_status a)"
    "ord_total b = (if j = ord_id o' then fl (dec2 (ord_total o')) else ord_total a)"
    by (rule order_repo.update_order_found [OF assms(1) Some])
  with assms(2) Some show ?thesis by (simp add: view_def written_def)
qed

definition payment_command :: "saga \<Rightarrow> order \<Rightarrow> number \<Rightarrow> payload" where
  "payment_command g o' amount = ProcessPayment \<lparr>commandId = sg_id g @ ''-pay'', orderId = sg_orderId g,
     correlationId = sg_correlationId g, pp_userId = ord_userId o', pp_amount = amount\<rparr>"

definition release_command :: "saga \<Rightarrow> order \<Rightarrow> payload" where
  "release_command g o' = ReleaseStock \<lparr>commandId = sg_id g @ ''-release'', orderId = sg_orderId g,
     correlationId = sg_correlationId g, rl_items = order_lines o'\<rparr>"

definition cancelled_event :: "env \<Rightarrow> saga \<Rightarrow> string \<Rightarrow> order \<Rightarrow> payload" where
  "cancelled_event env g reason o' = OrderCancelled \<lparr>ev_orderId = ord_id o', ev_userId = ord_userId o',
     ev_userEmail = ord_userEmail o', ev_correlationId = sg_correlationId g,
     ox_reason = reason, ox_cancelledAt = e_iso env (e_now env)\<rparr>"

definition confirmed_event :: "env \<Rightarrow> saga \<Rightarrow> order \<Rightarrow> payload" where
  "confirmed_event env g o' = OrderConfirmed \<lparr>ev_orderId = ord_id o', ev_userId = ord_userId o',
     ev_userEmail = ord_userEmail o', ev_correlationId = sg_correlationId g,
     oc_items = map (\<lambda>i. \<lparr>oi_productId = it_productId i, oi_name = it_productName i,
       oi_quantity = it_quantity i, oi_unitPrice = it_unitPrice i\<rparr>) (ord_items o'),
     oc_total = ord_total o', oc_confirmedAt = e_iso env (e_now env)\<rparr>"

lemmas message_defs = payment_command_def release_command_def cancelled_event_def confirmed_event_def

lemma performCancellation_effect:
  assumes ids: "ids_ok (e_uuid env) s" "uuid_ok (e_uuid env)"
    and g: "sagaOf k s = Some g" "sg_status g = SagaStatus_RUNNING" and run: "performCancellation env g k reason s = (Inr (), s')"
  obtains a where "orderOf k s = Some a" "ord_status a \<in> {OrderStatus_PENDING, OrderStatus_CONFIRMED}"
    "fits_decimal 10 (ord_total a)"
    "effect env k g (Saga_fail (e_now env) reason g)
       (Some (OrderStatus_CANCELLED, fl (dec2 (ord_total a)))) (Some (cancelled_event env g reason a)) s s'"
proof -
  from run obtain a c s1 x where
    a: "orderOf k s = Some a" and c: "Order_compensate (e_now env) a = Inr c"
    and u: "TypeOrmOrderRepository_update env c s = (Inr x, s1)"
    and s': "s' = TypeOrmOutboxRepository_write env k (KAFKA_TOPICS ORDER_CANCELLED) k
      (cancelled_event env g reason a) (snd (TypeOrmSagaRepository_update env (Saga_fail (e_now env) reason g) s1))"
    by (auto simp: performCancellation_def tx_simps saga_update_run cancelled_event_def)
  have c': "c = a\<lparr>ord_status := OrderStatus_CANCELLED, ord_updatedAt := e_now env\<rparr>"
    "ord_status a \<in> {OrderStatus_PENDING, OrderStatus_CONFIRMED}"
    using c by (cases "ord_status a"; simp add: Order_compensate_def)+
  have k: "ord_id c = k" using order_repo.find_order_id [OF a] c' by simp
  note frame = order_update_frame [OF u]
  have prices: "prices_stored s1" using order_update_prices [OF u] ids(1) by (simp add: ids_ok_def)
  have "effect env k g (Saga_fail (e_now env) reason g)
       (Some (OrderStatus_CANCELLED, fl (dec2 (ord_total a)))) (Some (cancelled_event env g reason a)) s s'"
  proof (rule effectI [OF ids g(1) move_fail [OF g(2)], where ?s1.0 = s1])
    show "map_option view (orderOf j s1) = map_option (if j = k
        then written (Some (OrderStatus_CANCELLED, fl (dec2 (ord_total a)))) else view) (orderOf j s)" for j
      using order_update_view [OF u k, of j] c' by simp
  qed (simp_all add: s' frame order_update_oe_id [OF u] order_repo.update_core [OF u]
      saga_update_cong [of s1 s] prices Saga_fail_def rows_after_def cancelled_event_def)
  then show ?thesis using a c' frame(6) by (intro that) auto
qed

text \<open>A handler that touches no order.\<close>

lemma effectI_saga:
  assumes "ids_ok (e_uuid env) s" "uuid_ok (e_uuid env)"
    and "sagaOf k s = Some g" "saga_move g g'" "sg_updatedAt g' = e_now env"
    and "orders s' = orders s"
      "saga_states s' = saga_states (snd (TypeOrmSagaRepository_update env g' s))"
      "outbox s' = rows_after env (seq s) k pl (outbox s)"
      "seq s' = seq s + (case pl of None \<Rightarrow> 0 | Some _ \<Rightarrow> 1)"
  shows "effect env k g g' None pl s s'"
proof -
  have "prices_stored s" using assms(1) by (simp add: ids_ok_def)
  then show ?thesis by (intro effectI [OF assms(1-5,7,6)]) (simp_all add: written_def assms)
qed

lemma onStockReserved_effect:
  assumes ids: "ids_ok (e_uuid env) s" "uuid_ok (e_uuid env)"
    and run: "onStockReserved fault env ev s = (Inr (), s')"
  obtains (ignored) "s' = s" "loadSagaForStep (orderId ev) SagaStep_RESERVE_STOCK s = None"
  | (moved) g a where "sagaOf (orderId ev) s = Some g" "Saga_canHandle SagaStep_RESERVE_STOCK g"
    "orderOf (orderId ev) s = Some a" "ord_status a = OrderStatus_PENDING" "fits_decimal 10 (sr_total ev)"
    "effect env (orderId ev) g (g\<lparr>sg_currentStep := SagaStep_PROCESS_PAYMENT, sg_status := SagaStatus_RUNNING,
        sg_nextRetryAt := Some (e_now env + RETRY_TIMEOUT_MS), sg_updatedAt := e_now env\<rparr>)
      (Some (OrderStatus_CONFIRMED, fl (dec2 (sr_total ev))))
      (Some (payment_command g a (sr_total ev))) s s'"
proof (cases "loadSagaForStep (orderId ev) SagaStep_RESERVE_STOCK s")
  case None
  with run show ?thesis using ignored by (auto simp: onStockReserved_def transaction_Inr)
next
  case (Some g)
  let ?k = "orderId ev"
  let ?g = "g\<lparr>sg_currentStep := SagaStep_PROCESS_PAYMENT, sg_status := SagaStatus_RUNNING,
        sg_nextRetryAt := Some (e_now env + RETRY_TIMEOUT_MS), sg_updatedAt := e_now env\<rparr>"
  have g: "sagaOf ?k s = Some g" "Saga_canHandle SagaStep_RESERVE_STOCK g"
    using Some by (simp_all add: loadSagaForStep_Some)
  have adv: "Saga_advance (e_now env) g = Inr h \<longleftrightarrow> h = ?g" for h
    using g(2) by (auto simp: Saga_advance_Inr Saga_canHandle_def)
  from run Some obtain a c s1 x where
    a: "orderOf ?k s = Some a" and c: "Order_confirm (e_now env) (sr_total ev) (sr_items ev) a = Inr c"
    and u: "TypeOrmOrderRepository_update env c s = (Inr x, s1)"
    and s': "s' = TypeOrmOutboxRepository_write env ?k (KAFKA_TOPICS PROCESS_PAYMENT) ?k
      (payment_command g a (sr_total ev)) (snd (TypeOrmSagaRepository_update env ?g s1))"
    using saga_repo.find_saga_order [OF g(1)]
    by (auto simp: onStockReserved_def transaction_Inr tx_simps saga_update_run payment_command_def adv)
  have c': "ord_status a = OrderStatus_PENDING" "ord_status c = OrderStatus_CONFIRMED"
    "ord_total c = sr_total ev" "ord_id c = ?k"
    using c order_repo.find_order_id [OF a] by (auto simp: Order_confirm_def split: if_splits)
  note frame = order_update_frame [OF u]
  have prices: "prices_stored s1" using order_update_prices [OF u] ids(1) by (simp add: ids_ok_def)
  have "effect env ?k g ?g (Some (OrderStatus_CONFIRMED, fl (dec2 (sr_total ev))))
      (Some (payment_command g a (sr_total ev))) s s'"
  proof (rule effectI [OF ids g(1) move_advance, where ?s1.0 = s1])
    show "sg_status g = SagaStatus_RUNNING" using g(2) by (simp add: Saga_canHandle_def)
    show "Saga_advance (e_now env) g = Inr ?g" by (simp add: adv)
    show "map_option view (orderOf j s1) = map_option (if j = ?k
        then written (Some (OrderStatus_CONFIRMED, fl (dec2 (sr_total ev)))) else view) (orderOf j s)" for j
      using order_update_view [OF u c'(4), of j] c' by simp
  qed (simp_all add: s' frame order_update_oe_id [OF u] order_repo.update_core [OF u]
      saga_update_cong [of s1 s] prices rows_after_def payment_command_def)
  then show ?thesis using moved g a c' frame(6) by simp
qed

lemma onStockReservationFailed_effect:
  assumes ids: "ids_ok (e_uuid env) s" "uuid_ok (e_uuid env)"
    and run: "onStockReservationFailed fault env ev s = (Inr (), s')"
  obtains (ignored) "s' = s" "loadSagaForStep (orderId ev) SagaStep_RESERVE_STOCK s = None"
  | (moved) g a where "sagaOf (orderId ev) s = Some g" "Saga_canHandle SagaStep_RESERVE_STOCK g"
    "orderOf (orderId ev) s = Some a" "fits_decimal 10 (ord_total a)"
    "effect env (orderId ev) g (Saga_fail (e_now env) (sf_reason ev) g)
       (Some (OrderStatus_CANCELLED, fl (dec2 (ord_total a))))
       (Some (cancelled_event env g (sf_reason ev) a)) s s'"
proof (cases "loadSagaForStep (orderId ev) SagaStep_RESERVE_STOCK s")
  case None
  with run show ?thesis using ignored by (auto simp: onStockReservationFailed_def transaction_Inr)
next
  case (Some g)
  then have g: "sagaOf (orderId ev) s = Some g" "Saga_canHandle SagaStep_RESERVE_STOCK g"
    by (simp_all add: loadSagaForStep_Some)
  have "performCancellation env g (orderId ev) (sf_reason ev) s = (Inr (), s')"
    using run Some by (simp add: onStockReservationFailed_def transaction_Inr)
  moreover have "sg_status g = SagaStatus_RUNNING" using g(2) by (simp add: Saga_canHandle_def)
  ultimately show ?thesis using performCancellation_effect [OF ids g(1)] moved [OF g] by metis
qed

lemma onStockReleased_effect:
  assumes ids: "ids_ok (e_uuid env) s" "uuid_ok (e_uuid env)"
    and run: "onStockReleased fault env ev s = (Inr (), s')"
  obtains (ignored) "s' = s" "loadSagaForStep (orderId ev) SagaStep_RELEASE_STOCK s = None"
  | (moved) g a reason where "sagaOf (orderId ev) s = Some g" "Saga_canHandle SagaStep_RELEASE_STOCK g"
    "orderOf (orderId ev) s = Some a" "fits_decimal 10 (ord_total a)"
    "effect env (orderId ev) g (Saga_fail (e_now env) reason g)
       (Some (OrderStatus_CANCELLED, fl (dec2 (ord_total a))))
       (Some (cancelled_event env g reason a)) s s'"
proof (cases "loadSagaForStep (orderId ev) SagaStep_RELEASE_STOCK s")
  case None
  with run show ?thesis using ignored by (auto simp: onStockReleased_def transaction_Inr)
next
  case (Some g)
  then have g: "sagaOf (orderId ev) s = Some g" "Saga_canHandle SagaStep_RELEASE_STOCK g"
    by (simp_all add: loadSagaForStep_Some)
  have "performCancellation env g (orderId ev)
      (case sg_lastError g of Some e \<Rightarrow> e | None \<Rightarrow> ''Payment failed'') s = (Inr (), s')"
    using run Some by (simp add: onStockReleased_def transaction_Inr)
  moreover have "sg_status g = SagaStatus_RUNNING" using g(2) by (simp add: Saga_canHandle_def)
  ultimately show ?thesis using performCancellation_effect [OF ids g(1)] moved [OF g] by metis
qed

lemma onPaymentProcessed_effect:
  assumes ids: "ids_ok (e_uuid env) s" "uuid_ok (e_uuid env)"
    and run: "onPaymentProcessed fault env ev s = (Inr (), s')"
  obtains (ignored) "s' = s" "loadSagaForStep (orderId ev) SagaStep_PROCESS_PAYMENT s = None"
  | (moved) g a where "sagaOf (orderId ev) s = Some g" "Saga_canHandle SagaStep_PROCESS_PAYMENT g"
    "orderOf (orderId ev) s = Some a"
    "effect env (orderId ev) g (g\<lparr>sg_currentStep := SagaStep_COMPLETED, sg_status := SagaStatus_COMPLETED,
        sg_nextRetryAt := None, sg_updatedAt := e_now env\<rparr>) None (Some (confirmed_event env g a)) s s'"
proof (cases "loadSagaForStep (orderId ev) SagaStep_PROCESS_PAYMENT s")
  case None
  with run show ?thesis using ignored by (auto simp: onPaymentProcessed_def transaction_Inr)
next
  case (Some g)
  let ?k = "orderId ev"
  let ?g = "g\<lparr>sg_currentStep := SagaStep_COMPLETED, sg_status := SagaStatus_COMPLETED,
        sg_nextRetryAt := None, sg_updatedAt := e_now env\<rparr>"
  have g: "sagaOf ?k s = Some g" "Saga_canHandle SagaStep_PROCESS_PAYMENT g"
    using Some by (simp_all add: loadSagaForStep_Some)
  have adv: "Saga_advance (e_now env) g = Inr h \<longleftrightarrow> h = ?g" for h
    using g(2) by (auto simp: Saga_advance_Inr Saga_canHandle_def)
  from run Some obtain a where
    a: "orderOf ?k (snd (TypeOrmSagaRepository_update env ?g s)) = Some a"
    and s': "s' = TypeOrmOutboxRepository_write env ?k (KAFKA_TOPICS ORDER_CONFIRMED) ?k
      (confirmed_event env g a) (snd (TypeOrmSagaRepository_update env ?g s))"
    by (auto simp: onPaymentProcessed_def transaction_Inr tx_simps saga_update_run confirmed_event_def adv)
  have a': "orderOf ?k s = Some a" using a by (simp add: TypeOrmOrderRepository_findById_def)
  have "effect env ?k g ?g None (Some (confirmed_event env g a)) s s'"
    by (rule effectI_saga [OF ids g(1) move_advance [of g "e_now env"]])
      (use g(2) in \<open>simp_all add: s' adv rows_after_def confirmed_event_def Saga_canHandle_def\<close>)
  then show ?thesis using moved g a' by simp
qed

lemma onPaymentFailed_effect:
  assumes ids: "ids_ok (e_uuid env) s" "uuid_ok (e_uuid env)"
    and run: "onPaymentFailed fault env ev s = (Inr (), s')"
  obtains (ignored) "s' = s" "loadSagaForStep (orderId ev) SagaStep_PROCESS_PAYMENT s = None"
  | (moved) g a where "sagaOf (orderId ev) s = Some g" "Saga_canHandle SagaStep_PROCESS_PAYMENT g"
    "orderOf (orderId ev) s = Some a"
    "effect env (orderId ev) g (Saga_startCompensation (e_now env) (pf_reason ev) g) None
       (Some (release_command g a)) s s'"
proof (cases "loadSagaForStep (orderId ev) SagaStep_PROCESS_PAYMENT s")
  case None
  with run show ?thesis using ignored by (auto simp: onPaymentFailed_def transaction_Inr)
next
  case (Some g)
  let ?k = "orderId ev"
  let ?g = "Saga_startCompensation (e_now env) (pf_reason ev) g"
  have g: "sagaOf ?k s = Some g" "Saga_canHandle SagaStep_PROCESS_PAYMENT g"
    using Some by (simp_all add: loadSagaForStep_Some)
  from run Some obtain a where
    a: "orderOf ?k (snd (TypeOrmSagaRepository_update env ?g s)) = Some a"
    and s': "s' = TypeOrmOutboxRepository_write env ?k (KAFKA_TOPICS RELEASE_STOCK) ?k
      (release_command g a) (snd (TypeOrmSagaRepository_update env ?g s))"
    using saga_repo.find_saga_order [OF g(1)]
    by (auto simp: onPaymentFailed_def transaction_Inr tx_simps saga_update_run release_command_def)
  have a': "orderOf ?k s = Some a" using a by (simp add: TypeOrmOrderRepository_findById_def)
  have "effect env ?k g ?g None (Some (release_command g a)) s s'"
    by (rule effectI_saga [OF ids g(1) move_compensate [OF g(2)]])
      (simp_all add: s' rows_after_def release_command_def Saga_startCompensation_def)
  then show ?thesis using moved g a' by simp
qed

definition reserve_command :: "saga \<Rightarrow> order \<Rightarrow> payload" where
  "reserve_command g o' = ReserveStock \<lparr>commandId = sg_id g, orderId = sg_orderId g,
     correlationId = sg_correlationId g, rs_items = order_lines o'\<rparr>"

fun resent :: "saga_step_name \<Rightarrow> saga \<Rightarrow> order \<Rightarrow> payload option" where
  "resent SagaStep_RESERVE_STOCK g o' = Some (reserve_command g o')"
| "resent SagaStep_PROCESS_PAYMENT g o' = Some (payment_command g o' (ord_total o'))"
| "resent SagaStep_RELEASE_STOCK g o' = Some (release_command g o')"
| "resent _ g o' = None"

lemma resendCommand_resent:
  "resendCommand env g o' s = (case resent (sg_currentStep g) g o' of None \<Rightarrow> s
     | Some p \<Rightarrow> TypeOrmOutboxRepository_write env (sg_orderId g) (KAFKA_TOPICS (payload_topic p)) (sg_orderId g) p s)"
  by (cases "sg_currentStep g")
    (simp_all add: resendCommand_def reserve_command_def message_defs Let_def)

lemma retry_saga_effect:
  assumes ids: "ids_ok (e_uuid (rc_env rc)) s" "uuid_ok (e_uuid (rc_env rc))"
    and run: "retry_saga rc g0 s = (Inr (), s')"
  obtains (ignored) "s' = s"
  | (exceeded) g where "sagaOf (sg_orderId g) s = Some g" "sg_status g = SagaStatus_RUNNING"
    "Saga_hasExceededMaxRetries g"
    "effect (rc_env rc) (sg_orderId g) g
       (Saga_fail (e_now (rc_env rc)) ''Max retries exceeded'' g) None None s s'"
  | (retried) g a where "sagaOf (sg_orderId g) s = Some g" "sg_status g = SagaStatus_RUNNING"
    "\<not> Saga_hasExceededMaxRetries g" "orderOf (sg_orderId g) s = Some a"
    "effect (rc_env rc) (sg_orderId g) g (Saga_scheduleRetry (e_now (rc_env rc)) g) None
       (resent (sg_currentStep g) g a) s s'"
proof (cases "TypeOrmSagaRepository_findByIdSkipLocked (rc_locked rc) (sg_id g0) s")
  case None
  with run show ?thesis using ignored by (auto simp: retry_saga_def transaction_Inr)
next
  case (Some g)
  let ?k = "sg_orderId g" and ?env = "rc_env rc"
  have keys: "saga_keys_ok s" using ids(1) by (simp add: ids_ok_def)
  have g: "sagaOf ?k s = Some g" "sg_status g = SagaStatus_RUNNING"
    using saga_repo.find_running_found [OF Some keys] by simp_all
  show ?thesis
  proof (cases "Saga_hasExceededMaxRetries g")
    case True
    let ?g = "Saga_fail (e_now ?env) ''Max retries exceeded'' g"
    have s': "s' = snd (TypeOrmSagaRepository_update ?env ?g s)"
      using run Some True by (auto simp: retry_saga_def transaction_Inr tx_simps saga_update_run)
    have "effect ?env ?k g ?g None None s s'"
      by (rule effectI_saga [OF ids g(1) move_fail [OF g(2)]])
        (simp_all add: s' rows_after_def Saga_fail_def)
    with exceeded g True show ?thesis by simp
  next
    case False
    let ?g = "Saga_scheduleRetry (e_now ?env) g"
    from run Some False obtain a where
      a: "orderOf ?k (snd (TypeOrmSagaRepository_update ?env ?g s)) = Some a"
      and s': "s' = resendCommand ?env g a (snd (TypeOrmSagaRepository_update ?env ?g s))"
      by (auto simp: retry_saga_def transaction_Inr tx_simps saga_update_run)
    have a': "orderOf ?k s = Some a" using a by (simp add: TypeOrmOrderRepository_findById_def)
    have "effect ?env ?k g ?g None (resent (sg_currentStep g) g a) s s'"
      by (rule effectI_saga [OF ids g(1) move_retry [OF g(2) False]])
        (auto simp: s' rows_after_def Saga_scheduleRetry_def Let_def resendCommand_resent
          split: option.splits)
    with retried g False a' show ?thesis by simp
  qed
qed

subsection \<open>Every handler keeps the invariant\<close>

lemma rows_after_set:
  "set (rows_after env n k p rows) = set rows \<union>
     (case p of None \<Rightarrow> {} | Some q \<Rightarrow> {new_outbox_row env n k (KAFKA_TOPICS (payload_topic q)) k q})"
  by (auto simp: rows_after_def split: option.splits)

lemma rows_on_after:
  "rows_on t (rows_after env n k p rows) =
     rows_on t rows + (case p of None \<Rightarrow> 0 | Some q \<Rightarrow> if payload_topic q = t then 1 else 0)"
  by (auto simp: rows_after_def rows_on_def new_outbox_row_def split: option.splits)

lemma row_ok_new:
  "ord_id b = k \<Longrightarrow> row_ok g b (new_outbox_row env n k (KAFKA_TOPICS (payload_topic q)) k q) = payload_ok g b q"
  by (simp add: row_ok_def new_outbox_row_def)

text \<open>How the old messages of an order fit its new saga and status.\<close>

definition compatible :: "saga \<Rightarrow> order \<Rightarrow> saga \<Rightarrow> order \<Rightarrow> bool" where
  "compatible g a g' b \<longleftrightarrow>
     sg_id g' = sg_id g \<and> sg_orderId g' = sg_orderId g \<and> sg_correlationId g' = sg_correlationId g \<and>
     order_core b = order_core a \<and>
     (sg_currentStep g = SagaStep_RESERVE_STOCK \<or>
        ord_total b = ord_total a \<and> sg_currentStep g' \<noteq> SagaStep_RESERVE_STOCK) \<and>
     sg_currentStep g \<noteq> SagaStep_COMPLETED \<and> ord_status a \<noteq> OrderStatus_CANCELLED \<and>
     (sg_currentStep g \<in> {SagaStep_RELEASE_STOCK, SagaStep_FAILED} \<longrightarrow>
        sg_currentStep g' \<in> {SagaStep_RELEASE_STOCK, SagaStep_FAILED})"

lemma row_ok_compatible:
  assumes "compatible g a g' b" "row_ok g a r"
  shows "row_ok g' b r"
proof -
  have core: "ord_id b = ord_id a" "ord_userId b = ord_userId a" "ord_userEmail b = ord_userEmail a"
    "order_lines b = order_lines a"
    using order_core_fields [of b a] assms(1) by (simp_all add: compatible_def)
  have "payload_ok g' b p" if "payload_ok g a p" for p
    using that assms(1) core by (cases p) (auto simp: compatible_def command_for_def event_for_def)
  with assms core show ?thesis by (simp add: row_ok_def)
qed

text \<open>The step of the invariant for one order, with the arithmetic of its messages.\<close>

lemma pair_ok_step:
  assumes old: "pair_ok g a rows" and comp: "compatible g a g' b" and k: "ord_id a = k"
    and wf: "saga_wf g'" "status_ok (sg_currentStep g') (ord_status b)"
    and tot: "\<exists>x. ord_total b = fl (dec2 x) \<and> fits_decimal 10 x"
    and new: "\<And>q. p = Some q \<Longrightarrow> payload_ok g' b q"
    and conf: "(\<exists>q. p = Some q \<and> payload_topic q = ORDER_CONFIRMED) \<longleftrightarrow> sg_currentStep g' = SagaStep_COMPLETED"
    and canc: "(\<exists>q. p = Some q \<and> payload_topic q = ORDER_CANCELLED) \<longleftrightarrow> ord_status b = OrderStatus_CANCELLED"
  shows "pair_ok g' b (rows_after env n k p rows)"
proof -
  have "ord_id b = k" using order_core_fields [of b a] comp k by (simp add: compatible_def)
  then have "\<forall>r \<in> set (rows_after env n k p rows). row_ok g' b r"
    using old new row_ok_compatible [OF comp] row_ok_new
    by (auto simp: rows_after_set pair_ok_def split: option.splits)
  moreover have "rows_on ORDER_CONFIRMED rows = 0" "rows_on ORDER_CANCELLED rows = 0"
    using old comp by (simp_all add: pair_ok_def compatible_def)
  ultimately show ?thesis
    using wf tot conf canc unfolding pair_ok_def rows_on_after
    by (auto split: option.splits)
qed

lemma stored_total:
  assumes "\<exists>x. t = fl (dec2 x) \<and> fits_decimal 10 x"
  shows "fl (dec2 t) = t"
proof -
  from assms obtain x where x: "t = fl (dec2 x)" "fits_decimal 10 x" by blast
  have "\<bar>dec2 x\<bar> < 10 ^ 10" using x(2) by (simp add: fits_decimal_def)
  then show ?thesis using x(1) by (simp add: dec2_fl_dec2)
qed

lemmas invD = order_inv_def ids_ok_def

lemma inv_pair:
  assumes "order_inv u s" "sagaOf k s = Some g" "orderOf k s = Some a"
  shows "pair_ok g a (rowsOf k s)" "ord_id a = k" "sg_orderId g = k"
proof -
  have "view_ok (sagaOf k s) (orderOf k s) (rowsOf k s)" using assms(1) by (simp add: order_inv_def)
  with assms(2,3) show "pair_ok g a (rowsOf k s)" by simp
  show "ord_id a = k" using assms(3) by (rule order_repo.find_order_id)
  show "sg_orderId g = k" using assms(2) by (rule saga_repo.find_saga_order)
qed

lemma inv_order:
  assumes "order_inv u s" "sagaOf k s = Some g"
  obtains a where "orderOf k s = Some a"
proof -
  have "view_ok (sagaOf k s) (orderOf k s) (rowsOf k s)" using assms(1) by (simp add: order_inv_def)
  with assms(2) that show ?thesis by (cases "orderOf k s") auto
qed

lemmas fit_simps = written_def view_def pair_ok_def compatible_def Saga_canHandle_def saga_wf_def
  message_defs reserve_command_def command_for_def event_for_def

text \<open>A database step appends pending rows to the outbox, and leaves the bus alone.\<close>

definition appends :: "order_db \<Rightarrow> order_db \<Rightarrow> bool" where
  "appends s s' \<longleftrightarrow> (\<exists>ext. outbox s' = outbox s @ ext \<and> (\<forall>r \<in> set ext. ob_status r = OutboxStatus_PENDING))"

lemma appends_refl [simp]: "appends s s"
  by (simp add: appends_def)

lemma appends_trans: "appends s t \<Longrightarrow> appends t v \<Longrightarrow> appends s v"
  by (fastforce simp: appends_def)

lemma effect_appends: "effect env k g g' upd pl s s' \<Longrightarrow> appends s s'"
  by (auto simp: effect_def appends_def rows_after_def new_outbox_row_def split: option.splits)

text \<open>
  Seen from one order, a database step is a run of its saga, and nothing at all once the saga
  has ended.
\<close>

definition moves :: "order_db \<Rightarrow> order_db \<Rightarrow> bool" where
  "moves s s' \<longleftrightarrow> (\<forall>k g. sagaOf k s = Some g \<longrightarrow>
     (\<exists>g'. sagaOf k s' = Some g' \<and> run saga_move g g' \<and>
        (sg_status g \<noteq> SagaStatus_RUNNING \<longrightarrow>
           map_option view (orderOf k s') = map_option view (orderOf k s) \<and>
           map ob_ident (rowsOf k s') = map ob_ident (rowsOf k s))))"

lemma run_saga_ended: "run saga_move g g' \<Longrightarrow> sg_status g \<noteq> SagaStatus_RUNNING \<Longrightarrow> g' = g"
  by (induction rule: run.induct) (auto dest: saga_move_running)

lemma moves_refl [simp]: "moves s s"
  by (auto simp: moves_def intro: run_refl)

lemma moves_trans:
  assumes "moves s t" "moves t v"
  shows "moves s v"
  unfolding moves_def
proof (intro allI impI)
  fix k g
  assume "sagaOf k s = Some g"
  with assms(1) obtain h where h: "sagaOf k t = Some h" "run saga_move g h"
    "sg_status g \<noteq> SagaStatus_RUNNING \<longrightarrow> map_option view (orderOf k t) = map_option view (orderOf k s) \<and>
       map ob_ident (rowsOf k t) = map ob_ident (rowsOf k s)" unfolding moves_def by blast
  with assms(2) obtain i where i: "sagaOf k v = Some i" "run saga_move h i"
    "sg_status h \<noteq> SagaStatus_RUNNING \<longrightarrow> map_option view (orderOf k v) = map_option view (orderOf k t) \<and>
       map ob_ident (rowsOf k v) = map ob_ident (rowsOf k t)" unfolding moves_def by blast
  have "run saga_move g i" using h(2) i(2) by (rule run_trans)
  moreover have "sg_status g \<noteq> SagaStatus_RUNNING \<Longrightarrow> h = g" using run_saga_ended [OF h(2)] .
  ultimately show "\<exists>g'. sagaOf k v = Some g' \<and> run saga_move g g' \<and> (sg_status g \<noteq> SagaStatus_RUNNING \<longrightarrow>
      map_option view (orderOf k v) = map_option view (orderOf k s) \<and>
      map ob_ident (rowsOf k v) = map ob_ident (rowsOf k s))"
    using h(3) i(1,3) by auto
qed

lemma effect_moves:
  assumes eff: "effect env k g g' upd pl s s'"
  shows "moves s s'"
  unfolding moves_def
proof (intro allI impI)
  fix j h
  assume h: "sagaOf j s = Some h"
  have g: "sagaOf k s = Some g" "saga_move g g'" using eff by (simp_all add: effect_def)
  show "\<exists>g'. sagaOf j s' = Some g' \<and> run saga_move h g' \<and> (sg_status h \<noteq> SagaStatus_RUNNING \<longrightarrow>
      map_option view (orderOf j s') = map_option view (orderOf j s) \<and>
      map ob_ident (rowsOf j s') = map ob_ident (rowsOf j s))"
  proof (cases "j = k")
    case True
    with g h have "run saga_move h g'" "sg_status h = SagaStatus_RUNNING"
      using run_step [of saga_move g g g'] run_refl [of saga_move g] saga_move_running [OF g(2)] by auto
    with True eff show ?thesis by (simp add: effect_def)
  next
    case False
    with h eff effect_rows [OF eff] show ?thesis by (simp add: effect_def run_refl)
  qed
qed

definition keeps :: "env \<Rightarrow> order_db \<Rightarrow> order_db \<Rightarrow> bool" where
  "keeps env s s' \<longleftrightarrow> order_inv (e_uuid env) s' \<and> appends s s' \<and> moves s s'"

lemma keeps_refl: "order_inv (e_uuid env) s \<Longrightarrow> keeps env s s"
  by (simp add: keeps_def)

text \<open>What has to be shown of a handler's effect, for the one order it is about.\<close>

lemma effect_keeps_inv:
  assumes inv: "order_inv (e_uuid env) s" and eff: "effect env k g g' upd pl s s'"
    and a: "orderOf k s = Some a"
    and fit: "\<And>b. pair_ok g a (rowsOf k s) \<Longrightarrow> sg_orderId g = k \<Longrightarrow>
        ord_id b = k \<and> ord_userId b = ord_userId a \<and> ord_userEmail b = ord_userEmail a \<and>
        order_lines b = order_lines a \<Longrightarrow>
        order_core b = order_core a \<Longrightarrow> (ord_status b, ord_total b) = written upd a \<Longrightarrow>
      compatible g a g' b \<and> saga_wf g' \<and> status_ok (sg_currentStep g') (ord_status b) \<and>
      (\<exists>x. ord_total b = fl (dec2 x) \<and> fits_decimal 10 x) \<and> (\<forall>q. pl = Some q \<longrightarrow> payload_ok g' b q) \<and>
      ((\<exists>q. pl = Some q \<and> payload_topic q = ORDER_CONFIRMED) \<longleftrightarrow> sg_currentStep g' = SagaStep_COMPLETED) \<and>
      ((\<exists>q. pl = Some q \<and> payload_topic q = ORDER_CANCELLED) \<longleftrightarrow> ord_status b = OrderStatus_CANCELLED)"
  shows "keeps env s s'"
proof -
  have "order_inv (e_uuid env) s'"
  proof (rule effect_inv [OF inv eff])
  fix a' b
  assume a': "orderOf k s = Some a'" and core: "order_core b = order_core a'" and v: "view b = written upd a'"
  have eq: "a' = a" using a a' by simp
  have g: "sagaOf k s = Some g" using eff by (simp add: effect_def)
  note pair = inv_pair [OF inv g a]
  have "ord_id b = k \<and> ord_userId b = ord_userId a \<and> ord_userEmail b = ord_userEmail a \<and>
      order_lines b = order_lines a"
    using order_core_fields [OF core] pair(2) eq by simp
  from fit [OF pair(1,3) this] core v eq
  show "pair_ok g' b (rows_after env (seq s) k pl (rowsOf k s))"
    by (intro pair_ok_step [OF pair(1) _ pair(2)]) (simp_all add: view_def)
  qed
  then show ?thesis using effect_appends [OF eff] effect_moves [OF eff] by (simp add: keeps_def)
qed

lemma onStockReserved_inv:
  assumes inv: "order_inv (e_uuid env) s" and u: "uuid_ok (e_uuid env)"
    and run: "onStockReserved fault env ev s = (Inr (), s')"
  shows "keeps env s s'"
proof -
  have ids: "ids_ok (e_uuid env) s" using inv by (simp add: order_inv_def)
  from ids u run show ?thesis
  proof (cases rule: onStockReserved_effect)
    case (moved g a)
    show ?thesis
      by (rule effect_keeps_inv [OF inv moved(6,3)]) (use moved in \<open>auto simp: fit_simps\<close>)
  qed (use keeps_refl [OF inv] in simp)
qed

lemma cancellation_inv:
  assumes inv: "order_inv (e_uuid env) s" and a: "orderOf k s = Some a"
    and run: "sg_status g = SagaStatus_RUNNING"
    and eff: "effect env k g (Saga_fail (e_now env) reason g)
       (Some (OrderStatus_CANCELLED, fl (dec2 (ord_total a)))) (Some (cancelled_event env g reason a)) s s'"
  shows "keeps env s s'"
proof (rule effect_keeps_inv [OF inv eff a])
  fix b
  assume p: "pair_ok g a (rowsOf k s)" and "order_core b = order_core a"
    "ord_id b = k \<and> ord_userId b = ord_userId a \<and> ord_userEmail b = ord_userEmail a \<and>
        order_lines b = order_lines a"
    and v: "(ord_status b, ord_total b) = written (Some (OrderStatus_CANCELLED, fl (dec2 (ord_total a)))) a"
  moreover have "fl (dec2 (ord_total a)) = ord_total a"
    using p by (intro stored_total) (simp add: pair_ok_def)
  moreover have "ord_status a \<noteq> OrderStatus_CANCELLED" "sg_currentStep g \<noteq> SagaStep_COMPLETED"
    using p run by (auto simp: pair_ok_def saga_wf_def)
  ultimately show "compatible g a (Saga_fail (e_now env) reason g) b \<and> saga_wf (Saga_fail (e_now env) reason g) \<and>
      status_ok (sg_currentStep (Saga_fail (e_now env) reason g)) (ord_status b) \<and>
      (\<exists>x. ord_total b = fl (dec2 x) \<and> fits_decimal 10 x) \<and>
      (\<forall>q. Some (cancelled_event env g reason a) = Some q \<longrightarrow> payload_ok (Saga_fail (e_now env) reason g) b q) \<and>
      ((\<exists>q. Some (cancelled_event env g reason a) = Some q \<and> payload_topic q = ORDER_CONFIRMED) \<longleftrightarrow>
        sg_currentStep (Saga_fail (e_now env) reason g) = SagaStep_COMPLETED) \<and>
      ((\<exists>q. Some (cancelled_event env g reason a) = Some q \<and> payload_topic q = ORDER_CANCELLED) \<longleftrightarrow>
        ord_status b = OrderStatus_CANCELLED)"
    using inv_pair(2) [OF inv _ a] eff by (auto simp: fit_simps Saga_fail_def effect_def)
qed

lemma onStockReservationFailed_inv:
  assumes inv: "order_inv (e_uuid env) s" and u: "uuid_ok (e_uuid env)"
    and run: "onStockReservationFailed fault env ev s = (Inr (), s')"
  shows "keeps env s s'"
proof -
  have ids: "ids_ok (e_uuid env) s" using inv by (simp add: order_inv_def)
  from ids u run show ?thesis
    by (cases rule: onStockReservationFailed_effect)
      (use keeps_refl [OF inv] inv in \<open>auto simp: Saga_canHandle_def intro: cancellation_inv\<close>)
qed

lemma onStockReleased_inv:
  assumes inv: "order_inv (e_uuid env) s" and u: "uuid_ok (e_uuid env)"
    and run: "onStockReleased fault env ev s = (Inr (), s')"
  shows "keeps env s s'"
proof -
  have ids: "ids_ok (e_uuid env) s" using inv by (simp add: order_inv_def)
  from ids u run show ?thesis
    by (cases rule: onStockReleased_effect)
      (use keeps_refl [OF inv] inv in \<open>auto simp: Saga_canHandle_def intro: cancellation_inv\<close>)
qed

lemma onPaymentProcessed_inv:
  assumes inv: "order_inv (e_uuid env) s" and u: "uuid_ok (e_uuid env)"
    and run: "onPaymentProcessed fault env ev s = (Inr (), s')"
  shows "keeps env s s'"
proof -
  have ids: "ids_ok (e_uuid env) s" using inv by (simp add: order_inv_def)
  from ids u run show ?thesis
  proof (cases rule: onPaymentProcessed_effect)
    case (moved g a)
    show ?thesis
      by (rule effect_keeps_inv [OF inv moved(4,3)])
        (use moved inv_pair(2) [OF inv moved(1,3)] in \<open>auto simp: fit_simps\<close>)
  qed (use keeps_refl [OF inv] in simp)
qed

lemma onPaymentFailed_inv:
  assumes inv: "order_inv (e_uuid env) s" and u: "uuid_ok (e_uuid env)"
    and run: "onPaymentFailed fault env ev s = (Inr (), s')"
  shows "keeps env s s'"
proof -
  have ids: "ids_ok (e_uuid env) s" using inv by (simp add: order_inv_def)
  from ids u run show ?thesis
  proof (cases rule: onPaymentFailed_effect)
    case (moved g a)
    show ?thesis
      by (rule effect_keeps_inv [OF inv moved(4,3)])
        (use moved in \<open>auto simp: fit_simps Saga_startCompensation_def\<close>)
  qed (use keeps_refl [OF inv] in simp)
qed

lemma retry_saga_inv:
  assumes inv: "order_inv (e_uuid (rc_env rc)) s" and u: "uuid_ok (e_uuid (rc_env rc))"
    and run: "retry_saga rc g0 s = (Inr (), s')"
  shows "keeps (rc_env rc) s s'"
proof -
  have ids: "ids_ok (e_uuid (rc_env rc)) s" using inv by (simp add: order_inv_def)
  from ids u run show ?thesis
  proof (cases rule: retry_saga_effect)
    case (exceeded g)
    obtain a where a: "orderOf (sg_orderId g) s = Some a" using inv exceeded(1) by (rule inv_order)
    show ?thesis
      by (rule effect_keeps_inv [OF inv exceeded(4) a])
        (use exceeded in \<open>auto simp: fit_simps Saga_fail_def\<close>)
  next
    case (retried g a)
    have tot: "fl (dec2 (ord_total a)) = ord_total a"
      using inv_pair(1) [OF inv retried(1,4)] by (intro stored_total) (simp add: pair_ok_def)
    show ?thesis
      by (rule effect_keeps_inv [OF inv retried(5,4)])
        (use retried tot in \<open>auto simp: fit_simps Saga_scheduleRetry_def Saga_hasExceededMaxRetries_def\<close>)
  qed (use keeps_refl [OF inv] in simp)
qed

subsection \<open>Creating an order\<close>

lemma insert_items_lines:
  "map (\<lambda>i. (oie_productId i, oie_quantity i)) (insert_items env n k is) =
     map (\<lambda>i. (oin_productId i, oin_quantity i)) is"
  by (induction "is" arbitrary: n) auto

text \<open>The rows a successful creation adds, under the ids generated for them.\<close>

definition created_order :: "env \<Rightarrow> nat \<Rightarrow> string \<Rightarrow> create_order_input \<Rightarrow> order_orm" where
  "created_order env n email input = store_order
     \<lparr>oe_id = e_uuid env n, oe_userId = in_userId input, oe_userEmail = email,
      oe_status = OrderStatus_PENDING, oe_total = 0,
      oe_items = insert_items env (Suc n) (e_uuid env n)
        (on_items (OrderMapper_toOrm (Order_create (e_now env) (in_userId input) email (in_items input)))),
      oe_createdAt = e_now env, oe_updatedAt = e_now env\<rparr>"

definition created_saga :: "env \<Rightarrow> nat \<Rightarrow> string \<Rightarrow> create_order_input \<Rightarrow> saga_state_orm" where
  "created_saga env m k input =
     \<lparr>se_id = e_uuid env m, se_orderId = k, se_currentStep = SagaStep_RESERVE_STOCK,
      se_status = SagaStatus_RUNNING, se_retryCount = 0, se_correlationId = Some (in_correlationId input),
      se_lastError = None, se_nextRetryAt = Some (e_now env + RETRY_TIMEOUT_MS),
      se_createdAt = e_now env, se_updatedAt = e_now env\<rparr>"

definition created_command :: "env \<Rightarrow> nat \<Rightarrow> string \<Rightarrow> create_order_input \<Rightarrow> payload" where
  "created_command env m k input = ReserveStock \<lparr>commandId = e_uuid env m, orderId = k,
     correlationId = in_correlationId input, rs_items = in_items input\<rparr>"

lemma create_run:
  assumes "CreateOrderUseCase_execute fault env input s = (Inr r, s')"
  obtains email m where "in_userEmail input = Some email" "m = seq s + 1 + length (in_items input)"
    "\<forall>i \<in> set (in_items input). fits_int4 (ci_quantity i)"
    "orders s' = orders s @ [created_order env (seq s) email input]"
    "saga_states s' = saga_states s @ [created_saga env m (e_uuid env (seq s)) input]"
    "outbox s' = outbox s @ [new_outbox_row env (Suc m) (e_uuid env (seq s)) (KAFKA_TOPICS RESERVE_STOCK)
       (e_uuid env (seq s)) (created_command env m (e_uuid env (seq s)) input)]"
    "seq s' = Suc (Suc m)" "or_id r = e_uuid env (seq s)" "or_status r = ''pending''" "or_total r = 0"
    "row_of se_orderId (e_uuid env (seq s)) (saga_states s) = None"
proof -
  have len: "length (on_items (OrderMapper_toOrm (Order_create now i e its))) = length its" for now i e its
    by (simp add: OrderMapper_toOrm_def Order_create_def)
  have "on_items (OrderMapper_toOrm (Order_create now i e its)) = [] \<longleftrightarrow> its = []" for now i e its
    by (simp add: OrderMapper_toOrm_def Order_create_def)
  with assms len show ?thesis
    by (cases "in_userEmail input")
      (auto simp: CreateOrderUseCase_execute_def transaction_Inr tx_simps TypeOrmOrderRepository_save_def
        TypeOrmSagaRepository_save_def TypeOrmOutboxRepository_write_def Let_def created_order_def
        created_saga_def created_command_def Saga_create_def SagaMapper_toOrm_def SagaMapper_toDomain_def
        OrderMapper_toDomain_def order_toResult_def Order_create_def OrderMapper_toOrm_def
        split: if_splits intro!: that)
qed

lemma created_order_lines:
  "order_lines (OrderMapper_toDomain (created_order env n email input)) = in_items input"
proof -
  let ?its = "on_items (OrderMapper_toOrm (Order_create (e_now env) (in_userId input) email (in_items input)))"
  have "order_lines (OrderMapper_toDomain (created_order env n email input)) =
      map (\<lambda>(p, q). \<lparr>ci_productId = p, ci_quantity = q\<rparr>)
        (map (\<lambda>i. (oie_productId i, oie_quantity i)) (insert_items env (Suc n) (e_uuid env n) ?its))"
    by (simp add: order_lines_def OrderMapper_toDomain_def created_order_def store_order_def store_item_def comp_def)
  also have "\<dots> = in_items input"
    unfolding insert_items_lines
    by (simp add: OrderMapper_toOrm_def Order_create_def comp_def, rule map_idI) simp
  finally show ?thesis .
qed

lemma created_pair_ok:
  "pair_ok (SagaMapper_toDomain (created_saga env m k input))
     (OrderMapper_toDomain (created_order env n email input))
     [new_outbox_row env l k (KAFKA_TOPICS RESERVE_STOCK) k (created_command env m k input)]"
  if "k = e_uuid env n"
proof -
  let ?o = "OrderMapper_toDomain (created_order env n email input)"
  let ?g = "SagaMapper_toDomain (created_saga env m k input)"
  have o: "ord_id ?o = k" "ord_status ?o = OrderStatus_PENDING" "ord_total ?o = 0"
    using that by (simp_all add: OrderMapper_toDomain_def created_order_def store_order_def)
  have "saga_wf ?g" by (simp add: saga_wf_def created_saga_def SagaMapper_toDomain_def)
  moreover have "row_ok ?g ?o (new_outbox_row env l k (KAFKA_TOPICS RESERVE_STOCK) k (created_command env m k input))"
    using o(1) created_order_lines [of env n email input]
    by (simp add: row_ok_def new_outbox_row_def created_command_def command_for_def created_saga_def
        SagaMapper_toDomain_def)
  moreover have "\<exists>x. ord_total ?o = fl (dec2 x) \<and> fits_decimal 10 x"
    using o(3) by (intro exI [of _ 0]) (simp add: fits_decimal_def)
  moreover have "sg_currentStep ?g = SagaStep_RESERVE_STOCK" by (simp add: created_saga_def)
  ultimately show ?thesis
    using o by (simp add: pair_ok_def rows_on_def new_outbox_row_def created_command_def)
qed

lemma outbox_ids_mono:
  "outbox_ids_ok u s \<Longrightarrow> outbox s' = outbox s \<Longrightarrow> seq s \<le> seq s' \<Longrightarrow> outbox_ids_ok u s'"
  unfolding outbox_ids_ok_def using image_mono [of "{..<seq s}" "{..<seq s'}" u] by auto

lemma create_ids:
  assumes "ids_ok u s" "uuid_ok u" "u = e_uuid env" "seq s \<le> m" "seq s' = Suc (Suc m)" "n = seq s" "n < m"
    and "orders s' = orders s @ [r]" "oe_id r = u n"
    and "saga_states s' = saga_states s @ [g]" "se_id g = u m" "se_orderId g \<notin> set (map se_orderId (saga_states s))"
    and "outbox s' = outbox s @ [new_outbox_row env (Suc m) k t k p]" "prices_stored s'"
  shows "ids_ok u s'"
proof -
  have sub: "u ` {..<seq s} \<subseteq> u ` {..<seq s'}" using assms(4,5) by (intro image_mono) auto
  have new: "u n \<in> u ` {..<seq s'}" "u m \<in> u ` {..<seq s'}" using assms(5,7) by auto
  have fresh: "u n \<notin> set (map oe_id (orders s))" "u m \<notin> set (map se_id (saga_states s))"
    using assms(1,2,4,6) fresh_id [of u _ "seq s"] by (simp_all add: ids_ok_def del: set_map)
  let ?s = "s\<lparr>seq := Suc m\<rparr>"
  have "outbox_ids_ok u ?s"
    using assms(1,4) outbox_ids_mono [of u s ?s] by (simp add: ids_ok_def)
  from repo_outbox.put_keeps_ids [OF assms(2) [unfolded assms(3)] this [unfolded assms(3)], of k t k p]
  have "outbox_ids_ok u s'"
    using assms(3,5,13) by (simp add: outbox_ids_ok_def)
  then show ?thesis
    using assms sub new fresh by (auto simp: ids_ok_def saga_keys_ok_def)
qed

lemma insert_items_price:
  "i \<in> set (insert_items env n k is) \<Longrightarrow> \<exists>j \<in> set is. oie_unitPrice i = oin_unitPrice j"
  by (induction "is" arbitrary: n) auto

lemma created_prices:
  assumes "prices_stored s" "orders s' = orders s @ [created_order env n email input]"
  shows "prices_stored s'"
proof -
  have "\<exists>x. oie_unitPrice i = dec2 x \<and> fits_decimal 10 x" if i: "i \<in> set (oe_items (created_order env n email input))" for i
  proof -
    from i obtain j where "i = store_item j" "oie_unitPrice j = 0"
      by (auto simp: created_order_def store_order_def OrderMapper_toOrm_def Order_create_def
          dest!: insert_items_price)
    then show ?thesis by (intro exI [of _ 0]) (simp add: store_item_def fits_decimal_def)
  qed
  with assms show ?thesis by (auto simp: prices_stored_def)
qed

lemma create_inv:
  assumes inv: "order_inv (e_uuid env) s" and u: "uuid_ok (e_uuid env)"
    and run: "CreateOrderUseCase_execute fault env input s = (Inr r, s')"
  shows "keeps env s s'"
proof -
  let ?k = "e_uuid env (seq s)"
  from run obtain email m where m: "m = seq s + 1 + length (in_items input)"
    and ords: "orders s' = orders s @ [created_order env (seq s) email input]"
    and sagas: "saga_states s' = saga_states s @ [created_saga env m ?k input]"
    and rows: "outbox s' = outbox s @ [new_outbox_row env (Suc m) ?k (KAFKA_TOPICS RESERVE_STOCK) ?k
       (created_command env m ?k input)]"
    and n: "seq s' = Suc (Suc m)" "row_of se_orderId ?k (saga_states s) = None"
    by (rule create_run)
  have ids: "ids_ok (e_uuid env) s" using inv by (simp add: order_inv_def)
  have oid: "oe_id (created_order env (seq s) email input) = ?k"
    and gid: "se_id (created_saga env m ?k input) = e_uuid env m" "se_orderId (created_saga env m ?k input) = ?k"
    by (simp_all add: created_order_def store_order_def created_saga_def)
  have "?k \<notin> set (map se_orderId (saga_states s))" using n(2) by (simp add: row_of_None)
  then have "ids_ok (e_uuid env) s'"
    using m gid created_prices [OF _ ords] ids
    by (intro create_ids [OF ids u refl _ n(1) refl _ ords oid sagas gid(1) _ rows]) (simp_all add: ids_ok_def)
  moreover have "view_ok (sagaOf j s') (orderOf j s') (rowsOf j s')" for j
  proof (cases "j = ?k")
    case True
    have none: "row_of oe_id ?k (orders s) = None" "sagaOf ?k s = None"
      using ids fresh_id [OF u, of "map oe_id (orders s)" "seq s" "seq s"] n(2)
      by (simp_all add: ids_ok_def row_of_None TypeOrmSagaRepository_findByOrderIdWithLock_def)
    have "view_ok (sagaOf ?k s) (orderOf ?k s) (rowsOf ?k s)" using inv by (simp add: order_inv_def)
    with none have "rowsOf ?k s = []" by (simp add: TypeOrmOrderRepository_findById_def)
    with True none n(2) ords sagas rows oid gid created_pair_ok [of ?k env "seq s" m input email "Suc m"]
    show ?thesis by (simp add: repo_defs rowsOf_def row_of_snoc new_outbox_row_def)
  next
    case False
    have "view_ok (sagaOf j s) (orderOf j s) (rowsOf j s)" using inv by (simp add: order_inv_def)
    with False ords sagas rows oid gid show ?thesis
      by (simp add: repo_defs rowsOf_def row_of_snoc new_outbox_row_def)
  qed
  moreover have "appends s s'" using rows by (auto simp: appends_def new_outbox_row_def)
  moreover have "moves s s'"
    using ords sagas rows n(2) oid gid
    by (auto simp: moves_def repo_defs rowsOf_def row_of_snoc new_outbox_row_def intro: run_refl)
  ultimately show ?thesis by (simp add: keeps_def order_inv_def)
qed

subsection \<open>The steps of the service\<close>

record order_service =
  os_db :: order_db
  os_bus :: "payload kafka_message list"
  os_proc :: processor

inductive order_step :: "(nat \<Rightarrow> string) \<Rightarrow> order_service \<Rightarrow> order_service \<Rightarrow> bool" for u where
  step_create: "e_uuid env = u \<Longrightarrow>
    order_step u st (st\<lparr>os_db := snd (CreateOrderUseCase_execute fault env input (os_db st))\<rparr>)"
| step_reply: "e_uuid env = u \<Longrightarrow>
    order_step u st (st\<lparr>os_db := snd (saga_reply fault env pl (os_db st))\<rparr>)"
| step_timer: "(\<And>i. e_uuid (rc_env (rcs i)) = u) \<Longrightarrow>
    order_step u st (st\<lparr>os_db := retryStuckSagas query rcs (os_db st)\<rparr>)"
| step_tick: "order_processPending env b db_fault locked (os_proc st) (outbox (os_db st), os_bus st) =
      (p', rows', bus') \<Longrightarrow>
    order_step u st (st\<lparr>os_db := (os_db st)\<lparr>outbox := rows'\<rparr>, os_bus := bus', os_proc := p'\<rparr>)"

inductive_cases order_stepE: "order_step u st st'"

definition service_initial :: "(nat \<Rightarrow> string) \<Rightarrow> order_service \<Rightarrow> bool" where
  "service_initial u st \<longleftrightarrow> uuid_ok u \<and> order_db_initial (os_db st) \<and> os_bus st = []"

definition service_inv :: "(nat \<Rightarrow> string) \<Rightarrow> order_service \<Rightarrow> bool" where
  "service_inv u st \<longleftrightarrow>
     uuid_ok u \<and> order_inv u (os_db st) \<and> delivered_inv (outbox (os_db st), os_bus st) \<and>
     (\<forall>m \<in> set (os_bus st). \<exists>r \<in> set (outbox (os_db st)). carries r m)"

lemma handle_state [simp]: "snd (SagaReplyController_handle fn s) = snd (fn s)"
  by (auto simp: SagaReplyController_handle_def try_catch_def ret_def raise_def
      split: prod.splits sum.splits order_error.splits)

text \<open>A handler that throws has rolled back.\<close>

lemma rolled_back:
  assumes "\<And>a s'. h s = (Inr a, s') \<Longrightarrow> P s'" "\<And>e. fst (h s) = Inl e \<Longrightarrow> snd (h s) = s" "P s"
  shows "P (snd (h s))"
  by (cases "h s"; cases "fst (h s)") (use assms in auto)

lemma handlers_roll_back:
  "fst (onStockReserved fault env e1 s) = Inl e \<Longrightarrow> snd (onStockReserved fault env e1 s) = s"
  "fst (onStockReservationFailed fault env e2 s) = Inl e \<Longrightarrow> snd (onStockReservationFailed fault env e2 s) = s"
  "fst (onPaymentProcessed fault env e3 s) = Inl e \<Longrightarrow> snd (onPaymentProcessed fault env e3 s) = s"
  "fst (onPaymentFailed fault env e4 s) = Inl e \<Longrightarrow> snd (onPaymentFailed fault env e4 s) = s"
  "fst (onStockReleased fault env e5 s) = Inl e \<Longrightarrow> snd (onStockReleased fault env e5 s) = s"
  "fst (retry_saga rc g s) = Inl e \<Longrightarrow> snd (retry_saga rc g s) = s"
  "fst (CreateOrderUseCase_execute fault env input s) = Inl e \<Longrightarrow>
     snd (CreateOrderUseCase_execute fault env input s) = s"
  by (simp_all add: onStockReserved_def onStockReservationFailed_def onPaymentProcessed_def
      onPaymentFailed_def onStockReleased_def retry_saga_def CreateOrderUseCase_execute_def transaction_Inl)

lemma saga_reply_keeps:
  assumes inv: "order_inv (e_uuid env) s" and u: "uuid_ok (e_uuid env)"
  shows "keeps env s (snd (saga_reply fault env pl s))"
proof (cases pl)
  case (StockReserved e)
  then show ?thesis
    using rolled_back [of "onStockReserved fault env e" s "keeps env s", OF _ handlers_roll_back(1) keeps_refl [OF inv]]
      onStockReserved_inv [OF inv u] by (simp add: saga_reply_def)
next
  case (StockReservationFailed e)
  then show ?thesis
    using rolled_back [of "onStockReservationFailed fault env e" s "keeps env s", OF _ handlers_roll_back(2) keeps_refl [OF inv]]
      onStockReservationFailed_inv [OF inv u] by (simp add: saga_reply_def)
next
  case (PaymentProcessed e)
  then show ?thesis
    using rolled_back [of "onPaymentProcessed fault env e" s "keeps env s", OF _ handlers_roll_back(3) keeps_refl [OF inv]]
      onPaymentProcessed_inv [OF inv u] by (simp add: saga_reply_def)
next
  case (PaymentFailed e)
  then show ?thesis
    using rolled_back [of "onPaymentFailed fault env e" s "keeps env s", OF _ handlers_roll_back(4) keeps_refl [OF inv]]
      onPaymentFailed_inv [OF inv u] by (simp add: saga_reply_def)
next
  case (StockReleased e)
  then show ?thesis
    using rolled_back [of "onStockReleased fault env e" s "keeps env s", OF _ handlers_roll_back(5) keeps_refl [OF inv]]
      onStockReleased_inv [OF inv u] by (simp add: saga_reply_def)
qed (use keeps_refl [OF inv] in \<open>simp_all add: saga_reply_def ret_def\<close>)

lemma keeps_trans: "keeps env s t \<Longrightarrow> keeps env t v \<Longrightarrow> keeps env s v"
  by (auto simp: keeps_def intro: appends_trans moves_trans)

lemma create_keeps:
  assumes inv: "order_inv (e_uuid env) s" and u: "uuid_ok (e_uuid env)"
  shows "keeps env s (snd (CreateOrderUseCase_execute fault env input s))"
  by (rule rolled_back [of "CreateOrderUseCase_execute fault env input" s "keeps env s"])
    (auto intro: handlers_roll_back(7) keeps_refl [OF inv] create_inv [OF inv u])

lemma retry_saga_keeps:
  assumes inv: "order_inv (e_uuid (rc_env rc)) s" and u: "uuid_ok (e_uuid (rc_env rc))"
  shows "keeps (rc_env rc) s (snd (retry_saga rc g s))"
  by (rule rolled_back [of "retry_saga rc g" s "keeps (rc_env rc) s"])
    (auto intro: handlers_roll_back(6) keeps_refl [OF inv] retry_saga_inv [OF inv u])

lemma retry_each_keeps:
  assumes "order_inv u s" "uuid_ok u" "\<And>i. e_uuid (rc_env (rcs i)) = u"
  shows "order_inv u (retry_each rcs i gs s) \<and> appends s (retry_each rcs i gs s) \<and>
    moves s (retry_each rcs i gs s)"
  using assms(1)
proof (induction gs arbitrary: i s)
  case (Cons g gs)
  have "keeps (rc_env (rcs i)) s (snd (retry_saga (rcs i) g s))"
    using Cons.prems assms(2,3) by (intro retry_saga_keeps) simp_all
  then have "order_inv u (snd (retry_saga (rcs i) g s))" "appends s (snd (retry_saga (rcs i) g s))"
    "moves s (snd (retry_saga (rcs i) g s))"
    by (simp_all add: keeps_def assms(3))
  with Cons.IH [of "snd (retry_saga (rcs i) g s)" "Suc i"] show ?case
    by (auto intro: appends_trans moves_trans)
qed simp

subsection \<open>The outbox processor keeps the invariant\<close>

lemma map_ident_filter:
  assumes "map ob_ident rows' = map ob_ident rows"
  shows "map ob_ident (filter (\<lambda>r. ob_aggregateId r = k) rows') = map ob_ident (filter (\<lambda>r. ob_aggregateId r = k) rows)"
  using assms
proof (induction rows arbitrary: rows')
  case (Cons r rows)
  then obtain r' rest where "rows' = r' # rest" "ob_ident r' = ob_ident r" "map ob_ident rest = map ob_ident rows"
    by auto
  moreover from this have "ob_aggregateId r' = ob_aggregateId r" by (simp add: ob_ident_def)
  ultimately show ?case using Cons.IH [of rest] by simp
qed simp

lemma pair_ok_ident:
  assumes "map ob_ident rows' = map ob_ident rows"
  shows "pair_ok g a rows' = pair_ok g a rows"
proof -
  let ?P = "\<lambda>r. payload_ok g a (ob_payload r) \<and> ob_messageKey r = ord_id a \<and>
      ob_topic r = KAFKA_TOPICS (payload_topic (ob_payload r))"
  have ident: "row_ok g a r = row_ok g a r'" "ob_payload r = ob_payload r'" if "ob_ident r = ob_ident r'" for r r'
    using that by (simp_all add: row_ok_def ob_ident_def)
  have "(\<forall>r \<in> set rows'. row_ok g a r) = (\<forall>r \<in> set rows. row_ok g a r) \<and>
      (\<forall>t. rows_on t rows' = rows_on t rows) \<and> (rows' = []) = (rows = [])"
    using assms
  proof (induction rows arbitrary: rows')
    case (Cons r rows)
    then obtain r' rest where "rows' = r' # rest" "ob_ident r' = ob_ident r" "map ob_ident rest = map ob_ident rows"
      by auto
    with Cons.IH [of rest] ident [of r' r] show ?case by (auto simp: rows_on_def)
  qed (simp add: rows_on_def)
  then show ?thesis by (simp add: pair_ok_def)
qed

lemma tick_keeps_inv:
  assumes inv: "order_inv u s" and same: "map ob_ident rows' = map ob_ident (outbox s)"
  shows "order_inv u (s\<lparr>outbox := rows'\<rparr>)"
proof -
  let ?s = "s\<lparr>outbox := rows'\<rparr>"
  have ids: "map ob_id rows' = map ob_id (outbox s)"
    using arg_cong [OF same, of "map fst"] by (simp add: ob_ident_def comp_def)
  then have "outbox_ids_ok u ?s = outbox_ids_ok u s"
    unfolding outbox_ids_ok_def by simp
  then have "ids_ok u ?s" using inv by (simp add: order_inv_def ids_ok_def saga_keys_ok_def prices_stored_def)
  moreover have "view_ok (sagaOf k ?s) (orderOf k ?s) (rowsOf k ?s)" for k
  proof -
    have old: "view_ok (sagaOf k s) (orderOf k s) (rowsOf k s)" using inv by (simp add: order_inv_def)
    have m: "map ob_ident (rowsOf k ?s) = map ob_ident (rowsOf k s)"
      using map_ident_filter [OF same, of k] by (simp add: rowsOf_def)
    have "sagaOf k ?s = sagaOf k s" "orderOf k ?s = orderOf k s"
      by (rule sagaOf_cong, simp, rule orderOf_cong, simp)
    with old m pair_ok_ident [OF m] show ?thesis
      by (cases "sagaOf k s"; cases "orderOf k s") auto
  qed
  ultimately show ?thesis by (simp add: order_inv_def)
qed

lemma appends_delivery:
  assumes "appends s s'" "delivered_inv (outbox s, bus)" "\<forall>m \<in> set bus. \<exists>r \<in> set (outbox s). carries r m"
  shows "delivered_inv (outbox s', bus) \<and> (\<forall>m \<in> set bus. \<exists>r \<in> set (outbox s'). carries r m)"
  using assms by (fastforce simp: appends_def delivered_inv_def)

lemma ident_carried:
  assumes "map ob_ident rows' = map ob_ident rows" "r \<in> set rows" "carries r m"
  shows "\<exists>r' \<in> set rows'. carries r' m"
proof -
  have "ob_ident r \<in> set (map ob_ident rows')" using assms(1,2) by simp
  then obtain r' where "r' \<in> set rows'" "ob_ident r' = ob_ident r" by auto
  with assms(3) carries_ident show ?thesis by blast
qed

lemma order_step_inv:
  assumes "order_step u st st'" "service_inv u st"
  shows "service_inv u st'"
proof -
  have u: "uuid_ok u" and inv: "order_inv u (os_db st)" and del: "delivered_inv (outbox (os_db st), os_bus st)"
    and src: "\<forall>m \<in> set (os_bus st). \<exists>r \<in> set (outbox (os_db st)). carries r m"
    using assms(2) by (auto simp: service_inv_def)
  have db: "service_inv u (st\<lparr>os_db := s'\<rparr>)" if "order_inv u s'" "appends (os_db st) s'" for s'
    using that u appends_delivery [OF that(2) del src] by (simp add: service_inv_def)
  from assms(1) show ?thesis
  proof cases
    case (step_create env fault input)
    with create_keeps [of env "os_db st" fault input] inv u db show ?thesis
      by (simp add: keeps_def)
  next
    case (step_reply env fault pl)
    with saga_reply_keeps [of env "os_db st" fault pl] inv u db show ?thesis
      by (simp add: keeps_def)
  next
    case (step_timer rcs query)
    have "order_inv u (retryStuckSagas query rcs (os_db st)) \<and>
        appends (os_db st) (retryStuckSagas query rcs (os_db st))"
      using retry_each_keeps [OF inv u step_timer(2)] inv
      by (simp add: retryStuckSagas_def split: option.splits)
    with step_timer(1) db show ?thesis by simp
  next
    case (step_tick env b db_fault locked p' rows' bus')
    have dist: "distinct (map ob_id (outbox (os_db st)))"
      using inv by (simp add: order_inv_def ids_ok_def outbox_ids_ok_def)
    from order_tick_effect [OF dist del step_tick(2)] obtain ext where
      e: "map ob_ident rows' = map ob_ident (outbox (os_db st))" "delivered_inv (rows', bus')"
        "bus' = os_bus st @ ext" "\<forall>m \<in> set ext. \<exists>r \<in> set (outbox (os_db st)). carries r m" by blast
    have "\<forall>m \<in> set bus'. \<exists>r \<in> set rows'. carries r m"
      using e src ident_carried [OF e(1)] by fastforce
    with e u tick_keeps_inv [OF inv e(1)] step_tick(1) show ?thesis by (simp add: service_inv_def)
  qed
qed

lemma service_initial_inv: "service_initial u st \<Longrightarrow> service_inv u st"
  by (simp add: service_initial_def service_inv_def order_db_initial_def order_inv_def ids_ok_def
      outbox_ids_ok_def saga_keys_ok_def prices_stored_def repo_defs rowsOf_def tab_simps delivered_inv_def)

interpretation order_machine: transition_system "order_step u" "service_initial u" "service_inv u" for u
  by unfold_locales (auto intro: service_initial_inv order_step_inv)

end
