(* ===== verification/OrderSafety.thy ===== *)
theory OrderSafety
  imports OrderInvariant
begin

section \<open>What the order-service guarantees\<close>

text \<open>
  The theorems about every state that the order-service reaches: orders and sagas agree, the
  messages on the bus are consistent with them, replies are handled at most once and never fail
  on a transition, and each order's history is a run of the saga machine.
\<close>

subsection \<open>Shared facts\<close>

lemma service_reachable:
  assumes "service_initial u st0" "run (order_step u) st0 st"
  shows "uuid_ok u" "order_inv u (os_db st)" "delivered_inv (outbox (os_db st), os_bus st)"
    "\<forall>m \<in> set (os_bus st). \<exists>r \<in> set (outbox (os_db st)). carries r m" "service_inv u st"
  using order_machine.reachable_inv [OF assms] by (auto simp: service_inv_def)

text \<open>The row behind a message on the bus, with the saga and the order it was written for.\<close>

lemma bus_row:
  assumes "service_inv u st" "m \<in> set (os_bus st)"
  obtains r g a k where "r \<in> set (rowsOf k (os_db st))" "carries r m"
    "sagaOf k (os_db st) = Some g" "orderOf k (os_db st) = Some a"
    "pair_ok g a (rowsOf k (os_db st))" "row_ok g a r" "ord_id a = k" "sg_orderId g = k"
proof -
  have inv: "order_inv u (os_db st)" using assms(1) by (simp add: service_inv_def)
  from assms obtain r where r: "r \<in> set (outbox (os_db st))" "carries r m" by (auto simp: service_inv_def)
  let ?k = "ob_aggregateId r"
  have mem: "r \<in> set (rowsOf ?k (os_db st))" using r(1) by (simp add: rowsOf_def)
  have "view_ok (sagaOf ?k (os_db st)) (orderOf ?k (os_db st)) (rowsOf ?k (os_db st))"
    using inv by (simp add: order_inv_def)
  with mem obtain g a where ga: "sagaOf ?k (os_db st) = Some g" "orderOf ?k (os_db st) = Some a"
    by (cases "sagaOf ?k (os_db st)"; cases "orderOf ?k (os_db st)") auto
  note pair = inv_pair [OF inv ga]
  have "row_ok g a r" using pair(1) mem by (simp add: pair_ok_def)
  with mem r(2) ga pair show ?thesis by (intro that)
qed

lemma saga_id_generated:
  assumes "order_inv u s" "sagaOf k s = Some g"
  shows "\<exists>i. sg_id g = u i"
proof -
  from assms(2) obtain r where "r \<in> set (saga_states s)" "sg_id g = se_id r"
    by (auto simp: TypeOrmSagaRepository_findByOrderIdWithLock_def dest!: row_of_in)
  with assms(1) show ?thesis by (auto simp: order_inv_def ids_ok_def)
qed

lemma rows_on_unique:
  assumes "rows_on t rows \<le> 1" "r \<in> set rows" "r' \<in> set rows" "payload_topic (ob_payload r) = t"
    "payload_topic (ob_payload r') = t"
  shows "r = r'"
proof -
  let ?f = "filter (\<lambda>r. payload_topic (ob_payload r) = t) rows"
  have len: "length ?f \<le> 1" and mem: "r \<in> set ?f" "r' \<in> set ?f"
    using assms by (simp_all add: rows_on_def)
  show ?thesis
  proof (cases ?f)
    case (Cons x xs)
    with len have "xs = []" by simp
    with mem Cons show ?thesis by simp
  qed (use mem in simp)
qed

subsection \<open>Orders and sagas agree\<close>

text \<open>
  C3. Whatever requests, replies (late, duplicated or out of order), timers, outbox ticks,
  broker failures and refused commits the service has seen, every order has exactly the saga
  the orchestrator created for it, the saga is well-formed, the order's status is the one of
  the saga's step (pending while stock is being reserved; confirmed while payment, release or
  nothing is left to do), and every message written for it carries the saga's command ids, the
  order's lines and the order's amount to the cent.
\<close>

theorem order_saga_agree:
  assumes "service_initial u st0" "run (order_step u) st0 st" "orderOf k (os_db st) = Some a"
  shows "\<exists>g. sagaOf k (os_db st) = Some g \<and> sg_orderId g = k \<and> ord_id a = k \<and> saga_wf g \<and>
    status_ok (sg_currentStep g) (ord_status a) \<and>
    (\<forall>r \<in> set (rowsOf k (os_db st)). row_ok g a r)"
proof -
  have inv: "order_inv u (os_db st)" using assms(1,2) by (rule service_reachable)
  then have "view_ok (sagaOf k (os_db st)) (orderOf k (os_db st)) (rowsOf k (os_db st))"
    by (simp add: order_inv_def)
  with assms(3) obtain g where g: "sagaOf k (os_db st) = Some g" by (cases "sagaOf k (os_db st)") auto
  from inv_pair [OF inv g assms(3)] g show ?thesis by (auto simp: pair_ok_def)
qed

text \<open>A service that has taken one order.\<close>

definition empty_service :: order_service where
  "empty_service = \<lparr>os_db = \<lparr>seq = 0, outbox = [], orders = [], saga_states = []\<rparr>, os_bus = [],
     os_proc = \<lparr>isProcessing = False, maxRetries = 5\<rparr>\<rparr>"

definition sample_input :: create_order_input where
  "sample_input = \<lparr>in_userId = ''u1'', in_userEmail = Some ''a@b.c'', in_correlationId = ''c1'',
     in_items = [\<lparr>ci_productId = ''p1'', ci_quantity = 2\<rparr>]\<rparr>"

definition one_order :: order_service where
  "one_order = empty_service\<lparr>os_db := snd (CreateOrderUseCase_execute None sample_env sample_input
     (os_db empty_service))\<rparr>"

lemma empty_service_initial: "service_initial (e_uuid sample_env) empty_service"
  by (simp add: service_initial_def empty_service_def order_db_initial_def sample_uuid_ok)

lemma one_order_reachable: "run (order_step (e_uuid sample_env)) empty_service one_order"
  unfolding one_order_def by (rule run_step [OF run_refl]) (rule step_create, rule refl)

lemmas run_defs = one_order_def empty_service_def sample_input_def CreateOrderUseCase_execute_def
  transaction_def tx_bind_def TypeOrmOrderRepository_save_def TypeOrmSagaRepository_save_def
  modify_def ret_def OrderMapper_toOrm_def Order_create_def Let_def fits_decimal_def fits_int4_def
  SagaMapper_toOrm_def Saga_create_def OrderMapper_toDomain_def SagaMapper_toDomain_def
  TypeOrmOutboxRepository_write_def store_order_def store_item_def tab_simps

lemma one_order_order: "\<exists>a. orderOf ''a'' (os_db one_order) = Some a \<and> ord_status a = OrderStatus_PENDING"
  by (simp add: run_defs sample_env_def TypeOrmOrderRepository_findById_def)

theorem order_saga_agree_witness:
  "\<exists>g. sagaOf ''a'' (os_db one_order) = Some g \<and> saga_wf g"
proof -
  obtain a where "orderOf ''a'' (os_db one_order) = Some a" using one_order_order by blast
  from order_saga_agree [OF empty_service_initial one_order_reachable this] show ?thesis by blast
qed

subsection \<open>Each order ends once\<close>

text \<open>
  C7. An order is never both confirmed and cancelled to the outside, and each outcome is one
  message: if the bus holds an order-confirmed and an order-cancelled message they are about
  different orders, and two order-confirmed (or two order-cancelled) messages about the same
  order are the same outbox row, that is, a redelivery under the same message id.
\<close>

theorem final_events_exclusive:
  assumes "service_initial u st0" "run (order_step u) st0 st"
    and "m1 \<in> set (os_bus st)" "m2 \<in> set (os_bus st)"
  shows "(ke_payload (km_value m1) = OrderConfirmed e1 \<and> ke_payload (km_value m2) = OrderCancelled e2 \<longrightarrow>
      ev_orderId e1 \<noteq> ev_orderId e2) \<and>
    (ke_payload (km_value m1) = OrderConfirmed e1 \<and> ke_payload (km_value m2) = OrderConfirmed e1' \<and>
      ev_orderId e1 = ev_orderId e1' \<longrightarrow> ke_messageId (km_value m1) = ke_messageId (km_value m2) \<and> e1 = e1') \<and>
    (ke_payload (km_value m1) = OrderCancelled e2 \<and> ke_payload (km_value m2) = OrderCancelled e2' \<and>
      ev_orderId e2 = ev_orderId e2' \<longrightarrow> ke_messageId (km_value m1) = ke_messageId (km_value m2) \<and> e2 = e2')"
proof -
  have inv: "service_inv u st" using assms(1,2) by (rule service_reachable)
  obtain r1 g1 a1 k1 where r1: "r1 \<in> set (rowsOf k1 (os_db st))" "carries r1 m1"
    "sagaOf k1 (os_db st) = Some g1" "orderOf k1 (os_db st) = Some a1"
    "pair_ok g1 a1 (rowsOf k1 (os_db st))" "row_ok g1 a1 r1" "ord_id a1 = k1" "sg_orderId g1 = k1"
    by (rule bus_row [OF inv assms(3)])
  obtain r2 g2 a2 k2 where r2: "r2 \<in> set (rowsOf k2 (os_db st))" "carries r2 m2"
    "sagaOf k2 (os_db st) = Some g2" "orderOf k2 (os_db st) = Some a2"
    "pair_ok g2 a2 (rowsOf k2 (os_db st))" "row_ok g2 a2 r2" "ord_id a2 = k2" "sg_orderId g2 = k2"
    by (rule bus_row [OF inv assms(4)])
  have pl: "ke_payload (km_value m1) = ob_payload r1" "ke_payload (km_value m2) = ob_payload r2"
    "ke_messageId (km_value m1) = ob_id r1" "ke_messageId (km_value m2) = ob_id r2"
    using r1(2) r2(2) by (simp_all add: carries_def)
  have same: "r1 = r2" if "k1 = k2" "payload_topic (ob_payload r1) = t" "payload_topic (ob_payload r2) = t"
    "t \<in> {ORDER_CONFIRMED, ORDER_CANCELLED}" for t
  proof (rule rows_on_unique)
    show "rows_on t (rowsOf k1 (os_db st)) \<le> 1" using r1(5) that(4) by (auto simp: pair_ok_def)
  qed (use that r1 r2 in auto)
  have ok: "payload_ok g1 a1 (ke_payload (km_value m1))" "payload_ok g2 a2 (ke_payload (km_value m2))"
    using r1(6) r2(6) pl by (simp_all add: row_ok_def)
  show ?thesis
  proof (intro conjI impI)
    assume "ke_payload (km_value m1) = OrderConfirmed e1 \<and> ke_payload (km_value m2) = OrderCancelled e2"
    with ok have "sg_currentStep g1 = SagaStep_COMPLETED" "sg_currentStep g2 = SagaStep_FAILED"
      "ev_orderId e1 = k1" "ev_orderId e2 = k2" using r1(7) r2(7) by (simp_all add: event_for_def)
    with r1(3) r2(3) show "ev_orderId e1 \<noteq> ev_orderId e2" by auto
  next
    assume m: "ke_payload (km_value m1) = OrderConfirmed e1 \<and> ke_payload (km_value m2) = OrderConfirmed e1' \<and>
      ev_orderId e1 = ev_orderId e1'"
    with ok have "k1 = k2" using r1(7) r2(7) by (simp add: event_for_def)
    with m have "r1 = r2" by (intro same [of ORDER_CONFIRMED]) (simp_all flip: pl)
    with m pl show "ke_messageId (km_value m1) = ke_messageId (km_value m2)" "e1 = e1'" by auto
  next
    assume m: "ke_payload (km_value m1) = OrderCancelled e2 \<and> ke_payload (km_value m2) = OrderCancelled e2' \<and>
      ev_orderId e2 = ev_orderId e2'"
    with ok have "k1 = k2" using r1(7) r2(7) by (simp add: event_for_def)
    with m have "r1 = r2" by (intro same [of ORDER_CANCELLED]) (simp_all flip: pl)
    with m pl show "ke_messageId (km_value m1) = ke_messageId (km_value m2)" "e2 = e2'" by auto
  qed
qed

text \<open>The same order with its stock reserved, paid, and its three messages sent.\<close>

definition sample_reply :: "payload \<Rightarrow> order_service \<Rightarrow> order_service" where
  "sample_reply pl st = st\<lparr>os_db := snd (saga_reply None sample_env pl (os_db st))\<rparr>"

definition sample_tick :: "order_service \<Rightarrow> order_service" where
  "sample_tick st = (case order_processPending sample_env (sample_broker (\<lambda>_. Stored)) None (\<lambda>_. False)
       (os_proc st) (outbox (os_db st), os_bus st) of
     (p', rows', bus') \<Rightarrow> st\<lparr>os_db := (os_db st)\<lparr>outbox := rows'\<rparr>, os_bus := bus', os_proc := p'\<rparr>)"

definition sample_reserved :: payload where
  "sample_reserved = StockReserved \<lparr>commandId = ''aaa'', orderId = ''a'', correlationId = ''c1'',
     sr_items = [\<lparr>oi_productId = ''p1'', oi_name = ''Pen'', oi_quantity = 2, oi_unitPrice = 5\<rparr>], sr_total = 10\<rparr>"

definition sample_paid :: payload where
  "sample_paid = PaymentProcessed \<lparr>commandId = ''aaa-pay'', orderId = ''a'', correlationId = ''c1'',
     pd_transactionId = ''t1''\<rparr>"

definition paid_order :: order_service where
  "paid_order = sample_tick (sample_reply sample_paid (sample_reply sample_reserved one_order))"

lemma sample_reply_step: "order_step (e_uuid sample_env) st (sample_reply pl st)"
  unfolding sample_reply_def by (rule step_reply) (rule refl)

lemma sample_tick_step: "order_step u st (sample_tick st)"
  unfolding sample_tick_def by (auto split: prod.splits intro: step_tick)

lemma paid_order_reachable: "run (order_step (e_uuid sample_env)) empty_service paid_order"
  unfolding paid_order_def
  by (rule run_step, rule run_step, rule run_step, rule one_order_reachable)
    (rule sample_reply_step sample_tick_step)+

lemma paid_order_bus:
  "map (\<lambda>m. payload_topic (ke_payload (km_value m))) (os_bus paid_order) =
     [RESERVE_STOCK, PROCESS_PAYMENT, ORDER_CONFIRMED]"
  by code_simp

theorem final_events_exclusive_witness:
  "\<exists>m e. m \<in> set (os_bus paid_order) \<and> ke_payload (km_value m) = OrderConfirmed e \<and>
     list_all (\<lambda>m'. case ke_payload (km_value m') of OrderCancelled e' \<Rightarrow> ev_orderId e \<noteq> ev_orderId e' | _ \<Rightarrow> True)
       (os_bus paid_order)"
proof -
  have "ORDER_CONFIRMED \<in> set (map (\<lambda>m. payload_topic (ke_payload (km_value m))) (os_bus paid_order))"
    by (simp add: paid_order_bus del: set_map)
  then obtain m where m: "m \<in> set (os_bus paid_order)" "payload_topic (ke_payload (km_value m)) = ORDER_CONFIRMED"
    by auto
  then obtain e where e: "ke_payload (km_value m) = OrderConfirmed e" by (cases "ke_payload (km_value m)") auto
  have "ev_orderId e \<noteq> ev_orderId e'"
    if "m' \<in> set (os_bus paid_order)" "ke_payload (km_value m') = OrderCancelled e'" for m' e'
    using final_events_exclusive [OF empty_service_initial paid_order_reachable m(1) that(1), of e e'] e that(2)
    by simp
  then have "list_all (\<lambda>m'. case ke_payload (km_value m') of OrderCancelled e' \<Rightarrow> ev_orderId e \<noteq> ev_orderId e'
      | _ \<Rightarrow> True) (os_bus paid_order)"
    by (simp add: list_all_iff split: payload.splits)
  with m(1) e show ?thesis by blast
qed

subsection \<open>Commands carry idempotency keys\<close>

lemma suffix_apart:
  assumes "uuid_ok u" "u i @ x = u j @ y" "x \<in> {[], ''-pay'', ''-release''}" "y \<in> {[], ''-pay'', ''-release''}"
  shows "u i = u j \<and> x = y"
proof -
  have hex: "set (u n) \<subseteq> set ''0123456789abcdef-''" for n using assms(1) by (simp add: uuid_ok_def)
  have p: "CHR ''p'' \<notin> set (u n)" "CHR ''r'' \<notin> set (u n)" for n using hex [of n] by auto
  have "set (u i @ x) = set (u j @ y)" using assms(2) by simp
  then have "CHR ''p'' \<in> set x \<longleftrightarrow> CHR ''p'' \<in> set y" "CHR ''r'' \<in> set x \<longleftrightarrow> CHR ''r'' \<in> set y"
    using p by auto
  then have "x = y" using assms(3,4) by auto
  with assms(2) show ?thesis by simp
qed

fun command_of :: "payload \<Rightarrow> (string \<times> string) option" where
  "command_of (ReserveStock c) = Some (commandId c, orderId c)"
| "command_of (ReleaseStock c) = Some (commandId c, orderId c)"
| "command_of (ProcessPayment c) = Some (commandId c, orderId c)"
| "command_of _ = None"

lemma payload_ok_command:
  assumes "payload_ok g a p" "command_of p = Some (c, k)"
  obtains x where "c = sg_id g @ x" "x \<in> {[], ''-pay'', ''-release''}" "k = sg_orderId g"
    "payload_topic p = (if x = [] then RESERVE_STOCK else if x = ''-pay'' then PROCESS_PAYMENT else RELEASE_STOCK)"
proof (cases p)
  case (ReserveStock d)
  with assms show ?thesis by (intro that [of "[]"]) (auto simp: command_for_def)
next
  case (ReleaseStock d)
  with assms show ?thesis by (intro that [of "''-release''"]) (auto simp: command_for_def)
next
  case (ProcessPayment d)
  with assms show ?thesis by (intro that [of "''-pay''"]) (auto simp: command_for_def)
qed (use assms in auto)

text \<open>
  C9. The command id is an idempotency key: among all the commands the service ever put on the
  bus, the first ones and the ones the retry timer resent, two have the same command id exactly
  when they are the same command for the same order; and every payment command of an order
  charges the same user the same amount to the cent, although a resent command takes the amount
  from the database and the first one from the reply.
\<close>

theorem command_ids_are_keys:
  assumes "service_initial u st0" "run (order_step u) st0 st"
    and "m1 \<in> set (os_bus st)" "m2 \<in> set (os_bus st)"
    and "command_of (ke_payload (km_value m1)) = Some (c1, k1)"
    and "command_of (ke_payload (km_value m2)) = Some (c2, k2)"
  shows "(c1 = c2 \<longleftrightarrow> k1 = k2 \<and>
      payload_topic (ke_payload (km_value m1)) = payload_topic (ke_payload (km_value m2))) \<and>
    (ke_payload (km_value m1) = ProcessPayment p1 \<and> ke_payload (km_value m2) = ProcessPayment p2 \<and> k1 = k2 \<longrightarrow>
      pp_userId p1 = pp_userId p2 \<and> fl (dec2 (pp_amount p1)) = fl (dec2 (pp_amount p2)))"
proof -
  have inv: "service_inv u st" and u: "uuid_ok u" and oinv: "order_inv u (os_db st)"
    using service_reachable [OF assms(1,2)] by simp_all
  obtain r1 g1 a1 j1 where r1: "carries r1 m1" "sagaOf j1 (os_db st) = Some g1" "orderOf j1 (os_db st) = Some a1"
    "row_ok g1 a1 r1" "sg_orderId g1 = j1"
    by (rule bus_row [OF inv assms(3)])
  obtain r2 g2 a2 j2 where r2: "carries r2 m2" "sagaOf j2 (os_db st) = Some g2" "orderOf j2 (os_db st) = Some a2"
    "row_ok g2 a2 r2" "sg_orderId g2 = j2"
    by (rule bus_row [OF inv assms(4)])
  have ok: "payload_ok g1 a1 (ke_payload (km_value m1))" "payload_ok g2 a2 (ke_payload (km_value m2))"
    using r1(1,4) r2(1,4) by (simp_all add: row_ok_def carries_def)
  obtain x1 where x1: "c1 = sg_id g1 @ x1" "x1 \<in> {[], ''-pay'', ''-release''}" "k1 = sg_orderId g1"
    "payload_topic (ke_payload (km_value m1)) =
      (if x1 = [] then RESERVE_STOCK else if x1 = ''-pay'' then PROCESS_PAYMENT else RELEASE_STOCK)"
    by (rule payload_ok_command [OF ok(1) assms(5)])
  obtain x2 where x2: "c2 = sg_id g2 @ x2" "x2 \<in> {[], ''-pay'', ''-release''}" "k2 = sg_orderId g2"
    "payload_topic (ke_payload (km_value m2)) =
      (if x2 = [] then RESERVE_STOCK else if x2 = ''-pay'' then PROCESS_PAYMENT else RELEASE_STOCK)"
    by (rule payload_ok_command [OF ok(2) assms(6)])
  obtain i1 where i1: "sg_id g1 = u i1" using saga_id_generated [OF oinv r1(2)] by blast
  obtain i2 where i2: "sg_id g2 = u i2" using saga_id_generated [OF oinv r2(2)] by blast
  have keys: "saga_keys_ok (os_db st)" using oinv by (simp add: order_inv_def ids_ok_def)
  have eq: "sg_id g1 = sg_id g2 \<longleftrightarrow> k1 = k2"
  proof
    assume "sg_id g1 = sg_id g2"
    with saga_repo.find_saga_inj [OF keys r1(2) r2(2)] show "k1 = k2" by (simp add: x1(3) x2(3))
  next
    assume "k1 = k2"
    then have "j1 = j2" by (simp add: x1(3) x2(3) r1(5) r2(5))
    with r1(2) r2(2) show "sg_id g1 = sg_id g2" by simp
  qed
  have "c1 = c2 \<longleftrightarrow> sg_id g1 = sg_id g2 \<and> x1 = x2"
    using suffix_apart [OF u _ x1(2) x2(2), of i1 i2] x1(1) x2(1) i1 i2 by auto
  moreover have "x1 = x2 \<longleftrightarrow> payload_topic (ke_payload (km_value m1)) = payload_topic (ke_payload (km_value m2))"
    using x1(2,4) x2(2,4) by auto
  moreover have "pp_userId p1 = pp_userId p2 \<and> fl (dec2 (pp_amount p1)) = fl (dec2 (pp_amount p2))"
    if "ke_payload (km_value m1) = ProcessPayment p1" "ke_payload (km_value m2) = ProcessPayment p2" "k1 = k2"
    using that ok r1(3,5) r2(3,5) x1(3) x2(3) by simp
  ultimately show ?thesis using eq by blast
qed

lemma paid_order_commands:
  "map (\<lambda>m. command_of (ke_payload (km_value m))) (os_bus paid_order) =
     [Some (''aaa'', ''a''), Some (''aaa-pay'', ''a''), None]"
  by code_simp

theorem command_ids_are_keys_witness:
  "\<exists>m1 m2. m1 \<in> set (os_bus paid_order) \<and> m2 \<in> set (os_bus paid_order) \<and>
     command_of (ke_payload (km_value m1)) = Some (''aaa'', ''a'') \<and>
     command_of (ke_payload (km_value m2)) = Some (''aaa-pay'', ''a'') \<and>
     payload_topic (ke_payload (km_value m1)) \<noteq> payload_topic (ke_payload (km_value m2))"
proof -
  have "Some (''aaa'', ''a'') \<in> set (map (\<lambda>m. command_of (ke_payload (km_value m))) (os_bus paid_order))"
    "Some (''aaa-pay'', ''a'') \<in> set (map (\<lambda>m. command_of (ke_payload (km_value m))) (os_bus paid_order))"
    by (simp_all add: paid_order_commands del: set_map)
  then obtain m1 m2 where m: "m1 \<in> set (os_bus paid_order)" "m2 \<in> set (os_bus paid_order)"
    "command_of (ke_payload (km_value m1)) = Some (''aaa'', ''a'')"
    "command_of (ke_payload (km_value m2)) = Some (''aaa-pay'', ''a'')" by auto
  from command_ids_are_keys [OF empty_service_initial paid_order_reachable m] m show ?thesis by auto
qed

subsection \<open>Each order follows the saga machine\<close>

lemma order_step_moves:
  assumes "order_step u st st'" "service_inv u st"
  shows "moves (os_db st) (os_db st')"
proof -
  have u: "uuid_ok u" and inv: "order_inv u (os_db st)" and del: "delivered_inv (outbox (os_db st), os_bus st)"
    using assms(2) by (auto simp: service_inv_def)
  from assms(1) show ?thesis
  proof cases
    case (step_create env fault input)
    with create_keeps [of env "os_db st" fault input] inv u show ?thesis by (simp add: keeps_def)
  next
    case (step_reply env fault pl)
    with saga_reply_keeps [of env "os_db st" fault pl] inv u show ?thesis by (simp add: keeps_def)
  next
    case (step_timer rcs query)
    have "moves (os_db st) (retryStuckSagas query rcs (os_db st))"
      using retry_each_keeps [OF inv u step_timer(2)] by (simp add: retryStuckSagas_def split: option.splits)
    with step_timer(1) show ?thesis by simp
  next
    case (step_tick env b db_fault locked p' rows' bus')
    have dist: "distinct (map ob_id (outbox (os_db st)))"
      using inv by (simp add: order_inv_def ids_ok_def outbox_ids_ok_def)
    have "map ob_ident rows' = map ob_ident (outbox (os_db st))"
      using order_tick_effect [OF dist del step_tick(2)] by blast
    from map_ident_filter [OF this] step_tick(1) show ?thesis
      by (auto simp: moves_def repo_defs rowsOf_def intro: run_refl)
  qed
qed

text \<open>
  C4. Refinement: the history of every order is a run of the saga machine. Between any two
  states of the service, whatever was received in between, the saga of an order has made moves
  of \<open>saga_move\<close> only, and a saga that has ended (completed or failed) absorbs every
  further reply and timer: the saga, the order's status and total, and the messages written for
  it stay as they are.
\<close>

theorem service_refines_saga:
  assumes "service_initial u st0" "run (order_step u) st0 st" "run (order_step u) st st'"
    and "sagaOf k (os_db st) = Some g"
  shows "\<exists>g'. sagaOf k (os_db st') = Some g' \<and> run saga_move g g' \<and>
    (sg_status g \<noteq> SagaStatus_RUNNING \<longrightarrow> g' = g \<and>
       map_option view (orderOf k (os_db st')) = map_option view (orderOf k (os_db st)) \<and>
       map ob_ident (rowsOf k (os_db st')) = map ob_ident (rowsOf k (os_db st)))"
proof -
  have "service_inv u st" using assms(1,2) by (rule service_reachable)
  with assms(3) have "moves (os_db st) (os_db st')"
    by (rule order_machine.run_keeps_rel [where R = "\<lambda>a b. moves (os_db a) (os_db b)"])
      (auto intro: moves_trans order_step_moves)
  with assms(4) obtain g' where "sagaOf k (os_db st') = Some g'" "run saga_move g g'"
    "sg_status g \<noteq> SagaStatus_RUNNING \<longrightarrow>
       map_option view (orderOf k (os_db st')) = map_option view (orderOf k (os_db st)) \<and>
       map ob_ident (rowsOf k (os_db st')) = map ob_ident (rowsOf k (os_db st))"
    unfolding moves_def by blast
  then show ?thesis using run_saga_ended by blast
qed

lemma paid_order_saga:
  "map_option sg_status (sagaOf ''a'' (os_db paid_order)) = Some SagaStatus_COMPLETED"
  by code_simp

theorem service_refines_saga_witness:
  "sagaOf ''a'' (os_db (sample_reply sample_reserved paid_order)) = sagaOf ''a'' (os_db paid_order)"
proof -
  obtain g where g: "sagaOf ''a'' (os_db paid_order) = Some g" "sg_status g = SagaStatus_COMPLETED"
    using paid_order_saga by (auto simp: map_option_eq_Some)
  have "run (order_step (e_uuid sample_env)) paid_order (sample_reply sample_reserved paid_order)"
    by (rule run_step, rule run_refl, rule sample_reply_step)
  from service_refines_saga [OF empty_service_initial paid_order_reachable this g(1)] g show ?thesis by auto
qed

subsection \<open>Replies are always accepted\<close>

lemma update_items_total:
  "\<forall>i \<in> set is. it_id i = [] \<or> fits_decimal 10 (it_unitPrice i) \<Longrightarrow> \<exists>s'. update_items is s = (Inr (), s')"
  by (induction "is" arbitrary: s) auto

lemma order_update_total:
  assumes "fits_decimal 10 (ord_total o')" "\<forall>i \<in> set (ord_items o'). fits_decimal 10 (it_unitPrice i)"
  obtains s' where "TypeOrmOrderRepository_update env o' s = (Inr o', s')"
  using update_items_total [of "ord_items o'"] assms that
  by (auto simp: TypeOrmOrderRepository_update_def tx_simps)

lemma stored_fits: "fits_decimal 10 x \<Longrightarrow> fits_decimal 10 (fl (dec2 x))"
  by (simp add: fits_decimal_def dec2_fl_dec2)

lemma inv_fits:
  assumes "order_inv u s" "sagaOf k s = Some g" "orderOf k s = Some a"
  shows "fits_decimal 10 (ord_total a)" "\<forall>i \<in> set (ord_items a). fits_decimal 10 (it_unitPrice i)"
proof -
  show "fits_decimal 10 (ord_total a)"
    using inv_pair(1) [OF assms] stored_fits by (auto simp: pair_ok_def)
  from assms(3) obtain r where r: "r \<in> set (orders s)" "a = OrderMapper_toDomain r"
    by (auto simp: TypeOrmOrderRepository_findById_def dest: row_of_in)
  have "prices_stored s" using assms(1) by (simp add: order_inv_def ids_ok_def)
  with r show "\<forall>i \<in> set (ord_items a). fits_decimal 10 (it_unitPrice i)"
    by (fastforce simp: prices_stored_def OrderMapper_toDomain_def dest: stored_fits)
qed

lemma cancellation_total:
  assumes inv: "order_inv u s" and g: "sagaOf k s = Some g" "sg_status g = SagaStatus_RUNNING"
  shows "\<exists>s'. performCancellation env g k reason s = (Inr (), s')"
proof -
  obtain a where a: "orderOf k s = Some a" using inv g(1) by (rule inv_order)
  have "ord_status a \<in> {OrderStatus_PENDING, OrderStatus_CONFIRMED}"
    using inv_pair(1) [OF inv g(1) a] g(2) by (auto simp: pair_ok_def saga_wf_def)
  then have c: "Order_compensate (e_now env) a =
      Inr (a\<lparr>ord_status := OrderStatus_CANCELLED, ord_updatedAt := e_now env\<rparr>)"
    by (auto simp: Order_compensate_def)
  obtain s1 where "TypeOrmOrderRepository_update env
      (a\<lparr>ord_status := OrderStatus_CANCELLED, ord_updatedAt := e_now env\<rparr>) s =
      (Inr (a\<lparr>ord_status := OrderStatus_CANCELLED, ord_updatedAt := e_now env\<rparr>), s1)"
    by (rule order_update_total [of "a\<lparr>ord_status := OrderStatus_CANCELLED, ord_updatedAt := e_now env\<rparr>"])
      (use inv_fits [OF inv g(1) a] in simp_all)
  with a c show ?thesis by (auto simp: performCancellation_def tx_simps saga_update_run)
qed

lemma effect_reads:
  assumes "effect env k g g' upd pl s s'" "orderOf k s = Some a"
  shows "sagaOf k s' = Some g'" "map_option ord_status (orderOf k s') = Some (fst (written upd a))"
proof -
  show "sagaOf k s' = Some g'" using assms(1) by (simp add: effect_def)
  have "map_option view (orderOf k s') = Some (written upd a)" using assms by (simp add: effect_def)
  then show "map_option ord_status (orderOf k s') = Some (fst (written upd a))"
    by (cases "orderOf k s'") (auto simp: view_def dest: arg_cong [of _ _ fst])
qed

definition outcome :: "order_db \<Rightarrow> string \<Rightarrow> saga_step_name \<Rightarrow> order_status \<Rightarrow> bool" where
  "outcome s k stp st \<longleftrightarrow> map_option sg_currentStep (sagaOf k s) = Some stp \<and>
     map_option ord_status (orderOf k s) = Some st"

definition awaits :: "order_db \<Rightarrow> string \<Rightarrow> saga_step_name \<Rightarrow> bool" where
  "awaits s k stp \<longleftrightarrow> loadSagaForStep k stp s \<noteq> None"

lemma awaits_saga: "awaits s k stp \<longleftrightarrow> (\<exists>g. sagaOf k s = Some g \<and> Saga_canHandle stp g)"
  by (auto simp: awaits_def loadSagaForStep_def split: option.splits)

lemma not_awaited:
  "\<not> awaits s (orderId e1) SagaStep_RESERVE_STOCK \<Longrightarrow> onStockReserved None env e1 s = (Inr (), s)"
  "\<not> awaits s (orderId e2) SagaStep_RESERVE_STOCK \<Longrightarrow> onStockReservationFailed None env e2 s = (Inr (), s)"
  "\<not> awaits s (orderId e3) SagaStep_PROCESS_PAYMENT \<Longrightarrow> onPaymentProcessed None env e3 s = (Inr (), s)"
  "\<not> awaits s (orderId e4) SagaStep_PROCESS_PAYMENT \<Longrightarrow> onPaymentFailed None env e4 s = (Inr (), s)"
  "\<not> awaits s (orderId e5) SagaStep_RELEASE_STOCK \<Longrightarrow> onStockReleased None env e5 s = (Inr (), s)"
  by (simp_all add: awaits_def onStockReserved_def onStockReservationFailed_def onPaymentProcessed_def
      onPaymentFailed_def onStockReleased_def transaction_def)

lemma find_in_set: "List.find P xs = Some x \<Longrightarrow> x \<in> set xs"
  by (induction xs) (auto split: if_splits)

lemma confirm_items:
  assumes "Order_confirm now tot det a = Inr c" "i \<in> set (ord_items c)"
  shows "(\<exists>j \<in> set (ord_items a). it_unitPrice i = it_unitPrice j) \<or>
    (\<exists>d \<in> set det. it_unitPrice i = oi_unitPrice d)"
  using assms by (auto simp: Order_confirm_def split: if_splits option.splits) (blast, metis find_in_set)

lemma onStockReserved_total:
  assumes inv: "order_inv u s" and g: "awaits s (orderId ev) SagaStep_RESERVE_STOCK"
    and fits: "fits_decimal 10 (sr_total ev)" "\<forall>d \<in> set (sr_items ev). fits_decimal 10 (oi_unitPrice d)"
  shows "\<exists>s'. onStockReserved None env ev s = (Inr (), s')"
proof -
  from g obtain g where g: "sagaOf (orderId ev) s = Some g" "Saga_canHandle SagaStep_RESERVE_STOCK g"
    by (auto simp: awaits_saga)
  obtain a where a: "orderOf (orderId ev) s = Some a" using inv g(1) by (rule inv_order)
  have "ord_status a = OrderStatus_PENDING"
    using inv_pair(1) [OF inv g(1) a] g(2) by (auto simp: pair_ok_def Saga_canHandle_def)
  then obtain c where c: "Order_confirm (e_now env) (sr_total ev) (sr_items ev) a = Inr c" "ord_total c = sr_total ev"
    by (simp add: Order_confirm_def)
  have "\<forall>i \<in> set (ord_items c). fits_decimal 10 (it_unitPrice i)"
    using confirm_items [OF c(1)] inv_fits(2) [OF inv g(1) a] fits(2) by metis
  then obtain s1 where "TypeOrmOrderRepository_update env c s = (Inr c, s1)"
    using fits(1) c(2) order_update_total [of c] by metis
  moreover have "\<exists>h. Saga_advance (e_now env) g = Inr h"
    using g(2) by (simp add: Saga_advance_def Saga_canHandle_def)
  ultimately show ?thesis
    using a c(1) g by (auto simp: onStockReserved_def transaction_Inr tx_simps saga_update_run loadSagaForStep_def)
qed

lemma onStockReserved_progress:
  assumes inv: "order_inv (e_uuid env) s" "uuid_ok (e_uuid env)"
    and fits: "fits_decimal 10 (sr_total ev)" "\<forall>d \<in> set (sr_items ev). fits_decimal 10 (oi_unitPrice d)"
  shows "\<exists>s'. onStockReserved None env ev s = (Inr (), s') \<and>
    (if awaits s (orderId ev) SagaStep_RESERVE_STOCK
     then outcome s' (orderId ev) SagaStep_PROCESS_PAYMENT OrderStatus_CONFIRMED else s' = s)"
proof (cases "awaits s (orderId ev) SagaStep_RESERVE_STOCK")
  case True
  have ids: "ids_ok (e_uuid env) s" using inv(1) by (simp add: order_inv_def)
  obtain s' where run: "onStockReserved None env ev s = (Inr (), s')"
    using onStockReserved_total [OF inv(1) True fits] by blast
  from ids inv(2) run have "outcome s' (orderId ev) SagaStep_PROCESS_PAYMENT OrderStatus_CONFIRMED"
  proof (cases rule: onStockReserved_effect)
    case (moved g a)
    from effect_reads [OF moved(6,3)] show ?thesis by (simp add: outcome_def written_def)
  qed (use True in \<open>simp add: awaits_def\<close>)
  with run True show ?thesis by simp
qed (simp add: not_awaited)

lemma onStockReservationFailed_progress:
  assumes inv: "order_inv (e_uuid env) s" "uuid_ok (e_uuid env)"
  shows "\<exists>s'. onStockReservationFailed None env ev s = (Inr (), s') \<and>
    (if awaits s (orderId ev) SagaStep_RESERVE_STOCK
     then outcome s' (orderId ev) SagaStep_FAILED OrderStatus_CANCELLED else s' = s)"
proof (cases "awaits s (orderId ev) SagaStep_RESERVE_STOCK")
  case True
  have ids: "ids_ok (e_uuid env) s" using inv(1) by (simp add: order_inv_def)
  from True obtain g where g: "sagaOf (orderId ev) s = Some g" "Saga_canHandle SagaStep_RESERVE_STOCK g"
    by (auto simp: awaits_saga)
  obtain s' where run: "onStockReservationFailed None env ev s = (Inr (), s')"
    using cancellation_total [OF inv(1) g(1)] g
    by (auto simp: onStockReservationFailed_def transaction_Inr loadSagaForStep_def Saga_canHandle_def)
  from ids inv(2) run have "outcome s' (orderId ev) SagaStep_FAILED OrderStatus_CANCELLED"
  proof (cases rule: onStockReservationFailed_effect)
    case (moved g a)
    from effect_reads [OF moved(5,3)] show ?thesis by (simp add: outcome_def written_def Saga_fail_def)
  qed (use True in \<open>simp add: awaits_def\<close>)
  with run True show ?thesis by simp
qed (simp add: not_awaited)

lemma onStockReleased_progress:
  assumes inv: "order_inv (e_uuid env) s" "uuid_ok (e_uuid env)"
  shows "\<exists>s'. onStockReleased None env ev s = (Inr (), s') \<and>
    (if awaits s (orderId ev) SagaStep_RELEASE_STOCK
     then outcome s' (orderId ev) SagaStep_FAILED OrderStatus_CANCELLED else s' = s)"
proof (cases "awaits s (orderId ev) SagaStep_RELEASE_STOCK")
  case True
  have ids: "ids_ok (e_uuid env) s" using inv(1) by (simp add: order_inv_def)
  from True obtain g where g: "sagaOf (orderId ev) s = Some g" "Saga_canHandle SagaStep_RELEASE_STOCK g"
    by (auto simp: awaits_saga)
  obtain s' where run: "onStockReleased None env ev s = (Inr (), s')"
    using cancellation_total [OF inv(1) g(1)] g
    by (auto simp: onStockReleased_def transaction_Inr loadSagaForStep_def Saga_canHandle_def)
  from ids inv(2) run have "outcome s' (orderId ev) SagaStep_FAILED OrderStatus_CANCELLED"
  proof (cases rule: onStockReleased_effect)
    case (moved g a reason)
    from effect_reads [OF moved(5,3)] show ?thesis by (simp add: outcome_def written_def Saga_fail_def)
  qed (use True in \<open>simp add: awaits_def\<close>)
  with run True show ?thesis by simp
qed (simp add: not_awaited)

lemma orderOf_saga_update:
  "orderOf k (snd (TypeOrmSagaRepository_update env g s)) = orderOf k s"
  by (rule orderOf_cong) simp

lemma onPaymentProcessed_progress:
  assumes inv: "order_inv (e_uuid env) s" "uuid_ok (e_uuid env)"
  shows "\<exists>s'. onPaymentProcessed None env ev s = (Inr (), s') \<and>
    (if awaits s (orderId ev) SagaStep_PROCESS_PAYMENT
     then outcome s' (orderId ev) SagaStep_COMPLETED OrderStatus_CONFIRMED else s' = s)"
proof (cases "awaits s (orderId ev) SagaStep_PROCESS_PAYMENT")
  case True
  have ids: "ids_ok (e_uuid env) s" using inv(1) by (simp add: order_inv_def)
  from True obtain g where g: "sagaOf (orderId ev) s = Some g" "Saga_canHandle SagaStep_PROCESS_PAYMENT g"
    by (auto simp: awaits_saga)
  obtain a where a: "orderOf (orderId ev) s = Some a" using inv(1) g(1) by (rule inv_order)
  have adv: "\<exists>h. Saga_advance (e_now env) g = Inr h"
    using g(2) by (simp add: Saga_advance_def Saga_canHandle_def)
  obtain s' where run: "onPaymentProcessed None env ev s = (Inr (), s')"
    using a g adv by (auto simp: onPaymentProcessed_def transaction_Inr loadSagaForStep_def tx_simps
        saga_update_run orderOf_saga_update)
  from ids inv(2) run have "outcome s' (orderId ev) SagaStep_COMPLETED OrderStatus_CONFIRMED"
  proof (cases rule: onPaymentProcessed_effect)
    case (moved g' b)
    have "ord_status b = OrderStatus_CONFIRMED"
      using inv_pair(1) [OF inv(1) moved(1,3)] moved(2) by (auto simp: pair_ok_def Saga_canHandle_def)
    with effect_reads [OF moved(4,3)] show ?thesis by (simp add: outcome_def written_def view_def)
  qed (use True in \<open>simp add: awaits_def\<close>)
  with run True show ?thesis by simp
qed (simp add: not_awaited)

lemma onPaymentFailed_progress:
  assumes inv: "order_inv (e_uuid env) s" "uuid_ok (e_uuid env)"
  shows "\<exists>s'. onPaymentFailed None env ev s = (Inr (), s') \<and>
    (if awaits s (orderId ev) SagaStep_PROCESS_PAYMENT
     then outcome s' (orderId ev) SagaStep_RELEASE_STOCK OrderStatus_CONFIRMED else s' = s)"
proof (cases "awaits s (orderId ev) SagaStep_PROCESS_PAYMENT")
  case True
  have ids: "ids_ok (e_uuid env) s" using inv(1) by (simp add: order_inv_def)
  from True obtain g where g: "sagaOf (orderId ev) s = Some g" "Saga_canHandle SagaStep_PROCESS_PAYMENT g"
    by (auto simp: awaits_saga)
  obtain a where a: "orderOf (orderId ev) s = Some a" using inv(1) g(1) by (rule inv_order)
  obtain s' where run: "onPaymentFailed None env ev s = (Inr (), s')"
    using a g by (auto simp: onPaymentFailed_def transaction_Inr loadSagaForStep_def tx_simps
        saga_update_run orderOf_saga_update)
  from ids inv(2) run have "outcome s' (orderId ev) SagaStep_RELEASE_STOCK OrderStatus_CONFIRMED"
  proof (cases rule: onPaymentFailed_effect)
    case (moved g' b)
    have "ord_status b = OrderStatus_CONFIRMED"
      using inv_pair(1) [OF inv(1) moved(1,3)] moved(2) by (auto simp: pair_ok_def Saga_canHandle_def)
    with effect_reads [OF moved(4,3)] show ?thesis
      by (simp add: outcome_def written_def view_def Saga_startCompensation_def)
  qed (use True in \<open>simp add: awaits_def\<close>)
  with run True show ?thesis by simp
qed (simp add: not_awaited)

text \<open>
  C8. A reply that the saga is waiting for is never refused and has its effect: in every
  reachable state, if the database commits, stock-reserved moves the saga to the payment step
  and confirms the order (unless the amounts overflow their columns), stock-reservation-failed
  and stock-released fail the saga and cancel the order, payment-processed completes the saga
  of the confirmed order, and payment-failed starts the compensation. A reply that the saga is
  not waiting for changes nothing.
\<close>

theorem replies_take_effect:
  assumes "service_initial u st0" "run (order_step u) st0 st" "s = os_db st" "e_uuid env = u"
  shows "(fits_decimal 10 (sr_total e1) \<and> (\<forall>d \<in> set (sr_items e1). fits_decimal 10 (oi_unitPrice d)) \<longrightarrow>
      (\<exists>s'. onStockReserved None env e1 s = (Inr (), s') \<and>
        (if awaits s (orderId e1) SagaStep_RESERVE_STOCK
         then outcome s' (orderId e1) SagaStep_PROCESS_PAYMENT OrderStatus_CONFIRMED else s' = s))) \<and>
    (\<exists>s'. onStockReservationFailed None env e2 s = (Inr (), s') \<and>
        (if awaits s (orderId e2) SagaStep_RESERVE_STOCK
         then outcome s' (orderId e2) SagaStep_FAILED OrderStatus_CANCELLED else s' = s)) \<and>
    (\<exists>s'. onPaymentProcessed None env e3 s = (Inr (), s') \<and>
        (if awaits s (orderId e3) SagaStep_PROCESS_PAYMENT
         then outcome s' (orderId e3) SagaStep_COMPLETED OrderStatus_CONFIRMED else s' = s)) \<and>
    (\<exists>s'. onPaymentFailed None env e4 s = (Inr (), s') \<and>
        (if awaits s (orderId e4) SagaStep_PROCESS_PAYMENT
         then outcome s' (orderId e4) SagaStep_RELEASE_STOCK OrderStatus_CONFIRMED else s' = s)) \<and>
    (\<exists>s'. onStockReleased None env e5 s = (Inr (), s') \<and>
        (if awaits s (orderId e5) SagaStep_RELEASE_STOCK
         then outcome s' (orderId e5) SagaStep_FAILED OrderStatus_CANCELLED else s' = s))"
proof -
  have inv: "order_inv (e_uuid env) s" "uuid_ok (e_uuid env)"
    using service_reachable [OF assms(1,2)] assms(3,4) by simp_all
  show ?thesis
    using onStockReserved_progress [OF inv, of e1] onStockReservationFailed_progress [OF inv, of e2]
      onPaymentProcessed_progress [OF inv, of e3] onPaymentFailed_progress [OF inv, of e4]
      onStockReleased_progress [OF inv, of e5]
    by (intro conjI impI) (elim conjE, simp_all)
qed

theorem replies_take_effect_witness:
  "\<exists>s'. onStockReservationFailed None sample_env
       \<lparr>commandId = ''aaa'', orderId = ''a'', correlationId = ''c1'', sf_reason = ''sold out''\<rparr> (os_db one_order) =
       (Inr (), s') \<and> outcome s' ''a'' SagaStep_FAILED OrderStatus_CANCELLED"
proof -
  have "awaits (os_db one_order) ''a'' SagaStep_RESERVE_STOCK" by code_simp
  then show ?thesis
    using replies_take_effect [OF empty_service_initial one_order_reachable refl refl, of _
      "\<lparr>commandId = ''aaa'', orderId = ''a'', correlationId = ''c1'', sf_reason = ''sold out''\<rparr>"] by simp
qed

subsection \<open>The retry timer\<close>

lemma find_running_hit:
  assumes keys: "saga_keys_ok s" and g: "sagaOf k s = Some g" "sg_status g = SagaStatus_RUNNING"
    "\<not> locked (sg_id g)"
  shows "TypeOrmSagaRepository_findByIdSkipLocked locked (sg_id g) s = Some g"
proof -
  from g(1) obtain r where r: "r \<in> set (saga_states s)" "g = SagaMapper_toDomain r"
    by (auto simp: TypeOrmSagaRepository_findByOrderIdWithLock_def dest: row_of_in)
  let ?P = "\<lambda>x. se_id x = sg_id g \<and> se_status x = SagaStatus_RUNNING \<and> \<not> locked (se_id x)"
  have "?P r" using r g by simp
  then obtain x where x: "List.find ?P (saga_states s) = Some x"
    using r(1) by (cases "List.find ?P (saga_states s)") (auto simp: find_None_iff)
  then have "x \<in> set (saga_states s)" "se_id x = se_id r"
    using r(2) by (auto dest: find_in_set simp: find_Some_iff)
  then have "x = r" using keys r(1) by (auto simp: saga_keys_ok_def distinct_map dest: inj_onD)
  with x r(2) show ?thesis by (simp add: TypeOrmSagaRepository_findByIdSkipLocked_def)
qed

lemma retry_saga_total:
  assumes inv: "order_inv u s" and g: "sagaOf k s = Some g" "sg_status g = SagaStatus_RUNNING"
    "\<not> rc_locked rc (sg_id g)" and fault: "rc_fault rc = None"
  shows "\<exists>s'. retry_saga rc g s = (Inr (), s')"
proof -
  have keys: "saga_keys_ok s" using inv by (simp add: order_inv_def ids_ok_def)
  have hit: "TypeOrmSagaRepository_findByIdSkipLocked (rc_locked rc) (sg_id g) s = Some g"
    using keys g by (rule find_running_hit)
  obtain a where "orderOf k s = Some a" using inv g(1) by (rule inv_order)
  moreover have "sg_orderId g = k" using g(1) by (rule saga_repo.find_saga_order)
  ultimately show ?thesis
    using hit fault by (cases "Saga_hasExceededMaxRetries g")
      (auto simp: retry_saga_def transaction_Inr tx_simps saga_update_run orderOf_saga_update)
qed

lemma retry_resends:
  assumes inv: "order_inv (e_uuid (rc_env rc)) s" "uuid_ok (e_uuid (rc_env rc))"
    and saga: "sagaOf k s = Some g" "sg_status g = SagaStatus_RUNNING" "\<not> rc_locked rc (sg_id g)" "rc_fault rc = None"
  shows "\<exists>s' a. retry_saga rc g s = (Inr (), s') \<and> orderOf k s = Some a \<and>
    map_option view (orderOf k s') = Some (view a) \<and>
    (if sg_retryCount g < MAX_RETRIES
     then map ob_payload (rowsOf k s') = map ob_payload (rowsOf k s) @ [the (resent (sg_currentStep g) g a)] \<and>
       resent (sg_currentStep g) g a \<noteq> None \<and>
       sagaOf k s' = Some (g\<lparr>sg_retryCount := Suc (sg_retryCount g), sg_updatedAt := e_now (rc_env rc),
         sg_nextRetryAt := Some (e_now (rc_env rc) + 30000 * 2 ^ Suc (sg_retryCount g))\<rparr>)
     else outbox s' = outbox s \<and> map_option sg_currentStep (sagaOf k s') = Some SagaStep_FAILED)"
proof -
  have ids: "ids_ok (e_uuid (rc_env rc)) s" and keys: "saga_keys_ok s"
    using inv(1) by (simp_all add: order_inv_def ids_ok_def)
  have k: "sg_orderId g = k" using saga(1) by (rule saga_repo.find_saga_order)
  obtain a where a: "orderOf k s = Some a" using inv(1) saga(1) by (rule inv_order)
  have run_step: "sg_currentStep g \<in> {SagaStep_RESERVE_STOCK, SagaStep_PROCESS_PAYMENT, SagaStep_RELEASE_STOCK}"
    using inv_pair(1) [OF inv(1) saga(1) a] saga(2) by (simp add: pair_ok_def saga_wf_def)
  obtain s' where run: "retry_saga rc g s = (Inr (), s')"
    using retry_saga_total [OF inv(1) saga] by blast
  have hit: "TypeOrmSagaRepository_findByIdSkipLocked (rc_locked rc) (sg_id g) s = Some g"
    using keys saga(1-3) by (rule find_running_hit)
  show ?thesis
  proof (cases "Saga_hasExceededMaxRetries g")
    case True
    let ?g = "Saga_fail (e_now (rc_env rc)) ''Max retries exceeded'' g"
    have "s' = snd (TypeOrmSagaRepository_update (rc_env rc) ?g s)"
      using run hit True by (auto simp: retry_saga_def transaction_Inr tx_simps saga_update_run)
    then have "effect (rc_env rc) k g ?g None None s s'"
      by (intro effectI_saga [OF ids inv(2) saga(1) move_fail [OF saga(2)]])
        (simp_all add: rows_after_def Saga_fail_def)
    then have "map_option view (orderOf k s') = Some (view a)" "outbox s' = outbox s" "sagaOf k s' = Some ?g"
      using a by (simp_all add: effect_def rows_after_def written_def)
    with True run a show ?thesis by (simp add: Saga_fail_def Saga_hasExceededMaxRetries_def)
  next
    case False
    let ?g = "Saga_scheduleRetry (e_now (rc_env rc)) g"
    have s': "s' = resendCommand (rc_env rc) g a (snd (TypeOrmSagaRepository_update (rc_env rc) ?g s))"
      using run hit False a k
      by (auto simp: retry_saga_def transaction_Inr tx_simps saga_update_run orderOf_saga_update)
    have eff: "effect (rc_env rc) k g ?g None (resent (sg_currentStep g) g a) s s'"
      by (rule effectI_saga [OF ids inv(2) saga(1) move_retry [OF saga(2) False]])
        (auto simp: s' k rows_after_def Saga_scheduleRetry_def Let_def resendCommand_resent split: option.splits)
    have "map ob_payload (rowsOf k s') = map ob_payload (rowsOf k s) @ [the (resent (sg_currentStep g) g a)] \<and>
        resent (sg_currentStep g) g a \<noteq> None"
      using run_step effect_rows [OF eff, of k] by (auto simp: rows_after_def new_outbox_row_def)
    moreover have "map_option view (orderOf k s') = Some (view a)" "sagaOf k s' = Some ?g"
      using eff a by (simp_all add: effect_def written_def)
    ultimately show ?thesis
      using False run a by (simp add: Saga_scheduleRetry_def Saga_hasExceededMaxRetries_def RETRY_TIMEOUT_MS_def)
  qed
qed

text \<open>
  C10. The timer on a running saga that nobody else holds, in any reachable state: within the
  retry budget it counts the attempt, doubles the waiting time and writes the current step's
  command again, under the same command id; once three retries are spent it fails the saga and
  does nothing else. In that case the order keeps its status and total and no message is
  written: no cancellation and no release of the stock, and since a failed saga absorbs
  everything, that is final.
\<close>

theorem retry_timer_behaviour:
  assumes "service_initial u st0" "run (order_step u) st0 st" "s = os_db st" "e_uuid (rc_env rc) = u"
    and "sagaOf k s = Some g" "sg_status g = SagaStatus_RUNNING" "\<not> rc_locked rc (sg_id g)"
    and "rc_fault rc = None"
  shows "\<exists>s' a. retry_saga rc g s = (Inr (), s') \<and> orderOf k s = Some a \<and>
    map_option view (orderOf k s') = Some (view a) \<and>
    (if sg_retryCount g < MAX_RETRIES
     then map ob_payload (rowsOf k s') = map ob_payload (rowsOf k s) @ [the (resent (sg_currentStep g) g a)] \<and>
       resent (sg_currentStep g) g a \<noteq> None \<and>
       sagaOf k s' = Some (g\<lparr>sg_retryCount := Suc (sg_retryCount g), sg_updatedAt := e_now (rc_env rc),
         sg_nextRetryAt := Some (e_now (rc_env rc) + 30000 * 2 ^ Suc (sg_retryCount g))\<rparr>)
     else outbox s' = outbox s \<and> map_option sg_currentStep (sagaOf k s') = Some SagaStep_FAILED)"
proof -
  have "order_inv (e_uuid (rc_env rc)) s" "uuid_ok (e_uuid (rc_env rc))"
    using service_reachable [OF assms(1,2)] assms(3,4) by simp_all
  from retry_resends [OF this assms(5-8)] show ?thesis .
qed

text \<open>An order whose three retries are spent.\<close>

definition retry_at :: "date \<Rightarrow> retry_context" where
  "retry_at now = \<lparr>rc_env = sample_env\<lparr>e_now := now\<rparr>, rc_fault = None, rc_locked = \<lambda>_. False\<rparr>"

definition sample_retry :: "date \<Rightarrow> order_service \<Rightarrow> order_service" where
  "sample_retry now st =
     st\<lparr>os_db := retryStuckSagas (Some (now, \<lambda>rows. rows)) (\<lambda>_. retry_at now) (os_db st)\<rparr>"

definition stuck_order :: order_service where
  "stuck_order = sample_retry 3000000 (sample_retry 2000000 (sample_retry 1000000 one_order))"

lemma sample_retry_step: "order_step (e_uuid sample_env) st (sample_retry now st)"
  unfolding sample_retry_def by (rule step_timer) (simp add: retry_at_def)

lemma stuck_order_reachable: "run (order_step (e_uuid sample_env)) empty_service stuck_order"
  unfolding stuck_order_def
  by (rule run_step, rule run_step, rule run_step, rule one_order_reachable) (rule sample_retry_step)+

lemma stuck_order_saga:
  "map_option (\<lambda>g. (sg_status g, sg_retryCount g)) (sagaOf ''a'' (os_db stuck_order)) = Some (SagaStatus_RUNNING, 3)"
  "map ob_topic (outbox (os_db stuck_order)) = replicate 4 (KAFKA_TOPICS RESERVE_STOCK)"
  by code_simp+

theorem retry_timer_behaviour_witness:
  "\<exists>g s'. sagaOf ''a'' (os_db stuck_order) = Some g \<and>
     retry_saga (retry_at 9000000) g (os_db stuck_order) = (Inr (), s') \<and>
     map_option sg_currentStep (sagaOf ''a'' s') = Some SagaStep_FAILED \<and>
     map_option ord_status (orderOf ''a'' s') = Some OrderStatus_PENDING \<and> length (outbox s') = 4"
proof -
  obtain g where g: "sagaOf ''a'' (os_db stuck_order) = Some g" "sg_status g = SagaStatus_RUNNING"
    "sg_retryCount g = 3" using stuck_order_saga(1) by (auto simp: map_option_eq_Some)
  have pending: "map_option ord_status (orderOf ''a'' (os_db stuck_order)) = Some OrderStatus_PENDING"
    by code_simp
  have len: "length (outbox (os_db stuck_order)) = 4"
    using arg_cong [OF stuck_order_saga(2), of length] by simp
  obtain s' a where s': "retry_saga (retry_at 9000000) g (os_db stuck_order) = (Inr (), s')"
    "orderOf ''a'' (os_db stuck_order) = Some a" "map_option view (orderOf ''a'' s') = Some (view a)"
    "outbox s' = outbox (os_db stuck_order)" "map_option sg_currentStep (sagaOf ''a'' s') = Some SagaStep_FAILED"
    using retry_timer_behaviour [OF empty_service_initial stuck_order_reachable refl _ g(1,2), of "retry_at 9000000"] g(3)
    by (auto simp: retry_at_def MAX_RETRIES_def)
  have "map_option ord_status (orderOf ''a'' s') = Some OrderStatus_PENDING"
    using s'(2,3) pending by (cases "orderOf ''a'' s'") (auto simp: view_def)
  with g s' len show ?thesis by auto
qed

end
