(* ===== verification/Pagination.thy ===== *)
theory Pagination
  imports Shared "HOL-Library.Multiset"
begin

section \<open>Paginated lists\<close>

text \<open>
  The contract of the three list endpoints (orders, products, users): a page is a slice of the
  matching rows, newest first, and the metadata counts them. The locale states it once, with the
  lemma its clients rely on: the pages from the first to the last are the whole list. The number
  of pages is computed in binary64, which is exact as long as the count of rows is.
\<close>

lemma ceiling_fl_quotient:
  assumes "0 \<le> a" "a < 2 ^ 53" "0 < b"
  shows "\<lceil>fl (of_int a / of_int b)\<rceil> = \<lceil>of_int a / of_int b :: rat\<rceil>"
proof (cases "b dvd a")
  case True
  then obtain k where k: "a = b * k" by blast
  have "1 * \<bar>k\<bar> \<le> b * \<bar>k\<bar>" using assms(3) by (intro mult_right_mono) auto
  then have "\<bar>k\<bar> \<le> \<bar>a\<bar>" using assms(3) k by (simp add: abs_mult)
  then have "fl (of_int k) = of_int k" using assms(1,2) by (intro fl_int_exact) simp
  then show ?thesis using k assms(3) by simp
next
  case False
  let ?q = "of_int a / of_int b :: rat"
  have r: "0 < a mod b" "a mod b < b" using False assms(3) pos_mod_sign [of b a] by (auto simp: dvd_eq_mod_eq_0 le_less)
  have "(of_int a :: rat) = of_int (a div b * b + a mod b)" by simp
  then have "(of_int a :: rat) = of_int (a div b) * of_int b + of_int (a mod b)" by (simp only: of_int_add of_int_mult)
  then have q: "?q = of_int (a div b) + of_int (a mod b) / of_int b"
    using assms(3) by (simp add: add_divide_distrib)
  have "\<bar>fl ?q - ?q\<bar> \<le> ?q / 2 ^ 53" using fl_error [of ?q] assms(1,3) by simp
  also have "?q / 2 ^ 53 < 1 / of_int b"
  proof -
    have "(of_int a :: rat) < of_int (2 ^ 53)" using assms(2) by (simp only: of_int_less_iff)
    then have "(of_int a :: rat) / 2 ^ 53 < 1" by simp
    then have "of_int a / 2 ^ 53 / of_int b < (1 / of_int b :: rat)" using assms(3) by (intro divide_strict_right_mono) simp_all
    then show ?thesis by simp
  qed
  finally have e: "\<bar>fl ?q - ?q\<bar> < 1 / of_int b" .
  have low: "1 / of_int b \<le> (of_int (a mod b) / of_int b :: rat)"
    using r(1) assms(3) by (intro divide_right_mono) simp_all
  have "(of_int (a mod b) :: rat) \<le> of_int (b - 1)" using r(2) by (simp only: of_int_le_iff)
  then have "(of_int (a mod b) / of_int b :: rat) \<le> (of_int b - 1) / of_int b"
    using assms(3) by (intro divide_right_mono) simp_all
  also have "(of_int b - 1) / of_int b = 1 - 1 / (of_int b :: rat)" using assms(3) by (simp add: field_simps)
  finally have high: "(of_int (a mod b) / of_int b :: rat) \<le> 1 - 1 / of_int b" .
  have pos: "0 < (1 / of_int b :: rat)" using assms(3) by simp
  have "of_int (a div b) < fl ?q" "fl ?q < of_int (a div b) + 1" "of_int (a div b) < ?q" "?q < of_int (a div b) + 1"
    using e low high pos unfolding q by linarith+
  then have "\<lceil>fl ?q\<rceil> = a div b + 1" "\<lceil>?q\<rceil> = a div b + 1" by (intro ceiling_unique; simp)+
  then show ?thesis by simp
qed

lemma total_pages_exact:
  assumes "0 \<le> cnt" "cnt < 2 ^ 53" "0 < limit"
  shows "total_pages cnt limit = \<lceil>of_int cnt / of_int limit :: rat\<rceil>"
  using ceiling_fl_quotient [OF assms] by (simp add: total_pages_def)

lemma total_pages_cover:
  assumes "0 \<le> cnt" "cnt < 2 ^ 53" "0 < limit"
  shows "cnt \<le> total_pages cnt limit * limit" "0 \<le> total_pages cnt limit"
proof -
  have "(of_int cnt / of_int limit :: rat) \<le> of_int (total_pages cnt limit)"
    by (simp add: total_pages_exact [OF assms])
  then have "(of_int cnt :: rat) \<le> of_int (total_pages cnt limit * limit)"
    using assms(3) by (simp add: field_simps)
  then show "cnt \<le> total_pages cnt limit * limit" by (simp only: of_int_le_iff)
  with assms show "0 \<le> total_pages cnt limit"
    by (metis mult_neg_pos not_le order.trans order.strict_iff_not)
qed

lemma slices_concat: "concat (map (\<lambda>i. take k (drop (i * k) xs)) [0..<n]) = take (n * k) xs"
  by (induction n) (simp_all add: take_add [symmetric] add.commute)

lemma upto_nat_shift: "0 \<le> n \<Longrightarrow> [1..n] = map (\<lambda>i. int i + 1) [0..<nat n]"
  by (rule nth_equalityI) simp_all

text \<open>The numbers of the pages the metadata promises.\<close>

definition page_numbers :: "'a paginated_result \<Rightarrow> int list" where
  "page_numbers r = [1..pm_totalPages (pr_meta r)]"

locale paged_query =
  fixes fetch :: "'s \<Rightarrow> int \<Rightarrow> int \<Rightarrow> 'a paginated_result"
    and listed :: "'s \<Rightarrow> 'a list"
  assumes page_data: "1 \<le> page \<Longrightarrow> 1 \<le> limit \<Longrightarrow>
      pr_data (fetch s page limit) = take (nat limit) (drop (nat ((page - 1) * limit)) (listed s))"
    and page_meta: "1 \<le> page \<Longrightarrow> 1 \<le> limit \<Longrightarrow>
      pr_meta (fetch s page limit) = \<lparr>pm_page = page, pm_limit = limit, pm_total = int (length (listed s)),
        pm_totalPages = total_pages (int (length (listed s))) limit\<rparr>"
begin

lemma page_size:
  assumes "1 \<le> page" "1 \<le> limit"
  shows "int (length (pr_data (fetch s page limit))) \<le> limit"
  using assms by (simp add: page_data)

lemma pages_are_list:
  assumes "1 \<le> page" "1 \<le> limit" "length (listed s) < 2 ^ 53"
  shows "concat (map (\<lambda>p. pr_data (fetch s p limit)) (page_numbers (fetch s page limit))) = listed s"
proof -
  let ?n = "total_pages (int (length (listed s))) limit"
  have len: "int (length (listed s)) < 2 ^ 53"
    using assms(3) by (metis of_nat_less_numeral_power_cancel_iff)
  have n: "int (length (listed s)) \<le> ?n * limit" "0 \<le> ?n"
    using total_pages_cover [of "int (length (listed s))" limit] len assms(2) by auto
  have numbers: "page_numbers (fetch s page limit) = map (\<lambda>i. int i + 1) [0..<nat ?n]"
    using n(2) assms(1,2) by (simp add: page_numbers_def page_meta upto_nat_shift)
  have "concat (map (\<lambda>p. pr_data (fetch s p limit)) (page_numbers (fetch s page limit))) =
      concat (map (\<lambda>i. take (nat limit) (drop (i * nat limit) (listed s))) [0..<nat ?n])"
    unfolding numbers using assms(2) by (simp add: comp_def page_data nat_mult_distrib)
  also have "\<dots> = listed s"
    using n assms(2) by (simp add: slices_concat flip: nat_mult_distrib)
  finally show ?thesis .
qed

end

text \<open>
  The rows of a query ordered by creation time, newest first: the one list that holds them in
  strictly decreasing order, if there is one. (For rows of the same instant the database may
  choose any order, and another one for each page.)
\<close>

lemma newest_first_unique:
  assumes "mset rows = mset newest" "sorted_wrt (\<lambda>a b. (t b :: int) < t a) newest"
  shows "sort_key (\<lambda>r. - t r) rows = newest"
proof (rule sort_key_inj_key_eq [OF assms(1)])
  have "inj_on (\<lambda>r. - t r) (set xs)" if "sorted_wrt (\<lambda>a b. t b < t a) xs" for xs
    using that by (induction xs) (auto simp: inj_on_insert)
  from this [OF assms(2)] have "inj_on (\<lambda>r. - t r) (set newest)" .
  then show "inj_on (\<lambda>r. - t r) (set rows)" using assms(1) by (metis mset_eq_setD)
  show "sorted (map (\<lambda>r. - t r) newest)"
    using assms(2) by (induction newest) (auto simp: less_imp_le)
qed

end
