(* ===== verification/OrderApi.thy ===== *)
theory OrderApi
  imports OrderSafety Pagination
begin

section \<open>The HTTP interface of the order-service\<close>

text \<open>
  \<^verbatim>\<open>orders.controller.ts\<close>, \<^verbatim>\<open>orders.dto.ts\<close> and the two reading use cases. The
  pipes run before the handler: a body that fails validation, or an id that is not a UUID
  (\<open>is_uuid\<close>), never reaches it. The lemmas show that a created order can be read back by
  its owner and by nobody else, and that the pages of a user's list are the whole list, each
  order once, newest first.
\<close>

subsection \<open>orders.dto.ts\<close>

definition OrderItemDto_valid :: "(string \<Rightarrow> bool) \<Rightarrow> command_item \<Rightarrow> bool" where
  "OrderItemDto_valid is_uuid x \<longleftrightarrow> is_uuid (ci_productId x) \<and> 0 < ci_quantity x"

definition CreateOrderDto_valid :: "(string \<Rightarrow> bool) \<Rightarrow> command_item list \<Rightarrow> bool" where
  "CreateOrderDto_valid is_uuid items \<longleftrightarrow> items \<noteq> [] \<and> list_all (OrderItemDto_valid is_uuid) items"

definition OrdersPagination_valid :: "int \<Rightarrow> int \<Rightarrow> bool" where
  "OrdersPagination_valid page limit \<longleftrightarrow> 1 \<le> page \<and> 1 \<le> limit \<and> limit \<le> 100"

subsection \<open>The use cases\<close>

definition GetOrderUseCase_execute :: "string \<Rightarrow> string \<Rightarrow> (order_db, order_error, order_result) tx" where
  "GetOrderUseCase_execute i userId s =
     (case TypeOrmOrderRepository_findById i s of
        None \<Rightarrow> (Inl (OrderNotFoundError i), s)
      | Some o' \<Rightarrow> if ord_userId o' \<noteq> userId then (Inl (OrderNotFoundError i), s)
                  else (Inr (order_toResult o'), s))"

definition GetUserOrdersUseCase_execute ::
  "(order_orm list \<Rightarrow> order_orm list) \<Rightarrow> string \<Rightarrow> int \<Rightarrow> int \<Rightarrow> order_db \<Rightarrow> order_result paginated_result" where
  "GetUserOrdersUseCase_execute scan userId page limit s =
     (case TypeOrmOrderRepository_findByUser scan userId page limit s of
        (items, cnt) \<Rightarrow>
          \<lparr>pr_data = map order_toResult items,
           pr_meta = \<lparr>pm_page = page, pm_limit = limit, pm_total = cnt, pm_totalPages = total_pages cnt limit\<rparr>\<rparr>)"

subsection \<open>orders.controller.ts\<close>

text \<open>A header that is missing or empty fails the check \<^verbatim>\<open>!userId\<close>.\<close>

definition with_user ::
  "string option \<Rightarrow> (string \<Rightarrow> (order_db, http_exception, 'a) tx) \<Rightarrow> (order_db, http_exception, 'a) tx" where
  "with_user userId k =
     (case userId of
        None \<Rightarrow> raise (UnauthorizedException ''Missing user id'')
      | Some u \<Rightarrow> if u = '''' then raise (UnauthorizedException ''Missing user id'') else k u)"

text \<open>Errors that no handler translates are answered with status 500.\<close>

definition or_500 :: "(order_db, order_error, 'a) tx \<Rightarrow> (order_db, http_exception, 'a) tx" where
  "or_500 m s = (case m s of (Inl e, s') \<Rightarrow> (Inl (InternalError ''Internal server error''), s') | (Inr a, s') \<Rightarrow> (Inr a, s'))"

definition OrdersController_create ::
  "order_error option \<Rightarrow> env \<Rightarrow> (string \<Rightarrow> bool) \<Rightarrow> command_item list \<Rightarrow> string option \<Rightarrow> string option \<Rightarrow> string option \<Rightarrow>
    (order_db, http_exception, order_result) tx" where
  "OrdersController_create fault env is_uuid items userId userEmail correlation =
     (if \<not> CreateOrderDto_valid is_uuid items then raise (BadRequestException ''Validation failed'')
      else with_user userId (\<lambda>u.
        or_500 (CreateOrderUseCase_execute fault env
          \<lparr>in_userId = u, in_userEmail = userEmail,
           in_correlationId = (case correlation of Some c \<Rightarrow> c | None \<Rightarrow> ''''), in_items = items\<rparr>)))"

definition OrdersController_findAll ::
  "(order_orm list \<Rightarrow> order_orm list) \<Rightarrow> int \<Rightarrow> int \<Rightarrow> string option \<Rightarrow>
    (order_db, http_exception, order_result paginated_result) tx" where
  "OrdersController_findAll scan page limit userId =
     (if \<not> OrdersPagination_valid page limit then raise (BadRequestException ''Validation failed'')
      else with_user userId (\<lambda>u s. (Inr (GetUserOrdersUseCase_execute scan u page limit s), s)))"

definition OrdersController_findById ::
  "(string \<Rightarrow> bool) \<Rightarrow> string \<Rightarrow> string option \<Rightarrow> (order_db, http_exception, order_result) tx" where
  "OrdersController_findById is_uuid i userId =
     (if \<not> is_uuid i then raise (BadRequestException ''Validation failed (uuid is expected)'')
      else with_user userId (\<lambda>u s.
        case GetOrderUseCase_execute i u s of
          (Inl (OrderNotFoundError j), s') \<Rightarrow> (Inl (NotFoundException (''Order '' @ j @ '' not found'')), s')
        | (Inl _, s') \<Rightarrow> (Inl (InternalError ''Internal server error''), s')
        | (Inr r, s') \<Rightarrow> (Inr r, s')))"

subsection \<open>Reading back\<close>

lemma create_ok:
  assumes "OrdersController_create fault env is_uuid items userId email corr s = (Inr r, s')"
  obtains u c where "userId = Some u" "u \<noteq> ''''" "CreateOrderDto_valid is_uuid items"
    "CreateOrderUseCase_execute fault env \<lparr>in_userId = u, in_userEmail = email, in_correlationId = c, in_items = items\<rparr> s = (Inr r, s')"
  using assms
  by (auto simp: OrdersController_create_def with_user_def or_500_def raise_def split: if_splits option.splits prod.splits sum.splits)

text \<open>
  C35. An order that was accepted can be read by the user who placed it, under the id of the
  answer, pending, with the lines that were asked for and no total yet; anybody else gets the
  same answer as for an order that does not exist.
\<close>

theorem created_order_readable:
  assumes "order_inv ru s" "uuid_ok ru" "e_uuid env = ru"
    and "OrdersController_create fault env is_uuid items (Some u) email corr s = (Inr r, s')"
    and "is_uuid (or_id r)" "v \<noteq> u" "v \<noteq> ''''"
  shows "(\<exists>q. OrdersController_findById is_uuid (or_id r) (Some u) s' = (Inr q, s') \<and> or_id q = or_id r \<and>
      or_userId q = u \<and> or_status q = ''pending'' \<and> or_total q = 0 \<and>
      map (\<lambda>i. (ir_productId i, ir_quantity i)) (or_items q) = map (\<lambda>i. (ci_productId i, ci_quantity i)) items) \<and>
    OrdersController_findById is_uuid (or_id r) (Some v) s' =
      (Inl (NotFoundException (''Order '' @ or_id r @ '' not found'')), s')"
proof -
  let ?input = "\<lambda>c. \<lparr>in_userId = u, in_userEmail = email, in_correlationId = c, in_items = items\<rparr>"
  obtain c where u: "u \<noteq> ''''" and run: "CreateOrderUseCase_execute fault env (?input c) s = (Inr r, s')"
    using create_ok [OF assms(4)] by (metis option.inject)
  obtain em where new: "orders s' = orders s @ [created_order env (seq s) em (?input c)]" "or_id r = ru (seq s)"
    using create_run [OF run] assms(3) by metis
  have "ru (seq s) \<notin> set (map oe_id (orders s))"
    using assms(1,2) by (intro fresh_id [of ru _ "seq s"]) (auto simp: order_inv_def ids_ok_def)
  then have row: "row_of oe_id (or_id r) (orders s') = Some (created_order env (seq s) em (?input c))"
    using new assms(3) by (simp add: row_of_snoc row_of_None created_order_def store_order_def)
  let ?o = "OrderMapper_toDomain (created_order env (seq s) em (?input c))"
  have o: "TypeOrmOrderRepository_findById (or_id r) s' = Some ?o"
    by (simp add: TypeOrmOrderRepository_findById_def row)
  have owner: "ord_userId ?o = u" by (simp add: OrderMapper_toDomain_def created_order_def store_order_def)
  have "map (\<lambda>i. (ir_productId i, ir_quantity i)) (or_items (order_toResult ?o)) =
      map (\<lambda>i. (ci_productId i, ci_quantity i)) (order_lines ?o)"
    by (simp add: order_toResult_def order_lines_def)
  then have "map (\<lambda>i. (ir_productId i, ir_quantity i)) (or_items (order_toResult ?o)) =
      map (\<lambda>i. (ci_productId i, ci_quantity i)) items"
    by (simp add: created_order_lines)
  moreover have "or_id (order_toResult ?o) = or_id r" "or_userId (order_toResult ?o) = u"
    "or_status (order_toResult ?o) = ''pending''" "or_total (order_toResult ?o) = 0"
    using new(2) assms(3) by (simp_all add: order_toResult_def OrderMapper_toDomain_def created_order_def store_order_def)
  ultimately show ?thesis
    using o owner u assms(5-7) by (simp add: OrdersController_findById_def with_user_def GetOrderUseCase_execute_def)
qed

definition sample_items :: "command_item list" where
  "sample_items = [\<lparr>ci_productId = ''p1'', ci_quantity = 2\<rparr>]"

definition empty_db :: order_db where
  "empty_db = os_db empty_service"

theorem created_order_readable_witness:
  "\<exists>r s' q. OrdersController_create None sample_env (\<lambda>_. True) sample_items (Some ''u1'') (Some ''u@x'') (Some ''c1'') empty_db = (Inr r, s') \<and>
     OrdersController_findById (\<lambda>_. True) (or_id r) (Some ''u1'') s' = (Inr q, s') \<and>
     map (\<lambda>i. (ir_productId i, ir_quantity i)) (or_items q) = [(''p1'', 2)] \<and>
     OrdersController_findById (\<lambda>_. True) (or_id r) (Some ''u2'') s' = (Inl (NotFoundException (''Order '' @ or_id r @ '' not found'')), s')"
proof -
  let ?run = "OrdersController_create None sample_env (\<lambda>_. True) sample_items (Some ''u1'') (Some ''u@x'') (Some ''c1'') empty_db"
  have "case fst ?run of Inl e \<Rightarrow> False | Inr r \<Rightarrow> True" by code_simp
  then obtain r s' where run: "?run = (Inr r, s')" by (cases ?run) (auto split: sum.splits)
  have "order_inv (e_uuid sample_env) empty_db"
    using service_initial_inv [OF empty_service_initial] by (simp add: service_inv_def empty_db_def)
  from created_order_readable [OF this sample_uuid_ok refl run, of "''u2''"] run
  show ?thesis by (auto simp: sample_items_def)
qed

subsection \<open>The pages of a user's orders\<close>

definition user_orders :: "(order_orm list \<Rightarrow> order_orm list) \<Rightarrow> string \<times> order_db \<Rightarrow> order_result list" where
  "user_orders scan us = (case us of (u, s) \<Rightarrow>
     map (order_toResult \<circ> OrderMapper_toDomain) (sort_key (\<lambda>r. - oe_createdAt r) (scan (filter (\<lambda>r. oe_userId r = u) (orders s)))))"

interpretation order_pages: paged_query "\<lambda>us page limit. GetUserOrdersUseCase_execute scan (fst us) page limit (snd us)" "user_orders scan"
  for scan
  by unfold_locales
    (auto simp: GetUserOrdersUseCase_execute_def TypeOrmOrderRepository_findByUser_def user_orders_def Let_def take_map drop_map
      split: prod.splits)

text \<open>
  C36. A client that asks for page 1, reads the number of pages from the answer and fetches them
  all gets every order of the user exactly once, from the newest to the oldest, and no order of
  another user; each page has at most \<open>limit\<close> orders, and it does not matter in what order the database comes upon the
  rows, be it another one for each page. \<open>newest\<close> is the user's rows in strictly
  decreasing order of creation: for orders of the same instant the query promises no order.
\<close>

theorem order_pages_complete:
  assumes "1 \<le> limit" "limit \<le> 100" "u \<noteq> ''''" "length newest < 2 ^ 53"
    and "mset newest = mset (filter (\<lambda>r. oe_userId r = u) (orders s))"
    and "sorted_wrt (\<lambda>a b. oe_createdAt b < oe_createdAt a) newest"
    and "\<And>p rows. mset (scan p rows) = mset rows"
  shows "\<exists>first page. OrdersController_findAll (scan 1) 1 limit (Some u) s = (Inr first, s) \<and>
    (\<forall>p \<in> set (page_numbers first). OrdersController_findAll (scan p) p limit (Some u) s = (Inr (page p), s) \<and>
      int (length (pr_data (page p))) \<le> limit) \<and>
    concat (map (\<lambda>p. pr_data (page p)) (page_numbers first)) = map (order_toResult \<circ> OrderMapper_toDomain) newest"
proof (intro exI conjI)
  let ?page = "\<lambda>p. GetUserOrdersUseCase_execute (scan p) u p limit s"
  have sorted: "sort_key (\<lambda>r. - oe_createdAt r) (scan p (filter (\<lambda>r. oe_userId r = u) (orders s))) = newest" for p
    by (rule newest_first_unique) (simp_all add: assms(5-7))
  then have same: "?page p = GetUserOrdersUseCase_execute (scan 1) u p limit s" for p
    by (simp add: GetUserOrdersUseCase_execute_def TypeOrmOrderRepository_findByUser_def)
  have ok: "OrdersController_findAll (scan p) p limit (Some u) s = (Inr (?page p), s)" if "1 \<le> p" for p
    using that assms(1-3) by (simp add: OrdersController_findAll_def OrdersPagination_valid_def with_user_def)
  show "OrdersController_findAll (scan 1) 1 limit (Some u) s = (Inr (?page 1), s)" by (simp add: ok)
  show "\<forall>p \<in> set (page_numbers (?page 1)). OrdersController_findAll (scan p) p limit (Some u) s = (Inr (?page p), s) \<and>
      int (length (pr_data (?page p))) \<le> limit"
    using ok order_pages.page_size [of _ limit "scan _" "(u, s)"] assms(1) by (auto simp: page_numbers_def)
  have listed: "user_orders (scan 1) (u, s) = map (order_toResult \<circ> OrderMapper_toDomain) newest"
    using sorted by (simp add: user_orders_def)
  have pages: "map (\<lambda>p. pr_data (?page p)) xs = map (\<lambda>p. pr_data (GetUserOrdersUseCase_execute (scan 1) u p limit s)) xs" for xs
    using same by (intro map_cong) (auto dest: arg_cong [where f = pr_data])
  show "concat (map (\<lambda>p. pr_data (?page p)) (page_numbers (?page 1))) = map (order_toResult \<circ> OrderMapper_toDomain) newest"
    using order_pages.pages_are_list [of 1 limit "scan 1" "(u, s)"] assms(1,4) listed unfolding pages by simp
qed

definition two_orders :: order_db where
  "two_orders =
     (let create = (\<lambda>now u s. snd (OrdersController_create None (sample_env\<lparr>e_now := now\<rparr>) (\<lambda>_. True) sample_items
            (Some u) (Some ''u@x'') None s))
      in create 3000 ''u1'' (create 2000 ''u2'' (create 1000 ''u1'' empty_db)))"

text \<open>A database that comes upon the rows backwards on every other page.\<close>

definition backwards :: "int \<Rightarrow> 'a list \<Rightarrow> 'a list" where
  "backwards p rows = (if even p then rev rows else rows)"

theorem order_pages_complete_witness:
  "\<exists>first page. OrdersController_findAll (backwards 1) 1 1 (Some ''u1'') two_orders = (Inr first, two_orders) \<and>
     page_numbers first = [1, 2] \<and>
     OrdersController_findAll (backwards 2) 2 1 (Some ''u1'') two_orders = (Inr (page 2), two_orders) \<and>
     concat (map (\<lambda>p. pr_data (page p)) [1, 2 :: int]) =
       map (order_toResult \<circ> OrderMapper_toDomain) (rev (filter (\<lambda>r. oe_userId r = ''u1'') (orders two_orders)))"
proof -
  let ?newest = "rev (filter (\<lambda>r. oe_userId r = ''u1'') (orders two_orders))"
  have "map oe_createdAt ?newest = [3000, 1000]" by code_simp
  then have "length ?newest < 2 ^ 53" "sorted_wrt (\<lambda>a b. oe_createdAt b < oe_createdAt a) ?newest"
    using sorted_wrt_map [of "(>)" oe_createdAt ?newest] by (auto dest: arg_cong [where f = length])
  moreover have shuffled: "mset (backwards p rows) = mset rows" for p and rows :: "order_orm list" by (simp add: backwards_def)
  ultimately have "\<exists>first page. OrdersController_findAll (backwards 1) 1 1 (Some ''u1'') two_orders = (Inr first, two_orders) \<and>
      (\<forall>p \<in> set (page_numbers first). OrdersController_findAll (backwards p) p 1 (Some ''u1'') two_orders = (Inr (page p), two_orders) \<and>
        int (length (pr_data (page p))) \<le> 1) \<and>
      concat (map (\<lambda>p. pr_data (page p)) (page_numbers first)) = map (order_toResult \<circ> OrderMapper_toDomain) ?newest"
    by (intro order_pages_complete) simp_all
  then obtain first page where run: "OrdersController_findAll (backwards 1) 1 1 (Some ''u1'') two_orders = (Inr first, two_orders)"
    and pages: "\<forall>p \<in> set (page_numbers first). OrdersController_findAll (backwards p) p 1 (Some ''u1'') two_orders = (Inr (page p), two_orders) \<and>
        int (length (pr_data (page p))) \<le> 1"
    and all: "concat (map (\<lambda>p. pr_data (page p)) (page_numbers first)) = map (order_toResult \<circ> OrderMapper_toDomain) ?newest"
    by (elim exE conjE)
  have "(case fst (OrdersController_findAll (backwards 1) 1 1 (Some ''u1'') two_orders) of Inl _ \<Rightarrow> [] | Inr r \<Rightarrow> page_numbers r) = [1, 2]"
    by code_simp
  with run have "page_numbers first = [1, 2]" by simp
  with run pages all show ?thesis by (intro exI [of _ first] exI [of _ page]) simp
qed

end
