(* ===== verification/SagaTermination.thy ===== *)
theory SagaTermination
  imports OrderSafety
begin

section \<open>Every saga comes to rest\<close>

text \<open>
  Two facts about time. In an execution that never ends, whatever is received and whenever the
  timers fire, the saga of an order changes finitely often, by the measure of
  \<open>saga_move_rank\<close>. And if no reply ever comes, the timer alone ends it: after the
  retries that are left, one more run fails the saga, and one command was sent for each retry.
\<close>

subsection \<open>Finitely many changes\<close>

definition saga_progress :: "saga option \<Rightarrow> nat" where
  "saga_progress g = (case g of None \<Rightarrow> 0 | Some h \<Rightarrow> Suc (4 * step_rank (sg_currentStep h) + sg_retryCount h))"

lemma saga_progress_le: "(\<And>h. g = Some h \<Longrightarrow> saga_wf h) \<Longrightarrow> saga_progress g \<le> 16"
proof (cases g)
  case (Some h)
  assume "\<And>h. g = Some h \<Longrightarrow> saga_wf h"
  with Some have "sg_retryCount h \<le> 3" by (simp add: saga_wf_def MAX_RETRIES_def)
  moreover have "step_rank (sg_currentStep h) \<le> 3" by (cases "sg_currentStep h") auto
  ultimately show ?thesis using Some by (simp add: saga_progress_def)
qed (simp add: saga_progress_def)

lemma saga_run_progress:
  assumes "run saga_move g g'" "saga_wf g"
  shows "saga_wf g' \<and> (g' = g \<or> saga_progress (Some g) < saga_progress (Some g'))"
  using assms
proof (induction rule: run.induct)
  case (run_step g h h')
  then show ?case using saga_move_rank [of h h'] saga_move_wf [of h h'] by (auto simp: saga_progress_def)
qed simp

text \<open>A bounded counter that grows with every event leaves room for finitely many events.\<close>

lemma finite_changes:
  fixes p :: "nat \<Rightarrow> nat"
  assumes bound: "\<And>n. p n \<le> b" and mono: "\<And>n. p n \<le> p (Suc n)" and grow: "\<And>n. n \<in> D \<Longrightarrow> p n < p (Suc n)"
  shows "finite D \<and> card D \<le> b"
proof -
  have initial: "card (D \<inter> {..<n}) \<le> p n" for n
  proof (induction n)
    case (Suc n)
    have "D \<inter> {..<Suc n} = (if n \<in> D then insert n (D \<inter> {..<n}) else D \<inter> {..<n})"
      by (auto simp: less_Suc_eq)
    with Suc mono [of n] grow [of n] show ?case by (auto split: if_splits)
  qed simp
  have small: "card T \<le> b" if T: "T \<subseteq> D" "finite T" for T
  proof -
    obtain n where "\<forall>i \<in> T. i < n" using T(2) by (auto simp: finite_nat_set_iff_bounded)
    then have "T \<subseteq> {..<n}" by auto
    then have "card T \<le> card (D \<inter> {..<n})" using T(1) by (intro card_mono) auto
    also have "\<dots> \<le> b" using initial [of n] bound [of n] by simp
    finally show ?thesis .
  qed
  have "finite D"
  proof (rule ccontr)
    assume "infinite D"
    then obtain T where "T \<subseteq> D" "finite T" "card T = Suc b" using infinite_arbitrarily_large by blast
    with small [of T] show False by simp
  qed
  with small show ?thesis by blast
qed

lemma execution_reachable:
  assumes "\<And>i. order_step u (f i) (f (Suc i))"
  shows "run (order_step u) (f 0) (f i)"
  by (induction i) (auto intro: run_refl run_step assms)

lemma execution_progress:
  assumes "service_initial u (f 0)" "\<And>i. order_step u (f i) (f (Suc i))"
  shows "saga_progress (sagaOf k (os_db (f i))) \<le> 16"
    "sagaOf k (os_db (f (Suc i))) \<noteq> sagaOf k (os_db (f i)) \<Longrightarrow>
       saga_progress (sagaOf k (os_db (f i))) < saga_progress (sagaOf k (os_db (f (Suc i))))"
proof -
  have inv: "service_inv u (f i)" and oinv: "order_inv u (os_db (f i))" for i
    using service_reachable [OF assms(1) execution_reachable [of u f, OF assms(2)]] by simp_all
  have sound: "saga_wf h" if h: "sagaOf k (os_db (f i)) = Some h" for h i
  proof -
    obtain a where "orderOf k (os_db (f i)) = Some a" using oinv h by (rule inv_order)
    from inv_pair(1) [OF oinv h this] show ?thesis by (simp add: pair_ok_def)
  qed
  then show "saga_progress (sagaOf k (os_db (f i))) \<le> 16" by (intro saga_progress_le)
  assume change: "sagaOf k (os_db (f (Suc i))) \<noteq> sagaOf k (os_db (f i))"
  show "saga_progress (sagaOf k (os_db (f i))) < saga_progress (sagaOf k (os_db (f (Suc i))))"
  proof (cases "sagaOf k (os_db (f i))")
    case None
    with change show ?thesis by (auto simp: saga_progress_def split: option.splits)
  next
    case (Some g)
    obtain g' where "sagaOf k (os_db (f (Suc i))) = Some g'" "run saga_move g g'"
      using order_step_moves [OF assms(2) inv] Some unfolding moves_def by blast
    with saga_run_progress [OF this(2) sound [OF Some]] change Some show ?thesis by auto
  qed
qed

subsection \<open>The timer alone\<close>

text \<open>\<open>n\<close> transactions of the timer on the saga of one order, with nothing in between.\<close>

fun retry_times :: "(nat \<Rightarrow> retry_context) \<Rightarrow> string \<Rightarrow> nat \<Rightarrow> order_db \<Rightarrow> order_db" where
  "retry_times rcs k 0 s = s"
| "retry_times rcs k (Suc n) s =
     (case sagaOf k s of None \<Rightarrow> s | Some g \<Rightarrow> retry_times (\<lambda>i. rcs (Suc i)) k n (snd (retry_saga (rcs 0) g s)))"

definition timer_free :: "(nat \<Rightarrow> string) \<Rightarrow> (nat \<Rightarrow> retry_context) \<Rightarrow> bool" where
  "timer_free u rcs \<longleftrightarrow> (\<forall>i. e_uuid (rc_env (rcs i)) = u \<and> rc_fault (rcs i) = None \<and> (\<forall>j. \<not> rc_locked (rcs i) j))"

lemma retries_end:
  assumes "order_inv u s" "uuid_ok u" "timer_free u rcs" "sagaOf k s = Some g" "sg_status g = SagaStatus_RUNNING"
    and "n = MAX_RETRIES - sg_retryCount g" "sg_retryCount g \<le> MAX_RETRIES"
  shows "map_option sg_currentStep (sagaOf k (retry_times rcs k (Suc n) s)) = Some SagaStep_FAILED \<and>
    length (rowsOf k (retry_times rcs k (Suc n) s)) = length (rowsOf k s) + n"
  using assms
proof (induction n arbitrary: s g rcs)
  case 0
  have rc: "e_uuid (rc_env (rcs 0)) = u" "rc_fault (rcs 0) = None" "\<not> rc_locked (rcs 0) (sg_id g)"
    using 0(3) by (simp_all add: timer_free_def)
  obtain s' where "retry_saga (rcs 0) g s = (Inr (), s')" "outbox s' = outbox s"
    "map_option sg_currentStep (sagaOf k s') = Some SagaStep_FAILED"
    using retry_resends [of "rcs 0" s k g] 0 rc by auto
  with 0 show ?case by (simp add: rowsOf_def)
next
  case (Suc n)
  have rc: "e_uuid (rc_env (rcs 0)) = u" "rc_fault (rcs 0) = None" "\<not> rc_locked (rcs 0) (sg_id g)"
    and free: "timer_free u (\<lambda>i. rcs (Suc i))"
    using Suc.prems(3) by (simp_all add: timer_free_def)
  have less: "sg_retryCount g < MAX_RETRIES" using Suc.prems(6) by simp
  obtain s' a where run: "retry_saga (rcs 0) g s = (Inr (), s')"
    and written: "map ob_payload (rowsOf k s') = map ob_payload (rowsOf k s) @ [the (resent (sg_currentStep g) g a)]"
    and saga: "sagaOf k s' = Some (g\<lparr>sg_retryCount := Suc (sg_retryCount g), sg_updatedAt := e_now (rc_env (rcs 0)),
         sg_nextRetryAt := Some (e_now (rc_env (rcs 0)) + 30000 * 2 ^ Suc (sg_retryCount g))\<rparr>)"
    using retry_resends [of "rcs 0" s k g] Suc.prems(1,2,4,5) rc less by auto
  have rows: "length (rowsOf k s') = Suc (length (rowsOf k s))" using arg_cong [OF written, of length] by simp
  have "order_inv u s'"
    using retry_saga_keeps [of "rcs 0" s g] Suc.prems(1,2) rc(1) run by (simp add: keeps_def)
  note later = Suc.IH [OF this Suc.prems(2) free saga]
  have "map_option sg_currentStep (sagaOf k (retry_times (\<lambda>i. rcs (Suc i)) k (Suc n) s')) = Some SagaStep_FAILED \<and>
      length (rowsOf k (retry_times (\<lambda>i. rcs (Suc i)) k (Suc n) s')) = length (rowsOf k s') + n"
    by (rule later) (use Suc.prems(5,6) less in simp_all)
  then show ?case using Suc.prems(4) run rows by (simp only: retry_times.simps(2) [of rcs k "Suc n"] option.case snd_conv) simp
qed

text \<open>
  C11. Every saga comes to rest. In an execution of the order-service that goes on for ever,
  with any replies, duplicates, failures and timers, the saga of an order changes at most
  sixteen times, its creation included. And an order whose replies never come does not wait for
  ever: from any state of the execution in which its saga is running, the timer alone fails it
  after the retries that are left and one more run, having sent exactly one command per retry.
\<close>

theorem sagas_settle:
  assumes "service_initial u (f 0)" "\<And>i. order_step u (f i) (f (Suc i))"
  shows "finite {i. sagaOf k (os_db (f (Suc i))) \<noteq> sagaOf k (os_db (f i))} \<and>
    card {i. sagaOf k (os_db (f (Suc i))) \<noteq> sagaOf k (os_db (f i))} \<le> 16 \<and>
    (\<forall>i g rcs. sagaOf k (os_db (f i)) = Some g \<longrightarrow> sg_status g = SagaStatus_RUNNING \<longrightarrow> timer_free u rcs \<longrightarrow>
       (let n = MAX_RETRIES - sg_retryCount g; s' = retry_times rcs k (Suc n) (os_db (f i))
        in map_option sg_currentStep (sagaOf k s') = Some SagaStep_FAILED \<and>
          length (rowsOf k s') = length (rowsOf k (os_db (f i))) + n))"
proof -
  let ?p = "\<lambda>i. saga_progress (sagaOf k (os_db (f i)))"
  note progress = execution_progress [of u f, OF assms]
  have "?p i \<le> ?p (Suc i)" for i using progress(2) [of k i] by (metis less_imp_le order_refl)
  then have "finite {i. sagaOf k (os_db (f (Suc i))) \<noteq> sagaOf k (os_db (f i))} \<and>
      card {i. sagaOf k (os_db (f (Suc i))) \<noteq> sagaOf k (os_db (f i))} \<le> 16"
    using progress by (intro finite_changes [of ?p]) auto
  moreover have "map_option sg_currentStep (sagaOf k (retry_times rcs k (Suc n) (os_db (f i)))) = Some SagaStep_FAILED \<and>
      length (rowsOf k (retry_times rcs k (Suc n) (os_db (f i)))) = length (rowsOf k (os_db (f i))) + n"
    if g: "sagaOf k (os_db (f i)) = Some g" "sg_status g = SagaStatus_RUNNING" "timer_free u rcs"
      "n = MAX_RETRIES - sg_retryCount g" for i g rcs n
  proof -
    note reach = service_reachable [OF assms(1) execution_reachable [of u f i, OF assms(2)]]
    obtain a where "orderOf k (os_db (f i)) = Some a" using reach(2) g(1) by (rule inv_order)
    from inv_pair(1) [OF reach(2) g(1) this] have "sg_retryCount g \<le> MAX_RETRIES" by (simp add: pair_ok_def saga_wf_def)
    with retries_end [OF reach(2,1) g(3,1,2,4)] show ?thesis by blast
  qed
  ultimately show ?thesis by (auto simp: Let_def)
qed

text \<open>One order, and after that a timer that finds nothing to do, for ever.\<close>

definition quiet_execution :: "nat \<Rightarrow> order_service" where
  "quiet_execution i = (if i = 0 then empty_service else one_order)"

lemma quiet_execution_steps: "order_step (e_uuid sample_env) (quiet_execution i) (quiet_execution (Suc i))"
proof (cases i)
  case 0
  have "order_step (e_uuid sample_env) empty_service one_order" unfolding one_order_def by (rule step_create) (rule refl)
  with 0 show ?thesis by (simp add: quiet_execution_def)
next
  case (Suc j)
  have "order_step (e_uuid sample_env) one_order (one_order\<lparr>os_db := retryStuckSagas None (\<lambda>_. retry_at 0) (os_db one_order)\<rparr>)"
    by (rule step_timer) (simp add: retry_at_def)
  with Suc show ?thesis by (simp add: quiet_execution_def retryStuckSagas_def)
qed

theorem sagas_settle_witness:
  "finite {i. sagaOf ''a'' (os_db (quiet_execution (Suc i))) \<noteq> sagaOf ''a'' (os_db (quiet_execution i))} \<and>
   map_option sg_currentStep (sagaOf ''a'' (retry_times (\<lambda>_. retry_at 5000) ''a'' 4 (os_db one_order))) = Some SagaStep_FAILED \<and>
   length (rowsOf ''a'' (retry_times (\<lambda>_. retry_at 5000) ''a'' 4 (os_db one_order))) = 4"
proof -
  have init: "service_initial (e_uuid sample_env) (quiet_execution 0)"
    using empty_service_initial by (simp add: quiet_execution_def)
  have "map_option (\<lambda>g. (sg_status g, sg_retryCount g)) (sagaOf ''a'' (os_db one_order)) = Some (SagaStatus_RUNNING, 0)"
    and rows: "length (rowsOf ''a'' (os_db one_order)) = 1" by code_simp+
  then obtain g where g: "sagaOf ''a'' (os_db (quiet_execution 1)) = Some g" "sg_status g = SagaStatus_RUNNING" "sg_retryCount g = 0"
    by (auto simp: quiet_execution_def)
  have free: "timer_free (e_uuid sample_env) (\<lambda>_. retry_at 5000)" by (simp add: timer_free_def retry_at_def)
  note settle = sagas_settle [of "e_uuid sample_env" quiet_execution "''a''", OF init quiet_execution_steps]
  from settle have "finite {i. sagaOf ''a'' (os_db (quiet_execution (Suc i))) \<noteq> sagaOf ''a'' (os_db (quiet_execution i))}" by blast
  moreover note settle [THEN conjunct2, THEN conjunct2, rule_format, OF g(1,2) free, unfolded Let_def g(3) diff_zero]
  moreover have "Suc MAX_RETRIES = 4" "os_db (quiet_execution 1) = os_db one_order"
    by (simp_all add: MAX_RETRIES_def quiet_execution_def)
  ultimately show ?thesis using rows by (simp only:) (simp add: MAX_RETRIES_def)
qed

end
