(* ===== verification/Idempotency.thy ===== *)
theory Idempotency
  imports Outbox
begin

section \<open>Idempotent command handlers\<close>

text \<open>
  \<^verbatim>\<open>idempotency.entity.ts\<close> and \<^verbatim>\<open>idempotency.service.ts\<close>, which the product-
  and the payment-service share word for word: the table of processed commands and the reply
  each of them got. \<open>idempotent_consumer\<close> is the contract the saga controllers of both
  services are written to: the first delivery of a command changes the business state and
  stores its reply, a redelivery changes nothing and sends the stored reply again, a failed
  delivery leaves no trace. Its clients get, for any sequence of deliveries, that each command
  takes effect at most once and is always answered alike.
\<close>

subsection \<open>The table and its service\<close>

record idempotency_key =
  ik_key :: string
  ik_replyTopic :: string
  ik_replyPayload :: payload
  ik_processedAt :: date

record idem_db = outbox_db +
  idempotency_keys :: "idempotency_key list"

definition IdempotencyService_find :: "string \<Rightarrow> 'a idem_db_scheme \<Rightarrow> (string \<times> payload) option" where
  "IdempotencyService_find k s =
     (case row_of ik_key k (idempotency_keys s) of
        None \<Rightarrow> None
      | Some r \<Rightarrow> Some (ik_replyTopic r, ik_replyPayload r))"

definition IdempotencyService_save ::
  "env \<Rightarrow> string \<Rightarrow> string \<Rightarrow> payload \<Rightarrow> 'a idem_db_scheme \<Rightarrow> 'a idem_db_scheme" where
  "IdempotencyService_save env k replyTopic replyPayload s =
     s\<lparr>idempotency_keys := save_row ik_key \<lparr>ik_key = k, ik_replyTopic = replyTopic,
         ik_replyPayload = replyPayload, ik_processedAt = e_now env\<rparr> (idempotency_keys s)\<rparr>"

lemma find_save:
  "IdempotencyService_find k (IdempotencyService_save env j t p s) =
     (if k = j then Some (t, p) else IdempotencyService_find k s)"
  by (simp add: IdempotencyService_find_def IdempotencyService_save_def tab_simps)

lemma find_cong:
  "idempotency_keys s' = idempotency_keys s \<Longrightarrow> IdempotencyService_find k s' = IdempotencyService_find k s"
  by (simp add: IdempotencyService_find_def)

lemma save_frame [simp]:
  "outbox (IdempotencyService_save env j t p s) = outbox s"
  "seq (IdempotencyService_save env j t p s) = seq s"
  "idem_db.more (IdempotencyService_save env j t p s) = idem_db.more s"
  by (simp_all add: IdempotencyService_save_def)

lemma write_frame [simp]:
  "outbox (OutboxService_write env a t k p s) = outbox s @ [new_outbox_row env (seq s) a t k p]"
  "idempotency_keys (OutboxService_write env a t k p s) = idempotency_keys s"
  "idem_db.more (OutboxService_write env a t k p s) = idem_db.more s"
  by (simp_all add: OutboxService_write_def)

text \<open>What the outbox says to the outside: topic and payload of its rows, in the order written.\<close>

definition written_replies :: "'a outbox_db_scheme \<Rightarrow> (string \<times> payload) list" where
  "written_replies s = map (\<lambda>r. (ob_topic r, ob_payload r)) (outbox s)"

lemma written_replies_write [simp]:
  "written_replies (OutboxService_write env a t k p s) = written_replies s @ [(t, p)]"
  by (simp add: written_replies_def OutboxService_write_def new_outbox_row_def)

lemma written_replies_save [simp]:
  "written_replies (IdempotencyService_save env j t p s) = written_replies s"
  by (simp add: written_replies_def)

lemma find_write [simp]:
  "IdempotencyService_find j (OutboxService_write env a t k p s) = IdempotencyService_find j s"
  by (rule find_cong) simp

text \<open>
  The two calls every handler of a fresh command ends with, in the same transaction: the reply
  is stored under the command's id and written to the outbox.
\<close>

definition reply_with ::
  "env \<Rightarrow> 'c base_command_scheme \<Rightarrow> topic_key \<Rightarrow> payload \<Rightarrow> 'a idem_db_scheme \<Rightarrow> 'a idem_db_scheme" where
  "reply_with env c t p s =
     OutboxService_write env (orderId c) (KAFKA_TOPICS t) (orderId c) p
       (IdempotencyService_save env (commandId c) (KAFKA_TOPICS t) p s)"

lemma reply_with_effect:
  "written_replies (reply_with env c t p s) = written_replies s @ [(KAFKA_TOPICS t, p)]"
  "IdempotencyService_find k (reply_with env c t p s) =
     (if k = commandId c then Some (KAFKA_TOPICS t, p) else IdempotencyService_find k s)"
  "idem_db.more (reply_with env c t p s) = idem_db.more s"
  by (simp_all add: reply_with_def find_save)

text \<open>What the first delivery of a command leaves: its reply, stored and written; the keys of others stay.\<close>

definition answered :: "string \<Rightarrow> 'a idem_db_scheme \<Rightarrow> 'a idem_db_scheme \<Rightarrow> bool" where
  "answered k s s' \<longleftrightarrow> (\<exists>r. IdempotencyService_find k s' = Some r \<and>
     written_replies s' = written_replies s @ [r] \<and>
     (\<forall>j. j \<noteq> k \<longrightarrow> IdempotencyService_find j s' = IdempotencyService_find j s))"

lemma reply_with_answered:
  assumes "outbox t = outbox s" "idempotency_keys t = idempotency_keys s"
  shows "answered (commandId c) s (reply_with env c topic p t)"
proof -
  have "written_replies t = written_replies s" using assms(1) by (simp add: written_replies_def)
  then show ?thesis by (simp add: answered_def reply_with_effect find_cong [OF assms(2)])
qed

subsection \<open>The contract\<close>

fun deliveries :: "('x \<Rightarrow> 'c \<Rightarrow> ('s, 'e, unit) tx) \<Rightarrow> ('x \<times> 'c) list \<Rightarrow> 's \<Rightarrow> 's" where
  "deliveries h [] s = s"
| "deliveries h ((x, c) # ds) s = deliveries h ds (snd (h x c s))"

text \<open>The commands whose delivery succeeded, in order, repetitions included.\<close>

fun succeeded :: "('x \<Rightarrow> 'c \<Rightarrow> ('s, 'e, unit) tx) \<Rightarrow> ('x \<times> 'c) list \<Rightarrow> 's \<Rightarrow> 'c list" where
  "succeeded h [] s = []"
| "succeeded h ((x, c) # ds) s = (case fst (h x c s) of Inl e \<Rightarrow> [] | Inr u \<Rightarrow> [c]) @ succeeded h ds (snd (h x c s))"

text \<open>The keys of the deliveries that changed the business state, in order.\<close>

fun effective :: "('x \<Rightarrow> 'c \<Rightarrow> ('s, 'e, unit) tx) \<Rightarrow> ('c \<Rightarrow> string) \<Rightarrow> ('s \<Rightarrow> 'b) \<Rightarrow> ('x \<times> 'c) list \<Rightarrow> 's \<Rightarrow> string list"
where
  "effective h key business [] s = []"
| "effective h key business ((x, c) # ds) s =
     (if business (snd (h x c s)) \<noteq> business s then [key c] else []) @
     effective h key business ds (snd (h x c s))"

locale idempotent_consumer =
  fixes handle :: "'x \<Rightarrow> 'c \<Rightarrow> ('s, 'e, unit) tx"
    and key :: "'c \<Rightarrow> string"
    and stored :: "string \<Rightarrow> 's \<Rightarrow> (string \<times> payload) option"
    and replies :: "'s \<Rightarrow> (string \<times> payload) list"
    and business :: "'s \<Rightarrow> 'b"
  assumes aborted: "handle x c s = (Inl e, s') \<Longrightarrow>
      business s' = business s \<and> replies s' = replies s \<and> stored k s' = stored k s"
    and again: "handle x c s = (Inr (), s') \<Longrightarrow> stored (key c) s = Some r \<Longrightarrow>
      business s' = business s \<and> replies s' = replies s @ [r] \<and> stored k s' = stored k s"
    and first: "handle x c s = (Inr (), s') \<Longrightarrow> stored (key c) s = None \<Longrightarrow>
      \<exists>r. stored (key c) s' = Some r \<and> replies s' = replies s @ [r] \<and> (\<forall>k. k \<noteq> key c \<longrightarrow> stored k s' = stored k s)"
begin

lemma delivery_cases:
  obtains (failed) e where "fst (handle x c s) = Inl e" "business (snd (handle x c s)) = business s"
    "replies (snd (handle x c s)) = replies s" "\<And>k. stored k (snd (handle x c s)) = stored k s"
  | (repeated) r where "stored (key c) s = Some r" "business (snd (handle x c s)) = business s"
    "replies (snd (handle x c s)) = replies s @ [r]" "\<And>k. stored k (snd (handle x c s)) = stored k s"
  | (fresh) r where "stored (key c) s = None" "stored (key c) (snd (handle x c s)) = Some r"
    "replies (snd (handle x c s)) = replies s @ [r]"
    "\<And>k. k \<noteq> key c \<Longrightarrow> stored k (snd (handle x c s)) = stored k s"
proof (cases "handle x c s")
  case (Pair res s')
  show ?thesis
  proof (cases res)
    case (Inl e)
    with Pair aborted [of x c s e s'] failed show ?thesis by auto
  next
    case (Inr u)
    then have run: "handle x c s = (Inr (), s')" using Pair by simp
    show ?thesis
    proof (cases "stored (key c) s")
      case None
      with first [OF run] fresh Pair show ?thesis by auto
    next
      case (Some r)
      with again [OF run] repeated Pair show ?thesis by auto
    qed
  qed
qed

lemma stored_stays: "stored k s = Some r \<Longrightarrow> stored k (deliveries handle ds s) = Some r"
proof (induction ds arbitrary: s)
  case (Cons d ds)
  obtain x c where d: "d = (x, c)" by (cases d)
  have "stored k (snd (handle x c s)) = Some r"
  proof (cases rule: delivery_cases [of x c s])
    case (fresh r')
    with Cons.prems have "k \<noteq> key c" by auto
    with fresh(4) Cons.prems show ?thesis by simp
  qed (use Cons.prems in simp_all)
  with Cons.IH d show ?case by simp
qed simp

text \<open>A command changes the business state at most once, and never if it was processed before.\<close>

lemma effective_fresh: "k \<in> set (effective handle key business ds s) \<Longrightarrow> stored k s = None"
proof (induction ds arbitrary: s)
  case (Cons d ds)
  obtain x c where d: "d = (x, c)" by (cases d)
  note IH = Cons.IH [of "snd (handle x c s)"]
  show ?case
  proof (cases rule: delivery_cases [of x c s])
    case (failed e)
    with Cons.prems d have "k \<in> set (effective handle key business ds (snd (handle x c s)))" by simp
    with IH failed(4) show ?thesis by simp
  next
    case (repeated r)
    with Cons.prems d have "k \<in> set (effective handle key business ds (snd (handle x c s)))" by simp
    with IH repeated(4) show ?thesis by simp
  next
    case (fresh r)
    show ?thesis
    proof (cases "k = key c")
      case False
      with Cons.prems d have "k \<in> set (effective handle key business ds (snd (handle x c s)))"
        by (simp split: if_splits)
      with IH fresh(4) [OF False] show ?thesis by simp
    qed (use fresh in simp)
  qed
qed simp

lemma effective_distinct: "distinct (effective handle key business ds s)"
proof (induction ds arbitrary: s)
  case (Cons d ds)
  obtain x c where d: "d = (x, c)" by (cases d)
  have IH: "distinct (effective handle key business ds (snd (handle x c s)))" by (rule Cons.IH)
  show ?case
  proof (cases rule: delivery_cases [of x c s])
    case (fresh r)
    then have "key c \<notin> set (effective handle key business ds (snd (handle x c s)))"
      using effective_fresh by fastforce
    with IH d show ?thesis by auto
  qed (use IH d in auto)
qed simp

text \<open>
  Every delivery that succeeds writes exactly one reply, and it is the one stored for its command:
  the replies are, in the order of the successful deliveries, the stored replies of
  their commands. Two deliveries of one command that both succeed are therefore answered alike.
\<close>

lemma replies_of_deliveries:
  "\<exists>rs. replies (deliveries handle ds s) = replies s @ rs \<and>
     map Some rs = map (\<lambda>c. stored (key c) (deliveries handle ds s)) (succeeded handle ds s)"
proof (induction ds arbitrary: s)
  case (Cons d ds)
  obtain x c where d: "d = (x, c)" by (cases d)
  let ?t = "snd (handle x c s)"
  obtain rs where rs: "replies (deliveries handle ds ?t) = replies ?t @ rs"
    "map Some rs = map (\<lambda>c. stored (key c) (deliveries handle ds ?t)) (succeeded handle ds ?t)"
    using Cons.IH by blast
  show ?case
  proof (cases "handle x c s")
    case (Pair res s')
    show ?thesis
    proof (cases res)
      case (Inl e)
      with Pair aborted [of x c s e s'] rs d show ?thesis by (intro exI [of _ rs]) simp
    next
      case (Inr u)
      then have run: "handle x c s = (Inr (), s')" using Pair by simp
      have "\<exists>r. stored (key c) s' = Some r \<and> replies s' = replies s @ [r]"
        using again [OF run] first [OF run] by (cases "stored (key c) s") auto
      then obtain r where r: "stored (key c) s' = Some r" "replies s' = replies s @ [r]" by blast
      from stored_stays [OF r(1)] have "stored (key c) (deliveries handle ds s') = Some r" .
      with r rs d run show ?thesis by (intro exI [of _ "r # rs"]) simp
    qed
  qed
qed simp

end

end
