(* ===== verification/Products.thy ===== *)
theory Products
  imports Idempotency Pagination
begin

section \<open>The product-service\<close>

text \<open>
  \<^verbatim>\<open>services/product-service/src/products\<close>: the product entity, \<open>ProductsService\<close>
  with its cache, the saga controller that reserves and releases stock, and the HTTP
  controller. The state is the database and the cache; a transaction rolls back the database
  only. \<open>up\<close> says whether the cache answers: its failures are swallowed by the code. The
  de-duplication of concurrent cache misses (\<open>dedup\<close>) has no effect on a sequential run;
  it is modelled with the interleavings of requests in \<open>ProductReads\<close>. Money is a binary64 number, the price column rounds to cents, the stock
  column is a 32-bit integer.

  \<open>reserve_loop\<close> is the loop of \<open>reserveStock\<close>; a thrown error leaves the
  decrements made before it in the transaction, which matters because the saga controller
  catches the error inside the transaction and commits.
\<close>

subsection \<open>Entities, results, errors\<close>

record product_entity =
  pe_id :: string
  pe_name :: string
  pe_description :: "string option"
  pe_price :: rat
  pe_stock :: int
  pe_isActive :: bool
  pe_createdAt :: date
  pe_updatedAt :: date

record product_result =
  prd_id :: string
  prd_name :: string
  prd_description :: "string option"
  prd_price :: number
  prd_stock :: int
  prd_isActive :: bool
  prd_createdAt :: date
  prd_updatedAt :: date

record create_product_input =
  cp_name :: string
  cp_description :: "string option"
  cp_price :: number
  cp_stock :: int

record update_product_input =
  up_name :: "string option"
  up_description :: "string option"
  up_price :: "number option"
  up_stock :: "int option"

datatype product_error =
    ProductNotFoundError string
  | InsufficientStockError string int int
  | ProductQueryFailed string

fun product_error_message :: "env \<Rightarrow> product_error \<Rightarrow> string" where
  "product_error_message env (ProductNotFoundError i) = ''Product '' @ i @ '' not found''"
| "product_error_message env (InsufficientStockError i requested available) =
     ''Insufficient stock for product '' @ i @ '': requested '' @ e_str env (of_int requested) @
     '', available '' @ e_str env (of_int available)"
| "product_error_message env (ProductQueryFailed m) = m"

record product_db = idem_db +
  products :: "product_entity list"

record product_service =
  ps_db :: product_db
  ps_cache :: "string \<Rightarrow> product_result option"

subsection \<open>The cache\<close>

definition keyOne :: "string \<Rightarrow> string" where
  "keyOne i = ''product:'' @ i"

definition cacheGet :: "bool \<Rightarrow> string \<Rightarrow> product_service \<Rightarrow> product_result option" where
  "cacheGet up k st = (if up then ps_cache st k else None)"

definition cacheSet :: "bool \<Rightarrow> string \<Rightarrow> product_result \<Rightarrow> product_service \<Rightarrow> product_service" where
  "cacheSet up k v st = (if up then st\<lparr>ps_cache := (ps_cache st)(k := Some v)\<rparr> else st)"

definition cacheDel :: "bool \<Rightarrow> string list \<Rightarrow> product_service \<Rightarrow> product_service" where
  "cacheDel up ks st =
     (if up then st\<lparr>ps_cache := (\<lambda>k. if k \<in> set ks then None else ps_cache st k)\<rparr> else st)"

subsection \<open>products.service.ts: reads and administration\<close>

definition product_toResult :: "product_entity \<Rightarrow> product_result" where
  "product_toResult p =
     \<lparr>prd_id = pe_id p, prd_name = pe_name p, prd_description = pe_description p,
      prd_price = fl (pe_price p), prd_stock = pe_stock p, prd_isActive = pe_isActive p,
      prd_createdAt = pe_createdAt p, prd_updatedAt = pe_updatedAt p\<rparr>"

definition find_active :: "string \<Rightarrow> product_db \<Rightarrow> product_entity option" where
  "find_active i s = List.find (\<lambda>p. pe_id p = i \<and> pe_isActive p) (products s)"

text \<open>
  The query orders by \<^verbatim>\<open>createdAt\<close> only: \<open>scan\<close> is the order in which the database comes upon
  rows of the same instant.
\<close>

definition ProductsService_findAll ::
  "(product_entity list \<Rightarrow> product_entity list) \<Rightarrow> int \<Rightarrow> int \<Rightarrow> product_db \<Rightarrow> product_result paginated_result" where
  "ProductsService_findAll scan page limit s =
     (let found' = sort_key (\<lambda>p. - pe_createdAt p) (scan (filter pe_isActive (products s)));
          cnt = int (length found')
      in \<lparr>pr_data = map product_toResult (take (nat limit) (drop (nat ((page - 1) * limit)) found')),
          pr_meta = \<lparr>pm_page = page, pm_limit = limit, pm_total = cnt,
            pm_totalPages = total_pages cnt limit\<rparr>\<rparr>)"

definition ProductsService_findById ::
  "bool \<Rightarrow> string \<Rightarrow> (product_service, product_error, product_result) tx" where
  "ProductsService_findById up i st =
     (case cacheGet up (keyOne i) st of
        Some cached \<Rightarrow> (Inr cached, st)
      | None \<Rightarrow>
          (case find_active i (ps_db st) of
             None \<Rightarrow> (Inl (ProductNotFoundError i), st)
           | Some p \<Rightarrow> (Inr (product_toResult p), cacheSet up (keyOne i) (product_toResult p) st)))"

text \<open>The columns of a product refuse what does not fit them.\<close>

definition product_fits :: "product_entity \<Rightarrow> bool" where
  "product_fits p \<longleftrightarrow> fits_decimal 10 (pe_price p) \<and> fits_int4 (pe_stock p)"

definition store_product :: "product_entity \<Rightarrow> product_entity" where
  "store_product p = p\<lparr>pe_price := dec2 (pe_price p)\<rparr>"

definition ProductsService_create ::
  "env \<Rightarrow> create_product_input \<Rightarrow> (product_service, product_error, product_result) tx" where
  "ProductsService_create env input st =
     (let s = ps_db st;
          p = \<lparr>pe_id = e_uuid env (seq s), pe_name = cp_name input, pe_description = cp_description input,
            pe_price = cp_price input, pe_stock = cp_stock input, pe_isActive = True,
            pe_createdAt = e_now env, pe_updatedAt = e_now env\<rparr>
      in if \<not> product_fits p then (Inl (ProductQueryFailed ''value out of range''), st)
         else (Inr (product_toResult p),
               st\<lparr>ps_db := s\<lparr>products := products s @ [store_product p], seq := Suc (seq s)\<rparr>\<rparr>))"

text \<open>
  An update and a removal read the product, change the entity they read and \<^verbatim>\<open>save\<close> it, which writes
  whatever column of the row differs from the entity, and then evict the product. No lock is held between the awaits:
  the three parts are definitions of their own, which \<open>ProductReads\<close> interleaves with other requests.
\<close>

definition find_product :: "string \<Rightarrow> (product_service, product_error, product_entity) tx" where
  "find_product i = found (ProductNotFoundError i) (\<lambda>st. find_active i (ps_db st))"

definition assign_product :: "update_product_input \<Rightarrow> product_entity \<Rightarrow> product_entity" where
  "assign_product input p =
     p\<lparr>pe_name := (case up_name input of Some v \<Rightarrow> v | None \<Rightarrow> pe_name p),
       pe_description := (case up_description input of Some v \<Rightarrow> Some v | None \<Rightarrow> pe_description p),
       pe_price := (case up_price input of Some v \<Rightarrow> v | None \<Rightarrow> pe_price p),
       pe_stock := (case up_stock input of Some v \<Rightarrow> v | None \<Rightarrow> pe_stock p)\<rparr>"

definition save_product :: "env \<Rightarrow> product_entity \<Rightarrow> (product_service, product_error, product_entity) tx" where
  "save_product env p st =
     (let p' = p\<lparr>pe_updatedAt := e_now env\<rparr>
      in if \<not> product_fits p' then (Inl (ProductQueryFailed ''value out of range''), st)
         else (Inr p', st\<lparr>ps_db := (ps_db st)\<lparr>products := update_where (\<lambda>x. pe_id x = pe_id p)
                 (\<lambda>_. store_product p') (products (ps_db st))\<rparr>\<rparr>))"

definition ProductsService_update ::
  "env \<Rightarrow> bool \<Rightarrow> string \<Rightarrow> update_product_input \<Rightarrow> (product_service, product_error, product_result) tx" where
  "ProductsService_update env up i input =
     tx_bind (find_product i) (\<lambda>p.
     tx_bind (save_product env (assign_product input p)) (\<lambda>saved.
     tx_bind (modify (cacheDel up [keyOne i])) (\<lambda>_.
       ret (product_toResult saved))))"

definition ProductsService_remove ::
  "env \<Rightarrow> bool \<Rightarrow> string \<Rightarrow> (product_service, product_error, unit) tx" where
  "ProductsService_remove env up i =
     tx_bind (find_product i) (\<lambda>p.
     tx_bind (save_product env (p\<lparr>pe_isActive := False\<rparr>)) (\<lambda>_.
       modify (cacheDel up [keyOne i])))"

subsection \<open>products.service.ts: stock\<close>

text \<open>
  \<^verbatim>\<open>repo.save(product)\<close> of a product whose stock was lowered. Saving an unchanged entity
  writes nothing.
\<close>

definition take_stock :: "env \<Rightarrow> string \<Rightarrow> int \<Rightarrow> product_db \<Rightarrow> product_db" where
  "take_stock env i q s =
     (if q = 0 then s
      else s\<lparr>products := update_where (\<lambda>x. pe_id x = i)
        (\<lambda>x. x\<lparr>pe_stock := pe_stock x - q, pe_updatedAt := e_now env\<rparr>) (products s)\<rparr>)"

fun reserve_loop ::
  "env \<Rightarrow> command_item list \<Rightarrow> (product_db, product_error, order_created_event_item list) tx" where
  "reserve_loop env [] s = (Inr [], s)"
| "reserve_loop env (item # items) s =
     (case find_active (ci_productId item) s of
        None \<Rightarrow> (Inl (ProductNotFoundError (ci_productId item)), s)
      | Some p \<Rightarrow>
          if pe_stock p < ci_quantity item
          then (Inl (InsufficientStockError (ci_productId item) (ci_quantity item) (pe_stock p)), s)
          else if \<not> fits_int4 (pe_stock p - ci_quantity item)
          then (Inl (ProductQueryFailed ''integer out of range''), s)
          else (case reserve_loop env items (take_stock env (pe_id p) (ci_quantity item) s) of
                  (Inl e, s') \<Rightarrow> (Inl e, s')
                | (Inr reserved, s') \<Rightarrow>
                    (Inr (\<lparr>oi_productId = pe_id p, oi_name = pe_name p, oi_quantity = ci_quantity item,
                       oi_unitPrice = fl (pe_price p)\<rparr> # reserved), s')))"

definition evict_items :: "bool \<Rightarrow> command_item list \<Rightarrow> product_service \<Rightarrow> product_service" where
  "evict_items up items = cacheDel up (map (\<lambda>item. keyOne (ci_productId item)) items)"

text \<open>The path of \<open>reserveStock\<close> that the HTTP endpoint takes: its own transaction, then the eviction.\<close>

definition ProductsService_reserveStock_own ::
  "product_error option \<Rightarrow> env \<Rightarrow> bool \<Rightarrow> command_item list \<Rightarrow>
    (product_service, product_error, order_created_event_item list) tx" where
  "ProductsService_reserveStock_own fault env up items st =
     (case transaction fault (reserve_loop env items) (ps_db st) of
        (Inl e, s') \<Rightarrow> (Inl e, st\<lparr>ps_db := s'\<rparr>)
      | (Inr reserved, s') \<Rightarrow> (Inr reserved, evict_items up items (st\<lparr>ps_db := s'\<rparr>)))"

text \<open>\<^verbatim>\<open>repo.increment\<close> on every row with the id, active or not.\<close>

fun release_loop :: "env \<Rightarrow> command_item list \<Rightarrow> (product_db, product_error, unit) tx" where
  "release_loop env [] s = (Inr (), s)"
| "release_loop env (item # items) s =
     (if \<exists>p \<in> set (products s). pe_id p = ci_productId item \<and> \<not> fits_int4 (pe_stock p + ci_quantity item)
      then (Inl (ProductQueryFailed ''integer out of range''), s)
      else release_loop env items
        (s\<lparr>products := update_where (\<lambda>p. pe_id p = ci_productId item)
            (\<lambda>p. p\<lparr>pe_stock := pe_stock p + ci_quantity item, pe_updatedAt := e_now env\<rparr>) (products s)\<rparr>))"

subsection \<open>products-saga.controller.ts\<close>

definition reservation_total :: "order_created_event_item list \<Rightarrow> number" where
  "reservation_total items =
     foldl (\<lambda>sum' i. num_add sum' (num_mul (oi_unitPrice i) (of_int (oi_quantity i)))) 0 items"

text \<open>The database part of the handler, inside its transaction.\<close>

definition reserve_tx :: "env \<Rightarrow> reserve_stock_command \<Rightarrow> (product_db, product_error, unit) tx" where
  "reserve_tx env c s =
     (case IdempotencyService_find (commandId c) s of
        Some (replyTopic, replyPayload) \<Rightarrow>
          (Inr (), OutboxService_write env (orderId c) replyTopic (orderId c) replyPayload s)
      | None \<Rightarrow>
          try_catch
            (tx_bind (reserve_loop env (rs_items c)) (\<lambda>items.
              modify (reply_with env c STOCK_RESERVED
                (StockReserved \<lparr>commandId = commandId c, orderId = orderId c,
                   correlationId = correlationId c, sr_items = items,
                   sr_total = reservation_total items\<rparr>))))
            (\<lambda>e. case e of
               ProductQueryFailed _ \<Rightarrow> raise e
             | _ \<Rightarrow> modify (reply_with env c STOCK_RESERVATION_FAILED
                 (StockReservationFailed \<lparr>commandId = commandId c, orderId = orderId c,
                    correlationId = correlationId c, sf_reason = product_error_message env e\<rparr>))) s)"

definition handleReserveStock ::
  "product_error option \<Rightarrow> env \<Rightarrow> bool \<Rightarrow> reserve_stock_command \<Rightarrow> (product_service, product_error, unit) tx" where
  "handleReserveStock fault env up c st =
     (let st' = (if IdempotencyService_find (commandId c) (ps_db st) = None
                 then evict_items up (rs_items c) st else st)
      in case transaction fault (reserve_tx env c) (ps_db st) of
           (r, s') \<Rightarrow> (r, st'\<lparr>ps_db := s'\<rparr>))"

definition release_tx :: "env \<Rightarrow> release_stock_command \<Rightarrow> (product_db, product_error, unit) tx" where
  "release_tx env c s =
     (case IdempotencyService_find (commandId c) s of
        Some (replyTopic, replyPayload) \<Rightarrow>
          (Inr (), OutboxService_write env (orderId c) replyTopic (orderId c) replyPayload s)
      | None \<Rightarrow>
          tx_bind (release_loop env (rl_items c)) (\<lambda>_.
            modify (reply_with env c STOCK_RELEASED
              (StockReleased \<lparr>commandId = commandId c, orderId = orderId c,
                 correlationId = correlationId c\<rparr>))) s)"

definition handleReleaseStock ::
  "product_error option \<Rightarrow> env \<Rightarrow> bool \<Rightarrow> release_stock_command \<Rightarrow> (product_service, product_error, unit) tx" where
  "handleReleaseStock fault env up c st =
     (let st' = (if IdempotencyService_find (commandId c) (ps_db st) = None
                 then evict_items up (rl_items c) st else st)
      in case transaction fault (release_tx env c) (ps_db st) of
           (r, s') \<Rightarrow> (r, st'\<lparr>ps_db := s'\<rparr>))"

subsection \<open>products.dto.ts\<close>

text \<open>
  The bodies and queries the \<^verbatim>\<open>ValidationPipe\<close> lets through to the controller. A number
  with at most two decimal places is the binary64 number next to a whole number of cents; what
  counts as a UUID is the validator library's affair (\<open>is_uuid\<close>). Absent optional fields
  are \<open>None\<close>; a field that is \<^verbatim>\<open>null\<close>, which \<^verbatim>\<open>IsOptional\<close> also lets
  pass, is not modelled.
\<close>

definition two_decimals :: "number \<Rightarrow> bool" where
  "two_decimals x \<longleftrightarrow> x = fl (dec2 x)"

definition PaginationQueryDto_valid :: "int \<Rightarrow> int \<Rightarrow> bool" where
  "PaginationQueryDto_valid page limit \<longleftrightarrow> 1 \<le> page \<and> 1 \<le> limit \<and> limit \<le> 100"

definition CreateProductDto_valid :: "create_product_input \<Rightarrow> bool" where
  "CreateProductDto_valid dto \<longleftrightarrow> two_decimals (cp_price dto) \<and> 0 < cp_price dto \<and> 0 \<le> cp_stock dto"

definition UpdateProductDto_valid :: "update_product_input \<Rightarrow> bool" where
  "UpdateProductDto_valid dto \<longleftrightarrow>
     (case up_price dto of None \<Rightarrow> True | Some x \<Rightarrow> two_decimals x \<and> 0 < x) \<and>
     (case up_stock dto of None \<Rightarrow> True | Some n \<Rightarrow> 0 \<le> n)"

definition ReserveStockDto_valid :: "(string \<Rightarrow> bool) \<Rightarrow> command_item list \<Rightarrow> bool" where
  "ReserveStockDto_valid is_uuid items \<longleftrightarrow> list_all (\<lambda>x. is_uuid (ci_productId x) \<and> 0 < ci_quantity x) items"

subsection \<open>products.controller.ts\<close>

definition requireAdmin :: "string option \<Rightarrow> http_exception + unit" where
  "requireAdmin rolesHeader =
     (let roles = (case rolesHeader of None \<Rightarrow> [] | Some h \<Rightarrow> if h = '''' then [] else js_split CHR '','' h)
      in if role_value Role_ADMIN \<notin> set roles
         then Inl (ForbiddenException ''Admin role required'') else Inr ())"

text \<open>The translation of domain errors into HTTP errors; anything else is a 500.\<close>

fun product_http :: "env \<Rightarrow> bool \<Rightarrow> product_error \<Rightarrow> http_exception" where
  "product_http env reserving (ProductNotFoundError i) =
     NotFoundException (product_error_message env (ProductNotFoundError i))"
| "product_http env reserving (InsufficientStockError i r a) =
     (if reserving then BadRequestException (product_error_message env (InsufficientStockError i r a))
      else InternalError (product_error_message env (InsufficientStockError i r a)))"
| "product_http env reserving (ProductQueryFailed m) = InternalError m"

definition with_http ::
  "env \<Rightarrow> bool \<Rightarrow> (product_service, product_error, 'a) tx \<Rightarrow> (product_service, http_exception, 'a) tx" where
  "with_http env reserving m st =
     (case m st of (Inl e, st') \<Rightarrow> (Inl (product_http env reserving e), st') | (Inr a, st') \<Rightarrow> (Inr a, st'))"

definition ProductsController_findAll ::
  "(product_entity list \<Rightarrow> product_entity list) \<Rightarrow> int \<Rightarrow> int \<Rightarrow> product_service \<Rightarrow> product_result paginated_result" where
  "ProductsController_findAll scan page limit st = ProductsService_findAll scan page limit (ps_db st)"

definition ProductsController_findById ::
  "env \<Rightarrow> bool \<Rightarrow> string \<Rightarrow> (product_service, http_exception, product_result) tx" where
  "ProductsController_findById env up i = with_http env False (ProductsService_findById up i)"

definition ProductsController_create ::
  "env \<Rightarrow> create_product_input \<Rightarrow> string option \<Rightarrow> (product_service, http_exception, product_result) tx" where
  "ProductsController_create env dto rolesHeader =
     tx_bind (lift (requireAdmin rolesHeader)) (\<lambda>_. with_http env False (ProductsService_create env dto))"

definition ProductsController_update ::
  "env \<Rightarrow> bool \<Rightarrow> string \<Rightarrow> update_product_input \<Rightarrow> string option \<Rightarrow>
    (product_service, http_exception, product_result) tx" where
  "ProductsController_update env up i dto rolesHeader =
     tx_bind (lift (requireAdmin rolesHeader)) (\<lambda>_. with_http env False (ProductsService_update env up i dto))"

definition ProductsController_remove ::
  "env \<Rightarrow> bool \<Rightarrow> string \<Rightarrow> string option \<Rightarrow> (product_service, http_exception, unit) tx" where
  "ProductsController_remove env up i rolesHeader =
     tx_bind (lift (requireAdmin rolesHeader)) (\<lambda>_. with_http env False (ProductsService_remove env up i))"

definition ProductsController_reserveStock ::
  "product_error option \<Rightarrow> env \<Rightarrow> bool \<Rightarrow> command_item list \<Rightarrow>
    (product_service, http_exception, order_created_event_item list) tx" where
  "ProductsController_reserveStock fault env up items =
     with_http env True (ProductsService_reserveStock_own fault env up items)"

subsection \<open>Pages\<close>

interpretation product_pages: paged_query "\<lambda>s page limit. ProductsService_findAll scan page limit s"
  "\<lambda>s. map product_toResult (sort_key (\<lambda>p. - pe_createdAt p) (scan (filter pe_isActive (products s))))" for scan
  by unfold_locales (simp_all add: ProductsService_findAll_def Let_def take_map drop_map)

end
