(* ===== verification/ProductStock.thy ===== *)
theory ProductStock
  imports Products
begin

section \<open>Stock, redeliveries and the cache of the product-service\<close>

text \<open>
  What the saga commands do to the stock: a reservation takes exactly the quantities of the
  order, or stops at the first line it cannot serve; a release gives them back; a redelivered
  command changes nothing and repeats its reply. The stock is never negative, and while the
  cache answers, a cached product is the one in the database. The saga controller commits the
  lines it had taken before a line failed, which the HTTP endpoint does not.
\<close>

subsection \<open>The reservation loop\<close>

definition stock_of :: "string \<Rightarrow> product_db \<Rightarrow> int option" where
  "stock_of i s = map_option pe_stock (row_of pe_id i (products s))"

definition qty_of :: "string \<Rightarrow> command_item list \<Rightarrow> int" where
  "qty_of i items = sum_list (map ci_quantity (filter (\<lambda>x. ci_productId x = i) items))"

lemma qty_of_simps [simp]:
  "qty_of i [] = 0"
  "qty_of i (x # xs) = (if ci_productId x = i then ci_quantity x else 0) + qty_of i xs"
  by (simp_all add: qty_of_def)

text \<open>What no change of stock touches.\<close>

definition pe_ident :: "product_entity \<Rightarrow> string \<times> string \<times> string option \<times> rat \<times> bool \<times> date" where
  "pe_ident p = (pe_id p, pe_name p, pe_description p, pe_price p, pe_isActive p, pe_createdAt p)"

definition same_but_stock :: "product_db \<Rightarrow> product_db \<Rightarrow> bool" where
  "same_but_stock s s' \<longleftrightarrow> map pe_ident (products s') = map pe_ident (products s) \<and>
     idempotency_keys s' = idempotency_keys s \<and> outbox s' = outbox s \<and> seq s' = seq s"

lemma same_but_stock_refl [simp]: "same_but_stock s s"
  by (simp add: same_but_stock_def)

lemma same_but_stock_trans: "same_but_stock s t \<Longrightarrow> same_but_stock t v \<Longrightarrow> same_but_stock s v"
  by (simp add: same_but_stock_def)

lemma find_active_id: "find_active i s = Some p \<Longrightarrow> pe_id p = i \<and> pe_isActive p \<and> p \<in> set (products s)"
  by (auto simp: find_active_def find_Some_iff in_set_conv_nth)

lemma take_stock_effect:
  "stock_of i (take_stock env j q s) = map_option (\<lambda>n. n - (if i = j then q else 0)) (stock_of i s)"
  "same_but_stock s (take_stock env j q s)"
  by (auto simp: take_stock_def stock_of_def row_of_update_key option.map_comp comp_def option.map_ident
      same_but_stock_def map_update_where pe_ident_def)

lemma reserve_loop_same: "reserve_loop env items s = (r, s') \<Longrightarrow> same_but_stock s s'"
proof (induction items arbitrary: s r s')
  case (Cons item items)
  show ?case
  proof (cases "find_active (ci_productId item) s")
    case (Some p)
    let ?t = "take_stock env (pe_id p) (ci_quantity item) s"
    have "same_but_stock ?t t'" if "reserve_loop env items ?t = (r', t')" for r' t'
      using Cons.IH that by blast
    with Some Cons.prems take_stock_effect(2) [of s env "pe_id p" "ci_quantity item"] show ?thesis
      by (auto split: if_splits prod.splits sum.splits intro: same_but_stock_trans)
  qed (use Cons.prems in simp)
qed simp

lemma reserve_loop_stock:
  "reserve_loop env items s = (Inr rs, s') \<Longrightarrow>
     stock_of i s' = map_option (\<lambda>n. n - qty_of i items) (stock_of i s) \<and>
     map (\<lambda>r. (oi_productId r, oi_quantity r)) rs = map (\<lambda>x. (ci_productId x, ci_quantity x)) items"
proof (induction items arbitrary: s rs)
  case Nil
  then show ?case by (auto simp: option.map_ident)
next
  case (Cons item items)
  then obtain p rs' where p: "find_active (ci_productId item) s = Some p"
    and rest: "reserve_loop env items (take_stock env (pe_id p) (ci_quantity item) s) = (Inr rs', s')"
    and rs: "rs = \<lparr>oi_productId = pe_id p, oi_name = pe_name p, oi_quantity = ci_quantity item,
               oi_unitPrice = fl (pe_price p)\<rparr> # rs'"
    by (auto split: option.splits if_splits prod.splits sum.splits)
  have "pe_id p = ci_productId item" using find_active_id [OF p] by simp
  with Cons.IH [OF rest] rs show ?case
    by (auto simp: take_stock_effect option.map_comp comp_def algebra_simps)
qed

text \<open>A reservation that fails has taken the lines before the one that failed.\<close>

definition fails_at :: "command_item \<Rightarrow> product_db \<Rightarrow> product_error \<Rightarrow> bool" where
  "fails_at item s e \<longleftrightarrow>
     (case find_active (ci_productId item) s of
        None \<Rightarrow> e = ProductNotFoundError (ci_productId item)
      | Some p \<Rightarrow>
          if pe_stock p < ci_quantity item
          then e = InsufficientStockError (ci_productId item) (ci_quantity item) (pe_stock p)
          else e = ProductQueryFailed ''integer out of range'')"

lemma reserve_loop_prefix:
  "reserve_loop env items s = (Inl e, s') \<Longrightarrow>
     \<exists>pre item post rs. items = pre @ item # post \<and> reserve_loop env pre s = (Inr rs, s') \<and> fails_at item s' e"
proof (induction items arbitrary: s)
  case (Cons item items)
  show ?case
  proof (cases "\<exists>p. find_active (ci_productId item) s = Some p \<and> \<not> pe_stock p < ci_quantity item \<and>
      fits_int4 (pe_stock p - ci_quantity item)")
    case True
    then obtain p where p: "find_active (ci_productId item) s = Some p" "\<not> pe_stock p < ci_quantity item"
      "fits_int4 (pe_stock p - ci_quantity item)" by blast
    with Cons.prems have "reserve_loop env items (take_stock env (pe_id p) (ci_quantity item) s) = (Inl e, s')"
      by (auto split: prod.splits sum.splits)
    from Cons.IH [OF this] obtain pre it post rs where
      "items = pre @ it # post" "reserve_loop env pre (take_stock env (pe_id p) (ci_quantity item) s) = (Inr rs, s')"
      "fails_at it s' e" by blast
    with p show ?thesis
      by (intro exI [of _ "item # pre"] exI [of _ it] exI [of _ post] exI) (auto split: prod.splits)
  next
    case False
    with Cons.prems have "s' = s" "fails_at item s e"
      by (auto simp: fails_at_def split: option.splits if_splits)
    then show ?thesis by (intro exI [of _ "[]"] exI [of _ item] exI [of _ items]) auto
  qed
qed simp

subsection \<open>The release loop\<close>

lemma release_loop_effect:
  "release_loop env items s = (Inr (), s') \<Longrightarrow>
     stock_of i s' = map_option (\<lambda>n. n + qty_of i items) (stock_of i s) \<and> same_but_stock s s'"
proof (induction items arbitrary: s)
  case Nil
  then show ?case by (simp add: option.map_ident)
next
  case (Cons item items)
  let ?t = "s\<lparr>products := update_where (\<lambda>p. pe_id p = ci_productId item)
            (\<lambda>p. p\<lparr>pe_stock := pe_stock p + ci_quantity item, pe_updatedAt := e_now env\<rparr>) (products s)\<rparr>"
  have "release_loop env items ?t = (Inr (), s')" using Cons.prems by (simp split: if_splits)
  from Cons.IH [OF this] show ?case
    by (auto simp: stock_of_def row_of_update_key option.map_comp comp_def algebra_simps
        same_but_stock_def map_update_where pe_ident_def)
qed

lemma release_loop_total:
  assumes "\<forall>x \<in> set items. 0 \<le> ci_quantity x"
    and "\<forall>p \<in> set (products s). 0 \<le> pe_stock p \<and> fits_int4 (pe_stock p + qty_of (pe_id p) items)"
  shows "\<exists>s'. release_loop env items s = (Inr (), s')"
  using assms
proof (induction items arbitrary: s)
  case (Cons item items)
  let ?f = "\<lambda>p. p\<lparr>pe_stock := pe_stock p + ci_quantity item, pe_updatedAt := e_now env\<rparr>"
  let ?t = "s\<lparr>products := update_where (\<lambda>p. pe_id p = ci_productId item) ?f (products s)\<rparr>"
  have rest: "0 \<le> qty_of i items" for i
    using Cons.prems(1) by (auto simp: qty_of_def intro!: sum_list_nonneg)
  have "fits_int4 (pe_stock p + ci_quantity item)" if "p \<in> set (products s)" "pe_id p = ci_productId item" for p
    using that Cons.prems rest [of "pe_id p"] by (fastforce simp: fits_int4_def)
  then have "\<not> (\<exists>p \<in> set (products s). pe_id p = ci_productId item \<and> \<not> fits_int4 (pe_stock p + ci_quantity item))"
    by blast
  moreover have "\<exists>s'. release_loop env items ?t = (Inr (), s')"
    using Cons.prems by (intro Cons.IH) (auto simp: set_update_where algebra_simps)
  ultimately show ?case by simp
qed simp

subsection \<open>The saga commands\<close>

lemma products_reply [simp]: "products (reply_with env c t p s) = products s"
  by (simp add: reply_with_def OutboxService_write_def IdempotencyService_save_def)

lemma same_but_stock_replies:
  "same_but_stock s s' \<Longrightarrow> written_replies s' = written_replies s"
  "same_but_stock s s' \<Longrightarrow> IdempotencyService_find k s' = IdempotencyService_find k s"
  by (simp add: same_but_stock_def written_replies_def) (rule find_cong, simp add: same_but_stock_def)

definition reserved_reply :: "reserve_stock_command \<Rightarrow> order_created_event_item list \<Rightarrow> payload" where
  "reserved_reply c items = StockReserved \<lparr>commandId = commandId c, orderId = orderId c,
     correlationId = correlationId c, sr_items = items, sr_total = reservation_total items\<rparr>"

definition refused_reply :: "reserve_stock_command \<Rightarrow> string \<Rightarrow> payload" where
  "refused_reply c reason = StockReservationFailed \<lparr>commandId = commandId c, orderId = orderId c,
     correlationId = correlationId c, sf_reason = reason\<rparr>"

definition released_reply :: "release_stock_command \<Rightarrow> payload" where
  "released_reply c = StockReleased \<lparr>commandId = commandId c, orderId = orderId c, correlationId = correlationId c\<rparr>"

lemma reserve_tx_fresh:
  assumes fresh: "IdempotencyService_find (commandId c) s = None" and run: "reserve_tx env c s = (Inr (), s')"
  obtains (reserved) rs t where "reserve_loop env (rs_items c) s = (Inr rs, t)"
    "s' = reply_with env c STOCK_RESERVED (reserved_reply c rs) t"
  | (refused) e t where "reserve_loop env (rs_items c) s = (Inl e, t)" "\<And>m. e \<noteq> ProductQueryFailed m"
    "s' = reply_with env c STOCK_RESERVATION_FAILED (refused_reply c (product_error_message env e)) t"
proof (cases "reserve_loop env (rs_items c) s")
  case (Pair r t)
  show ?thesis
  proof (cases r)
    case (Inl e)
    then show ?thesis using Pair fresh run refused
      by (cases e) (auto simp: reserve_tx_def try_catch_def tx_bind_def raise_def modify_def refused_reply_def)
  next
    case (Inr rs)
    then show ?thesis using Pair fresh run reserved
      by (auto simp: reserve_tx_def try_catch_def tx_bind_def modify_def reserved_reply_def)
  qed
qed

lemma release_tx_fresh:
  assumes fresh: "IdempotencyService_find (commandId c) s = None" and run: "release_tx env c s = (Inr (), s')"
  obtains t where "release_loop env (rl_items c) s = (Inr (), t)"
    "s' = reply_with env c STOCK_RELEASED (released_reply c) t"
  using assms by (auto simp: release_tx_def tx_simps released_reply_def)

lemma handleReserveStock_db:
  "handleReserveStock fault env up c st = (r, st') \<Longrightarrow>
     transaction fault (reserve_tx env c) (ps_db st) = (r, ps_db st')"
  by (auto simp: handleReserveStock_def Let_def split: prod.splits)

lemma handleReleaseStock_db:
  "handleReleaseStock fault env up c st = (r, st') \<Longrightarrow>
     transaction fault (release_tx env c) (ps_db st) = (r, ps_db st')"
  by (auto simp: handleReleaseStock_def Let_def split: prod.splits)

lemma stock_of_reply [simp]: "stock_of i (reply_with env c t p s) = stock_of i s"
  by (simp add: stock_of_def reply_with_effect)

lemma find_active_reply [simp]: "find_active i (reply_with env c t p s) = find_active i s"
  by (simp add: find_active_def reply_with_effect)

text \<open>
  C20. The reserve-stock command, on its first delivery: either every line of the order is taken
  from the stock, exactly, and the reply lists the lines with their prices and the total; or
  the reply is a refusal because some line names no active product or more than its stock. In
  the second case the lines before the one that failed stay taken: the handler catches the
  error inside its transaction and commits.
\<close>

theorem reserve_command_effect:
  assumes "IdempotencyService_find (commandId c) (ps_db st) = None"
    and "handleReserveStock fault env up c st = (Inr (), st')"
  shows "(\<exists>rs. written_replies (ps_db st') = written_replies (ps_db st) @
        [(KAFKA_TOPICS STOCK_RESERVED, reserved_reply c rs)] \<and>
      map (\<lambda>r. (oi_productId r, oi_quantity r)) rs = map (\<lambda>x. (ci_productId x, ci_quantity x)) (rs_items c) \<and>
      (\<forall>i. stock_of i (ps_db st') = map_option (\<lambda>n. n - qty_of i (rs_items c)) (stock_of i (ps_db st)))) \<or>
    (\<exists>pre item post reason. rs_items c = pre @ item # post \<and>
      written_replies (ps_db st') = written_replies (ps_db st) @
        [(KAFKA_TOPICS STOCK_RESERVATION_FAILED, refused_reply c reason)] \<and>
      (case find_active (ci_productId item) (ps_db st') of None \<Rightarrow> True | Some p \<Rightarrow> pe_stock p < ci_quantity item) \<and>
      (\<forall>i. stock_of i (ps_db st') = map_option (\<lambda>n. n - qty_of i pre) (stock_of i (ps_db st))))"
proof -
  have "reserve_tx env c (ps_db st) = (Inr (), ps_db st')"
    using handleReserveStock_db [OF assms(2)] by (simp add: transaction_Inr)
  with assms(1) show ?thesis
  proof (cases rule: reserve_tx_fresh)
    case (reserved rs t)
    note same = reserve_loop_same [OF reserved(1)] and stock = reserve_loop_stock [OF reserved(1)]
    show ?thesis
      by (rule disjI1, rule exI [of _ rs])
        (simp add: reserved(2) reply_with_effect same_but_stock_replies(1) [OF same] stock)
  next
    case (refused e t)
    obtain pre item post rs where p: "rs_items c = pre @ item # post" "reserve_loop env pre (ps_db st) = (Inr rs, t)"
      "fails_at item t e" using reserve_loop_prefix [OF refused(1)] by blast
    note same = reserve_loop_same [OF refused(1)] and stock = reserve_loop_stock [OF p(2)]
    have "case find_active (ci_productId item) t of None \<Rightarrow> True | Some p \<Rightarrow> pe_stock p < ci_quantity item"
      using p(3) refused(2) by (auto simp: fails_at_def split: option.splits if_splits)
    then show ?thesis
      by (intro disjI2 exI [of _ pre] exI [of _ item] exI [of _ post] exI [of _ "product_error_message env e"])
        (simp add: refused(3) reply_with_effect same_but_stock_replies(1) [OF same] stock p(1))
  qed
qed

text \<open>Two products; the order asks for two of the first and for more of the second than there are.\<close>

definition sample_products :: product_service where
  "sample_products = \<lparr>ps_db = \<lparr>seq = 2, outbox = [], idempotency_keys = [], products =
     [\<lparr>pe_id = ''p1'', pe_name = ''Pen'', pe_description = None, pe_price = 1 / 10, pe_stock = 5,
        pe_isActive = True, pe_createdAt = 0, pe_updatedAt = 0\<rparr>,
      \<lparr>pe_id = ''p2'', pe_name = ''Ink'', pe_description = None, pe_price = 3, pe_stock = 1,
        pe_isActive = True, pe_createdAt = 0, pe_updatedAt = 0\<rparr>]\<rparr>, ps_cache = (\<lambda>_. None)\<rparr>"

definition sample_reserve :: "int \<Rightarrow> reserve_stock_command" where
  "sample_reserve q = \<lparr>commandId = ''s1'', orderId = ''o1'', correlationId = ''c1'', rs_items =
     [\<lparr>ci_productId = ''p1'', ci_quantity = 2\<rparr>, \<lparr>ci_productId = ''p2'', ci_quantity = q\<rparr>]\<rparr>"

theorem reserve_command_effect_witness:
  "\<exists>reason. written_replies (ps_db (snd (handleReserveStock None sample_env True (sample_reserve 4) sample_products))) =
       [(KAFKA_TOPICS STOCK_RESERVATION_FAILED, refused_reply (sample_reserve 4) reason)] \<and>
     stock_of ''p1'' (ps_db (snd (handleReserveStock None sample_env True (sample_reserve 4) sample_products))) = Some 3"
proof -
  let ?h = "handleReserveStock None sample_env True (sample_reserve 4) sample_products"
  have ok: "?h = (Inr (), snd ?h)" by (simp add: prod_eq_iff) code_simp
  have fresh: "IdempotencyService_find (commandId (sample_reserve 4)) (ps_db sample_products) = None" by code_simp
  have stock: "stock_of ''p1'' (ps_db (snd ?h)) = Some 3" by code_simp
  have topic: "map fst (written_replies (ps_db (snd ?h))) = [KAFKA_TOPICS STOCK_RESERVATION_FAILED]" by code_simp
  have old: "written_replies (ps_db sample_products) = []" by code_simp
  from reserve_command_effect [OF fresh ok] show ?thesis
    using topic stock unfolding old by auto
qed

text \<open>
  The HTTP reservation is all or nothing: if it answers with an error (whatever the error,
  a refused commit included) the database is unchanged, and if it succeeds every line was
  taken exactly.
\<close>

theorem http_reserve_atomic:
  "case ProductsController_reserveStock fault env up items st of
     (Inl e, st') \<Rightarrow> ps_db st' = ps_db st
   | (Inr rs, st') \<Rightarrow>
       map (\<lambda>r. (oi_productId r, oi_quantity r)) rs = map (\<lambda>x. (ci_productId x, ci_quantity x)) items \<and>
       (\<forall>i. stock_of i (ps_db st') = map_option (\<lambda>n. n - qty_of i items) (stock_of i (ps_db st)))"
proof -
  have cache: "ps_db (evict_items up items x) = ps_db x" for x
    by (simp add: evict_items_def cacheDel_def)
  show ?thesis
  proof (cases fault "reserve_loop env items" "ps_db st" rule: transaction_cases)
    case (abort e)
    then show ?thesis
      by (simp add: ProductsController_reserveStock_def ProductsService_reserveStock_own_def with_http_def)
  next
    case (commit rs s')
    with reserve_loop_stock [OF commit(2)] show ?thesis
      by (simp add: ProductsController_reserveStock_def ProductsService_reserveStock_own_def with_http_def cache)
  qed
qed

subsection \<open>Release undoes a reservation\<close>

definition stock_ok :: "product_db \<Rightarrow> bool" where
  "stock_ok s \<longleftrightarrow> distinct (map pe_id (products s)) \<and>
     (\<forall>p \<in> set (products s). 0 \<le> pe_stock p \<and> fits_int4 (pe_stock p))"

lemma same_but_stock_map:
  "same_but_stock s s' \<Longrightarrow> (\<And>x y. pe_ident x = pe_ident y \<Longrightarrow> h x = h y) \<Longrightarrow> map h (products s') = map h (products s)"
  by (rule map_coarser [of pe_ident]) (simp add: same_but_stock_def, blast)

lemma same_but_stock_ids: "same_but_stock s s' \<Longrightarrow> map pe_id (products s') = map pe_id (products s)"
  by (rule same_but_stock_map) (simp_all add: pe_ident_def)

lemma stock_of_row:
  "distinct (map pe_id (products s)) \<Longrightarrow> p \<in> set (products s) \<Longrightarrow> stock_of (pe_id p) s = Some (pe_stock p)"
  by (simp add: stock_of_def row_of_unique)

lemma stock_of_ok: "stock_ok s \<Longrightarrow> stock_of i s = Some n \<Longrightarrow> 0 \<le> n \<and> fits_int4 n"
  by (auto simp: stock_ok_def stock_of_def dest!: row_of_in)

lemma take_stock_ok:
  assumes "stock_ok s" "find_active i s = Some p" "\<not> pe_stock p < q" "fits_int4 (pe_stock p - q)"
  shows "stock_ok (take_stock env (pe_id p) q s)"
proof -
  have p: "p \<in> set (products s)" using find_active_id [OF assms(2)] by simp
  have only: "pe_stock x = pe_stock p" if "x \<in> set (products s)" "pe_id x = pe_id p" for x
    using that p assms(1) by (auto simp: stock_ok_def distinct_map dest: inj_onD)
  show ?thesis
    using assms by (auto simp: stock_ok_def take_stock_def set_update_where map_update_where only)
qed

lemma reserve_loop_ok: "reserve_loop env items s = (r, s') \<Longrightarrow> stock_ok s \<Longrightarrow> stock_ok s'"
proof (induction items arbitrary: s r s')
  case (Cons item items)
  show ?case
  proof (cases "\<exists>p. find_active (ci_productId item) s = Some p \<and> \<not> pe_stock p < ci_quantity item \<and>
      fits_int4 (pe_stock p - ci_quantity item)")
    case True
    then obtain p where p: "find_active (ci_productId item) s = Some p" "\<not> pe_stock p < ci_quantity item"
      "fits_int4 (pe_stock p - ci_quantity item)" by blast
    obtain r' where "reserve_loop env items (take_stock env (pe_id p) (ci_quantity item) s) = (r', s')"
      using Cons.prems(1) p by (auto split: prod.splits sum.splits)
    with Cons.IH take_stock_ok [OF Cons.prems(2) p] show ?thesis by blast
  next
    case False
    with Cons.prems show ?thesis by (auto split: option.splits if_splits)
  qed
qed simp

text \<open>
  The compensation: releasing the lines of a successful reservation always succeeds and
  puts back exactly what was taken, so that the stock of every product is what it was before,
  whatever other replies were written in between.
\<close>

theorem release_undoes_reserve:
  assumes "stock_ok s" "\<forall>x \<in> set items. 0 < ci_quantity x"
    and "reserve_loop env items s = (Inr rs, s')"
  shows "\<exists>s''. release_loop env' items s' = (Inr (), s'') \<and> (\<forall>i. stock_of i s'' = stock_of i s)"
proof -
  have ok: "stock_ok s'" using assms(1,3) reserve_loop_ok by blast
  note stock = reserve_loop_stock [OF assms(3)]
  have "fits_int4 (pe_stock p + qty_of (pe_id p) items)" if "p \<in> set (products s')" for p
  proof -
    have "stock_of (pe_id p) s' = Some (pe_stock p)"
      using that ok by (intro stock_of_row) (simp_all add: stock_ok_def)
    with stock [of "pe_id p"] have "stock_of (pe_id p) s = Some (pe_stock p + qty_of (pe_id p) items)"
      by (cases "stock_of (pe_id p) s") auto
    with stock_of_ok [OF assms(1)] show ?thesis by blast
  qed
  then obtain s'' where s'': "release_loop env' items s' = (Inr (), s'')"
    using release_loop_total [of items s' env'] assms(2) ok by (auto simp: stock_ok_def less_imp_le)
  have "stock_of i s'' = stock_of i s" for i
    using release_loop_effect [OF s'', of i] stock [of i] by (simp add: option.map_comp comp_def option.map_ident)
  with s'' show ?thesis by blast
qed

theorem release_undoes_reserve_witness:
  "\<exists>s''. release_loop sample_env (rs_items (sample_reserve 1))
       (snd (reserve_loop sample_env (rs_items (sample_reserve 1)) (ps_db sample_products))) = (Inr (), s'') \<and>
     stock_of ''p2'' s'' = Some 1"
proof -
  let ?s = "ps_db sample_products" and ?items = "rs_items (sample_reserve 1)"
  have "stock_ok ?s" by (simp add: stock_ok_def sample_products_def fits_int4_def)
  moreover have "\<forall>x \<in> set ?items. 0 < ci_quantity x" by (simp add: sample_reserve_def)
  moreover obtain rs where "reserve_loop sample_env ?items ?s = (Inr rs, snd (reserve_loop sample_env ?items ?s))"
    by (simp add: sample_reserve_def sample_products_def find_active_def take_stock_def fits_int4_def)
  moreover have "stock_of ''p2'' ?s = Some 1" by code_simp
  ultimately show ?thesis using release_undoes_reserve [of ?s ?items sample_env _ _ sample_env] by metis
qed

subsection \<open>Redelivered commands\<close>

text \<open>Both commands of the saga, as the subscriptions of \<open>onModuleInit\<close> route them.\<close>

datatype products_command = Reserve reserve_stock_command | Release release_stock_command

fun products_commandId :: "products_command \<Rightarrow> string" where
  "products_commandId (Reserve c) = commandId c"
| "products_commandId (Release c) = commandId c"

record products_context =
  pc_fault :: "product_error option"
  pc_env :: env
  pc_up :: bool

fun ProductsSagaController_handler ::
  "products_context \<Rightarrow> products_command \<Rightarrow> (product_service, product_error, unit) tx" where
  "ProductsSagaController_handler x (Reserve c) = handleReserveStock (pc_fault x) (pc_env x) (pc_up x) c"
| "ProductsSagaController_handler x (Release c) = handleReleaseStock (pc_fault x) (pc_env x) (pc_up x) c"

lemma repeated_tx:
  assumes "IdempotencyService_find (commandId c) s = Some r"
  shows "reserve_tx env c s = (Inr (), OutboxService_write env (orderId c) (fst r) (orderId c) (snd r) s)"
  using assms by (cases r) (simp add: reserve_tx_def)

lemma repeated_release_tx:
  assumes "IdempotencyService_find (commandId c) s = Some r"
  shows "release_tx env c s = (Inr (), OutboxService_write env (orderId c) (fst r) (orderId c) (snd r) s)"
  using assms by (cases r) (simp add: release_tx_def)

lemma stock_answered: "same_but_stock s t \<Longrightarrow> answered (commandId c) s (reply_with env c topic p t)"
  by (rule reply_with_answered) (simp_all add: same_but_stock_def)

lemma fresh_answered:
  "IdempotencyService_find (commandId c) s = None \<Longrightarrow> reserve_tx env c s = (Inr (), s') \<Longrightarrow> answered (commandId c) s s'"
  by (elim reserve_tx_fresh) (auto intro!: stock_answered reserve_loop_same)

lemma fresh_release_answered:
  "IdempotencyService_find (commandId c) s = None \<Longrightarrow> release_tx env c s = (Inr (), s') \<Longrightarrow> answered (commandId c) s s'"
  by (elim release_tx_fresh) (auto intro!: stock_answered dest: release_loop_effect)

interpretation products_saga: idempotent_consumer ProductsSagaController_handler products_commandId
  "\<lambda>k st. IdempotencyService_find k (ps_db st)" "\<lambda>st. written_replies (ps_db st)" "\<lambda>st. products (ps_db st)"
proof unfold_locales
  fix x c st e st' k
  assume "ProductsSagaController_handler x c st = (Inl e, st')"
  then have "ps_db st' = ps_db st"
    by (cases c) (auto dest!: handleReserveStock_db handleReleaseStock_db
      simp: transaction_def split: prod.splits sum.splits option.splits)
  then show "products (ps_db st') = products (ps_db st) \<and>
      written_replies (ps_db st') = written_replies (ps_db st) \<and>
      IdempotencyService_find k (ps_db st') = IdempotencyService_find k (ps_db st)" by simp
next
  fix x c st st' r k
  assume "ProductsSagaController_handler x c st = (Inr (), st')"
    and "IdempotencyService_find (products_commandId c) (ps_db st) = Some r"
  then have "\<exists>a. OutboxService_write (pc_env x) a (fst r) a (snd r) (ps_db st) = ps_db st'"
    by (cases c) (auto dest!: handleReserveStock_db handleReleaseStock_db
      simp: transaction_Inr repeated_tx repeated_release_tx)
  then obtain a where "ps_db st' = OutboxService_write (pc_env x) a (fst r) a (snd r) (ps_db st)" by metis
  then show "products (ps_db st') = products (ps_db st) \<and>
      written_replies (ps_db st') = written_replies (ps_db st) @ [r] \<and>
      IdempotencyService_find k (ps_db st') = IdempotencyService_find k (ps_db st)"
    by (simp add: OutboxService_write_def written_replies_def new_outbox_row_def IdempotencyService_find_def)
next
  fix x c st st'
  assume "ProductsSagaController_handler x c st = (Inr (), st')"
    and "IdempotencyService_find (products_commandId c) (ps_db st) = None"
  then have "answered (products_commandId c) (ps_db st) (ps_db st')"
    by (cases c) (auto dest!: handleReserveStock_db handleReleaseStock_db
      simp: transaction_Inr intro: fresh_answered fresh_release_answered)
  then show "\<exists>r. IdempotencyService_find (products_commandId c) (ps_db st') = Some r \<and>
      written_replies (ps_db st') = written_replies (ps_db st) @ [r] \<and>
      (\<forall>k. k \<noteq> products_commandId c \<longrightarrow>
         IdempotencyService_find k (ps_db st') = IdempotencyService_find k (ps_db st))"
    by (simp add: answered_def)
qed

text \<open>
  C21. However often and in whatever order the broker delivers the reserve and release
  commands, and whichever deliveries fail and roll back: no command changes the stock twice; and
  each delivery that succeeds, the first of its command or a later one, writes exactly one reply, the one that is
  stored for the command, so that a redelivery repeats the reply of the first delivery.
\<close>

theorem stock_commands_once:
  "distinct (effective ProductsSagaController_handler products_commandId (\<lambda>st. products (ps_db st)) ds st) \<and>
   (\<exists>rs. written_replies (ps_db (deliveries ProductsSagaController_handler ds st)) = written_replies (ps_db st) @ rs \<and>
      map Some rs = map (\<lambda>c. IdempotencyService_find (products_commandId c) (ps_db (deliveries ProductsSagaController_handler ds st)))
        (succeeded ProductsSagaController_handler ds st))"
  using products_saga.effective_distinct products_saga.replies_of_deliveries by blast

subsection \<open>The total of a reservation\<close>

text \<open>The price of a product in cents, and what a list of lines costs in exact arithmetic.\<close>

definition price_cents :: "string \<Rightarrow> product_db \<Rightarrow> int" where
  "price_cents i s = (case row_of pe_id i (products s) of None \<Rightarrow> 0 | Some p \<Rightarrow> \<lfloor>100 * pe_price p\<rfloor>)"

definition order_cents :: "product_db \<Rightarrow> command_item list \<Rightarrow> int" where
  "order_cents s items = sum_list (map (\<lambda>x. price_cents (ci_productId x) s * ci_quantity x) items)"

definition prices_ok :: "product_db \<Rightarrow> bool" where
  "prices_ok s \<longleftrightarrow> distinct (map pe_id (products s)) \<and>
     (\<forall>p \<in> set (products s). \<exists>k. 0 \<le> k \<and> pe_price p = of_int k / 100)"

lemma price_cents_cong: "same_but_stock s s' \<Longrightarrow> price_cents i s' = price_cents i s"
proof -
  assume "same_but_stock s s'"
  then have "map (\<lambda>p. (pe_id p, pe_price p)) (products s') = map (\<lambda>p. (pe_id p, pe_price p)) (products s)"
    by (rule same_but_stock_map) (simp add: pe_ident_def)
  then have "map_option (\<lambda>p. (pe_id p, pe_price p)) (row_of pe_id i (products s')) =
      map_option (\<lambda>p. (pe_id p, pe_price p)) (row_of pe_id i (products s))"
    by (rule row_of_map_cong) simp
  then show ?thesis by (cases "row_of pe_id i (products s)"; cases "row_of pe_id i (products s')") (auto simp: price_cents_def)
qed

lemma prices_ok_cong:
  assumes "same_but_stock s s'" "prices_ok s" shows "prices_ok s'"
proof -
  have "map pe_price (products s') = map pe_price (products s)"
    using assms(1) by (rule same_but_stock_map) (simp add: pe_ident_def)
  then have "pe_price ` set (products s') = pe_price ` set (products s)" by (metis list.set_map)
  with assms(2) same_but_stock_ids [OF assms(1)] show ?thesis
    unfolding prices_ok_def by (metis (no_types, lifting) image_iff)
qed

lemma price_of_active:
  assumes "prices_ok s" "find_active i s = Some p"
  shows "0 \<le> price_cents i s" "pe_price p = of_int (price_cents i s) / 100"
proof -
  have p: "p \<in> set (products s)" "pe_id p = i" using find_active_id [OF assms(2)] by auto
  then have "row_of pe_id i (products s) = Some p"
    using row_of_unique [of pe_id "products s" p] assms(1) by (simp add: prices_ok_def)
  moreover obtain k where "0 \<le> k" "pe_price p = of_int k / 100" using assms(1) p by (auto simp: prices_ok_def)
  moreover from this have "100 * pe_price p = of_int k" by simp
  ultimately show "0 \<le> price_cents i s" "pe_price p = of_int (price_cents i s) / 100"
    by (simp_all add: price_cents_def)
qed

lemma reserve_loop_lines:
  "reserve_loop env items s = (Inr rs, s') \<Longrightarrow> prices_ok s \<Longrightarrow>
     list_all2 (\<lambda>r x. oi_quantity r = ci_quantity x \<and> 0 \<le> price_cents (ci_productId x) s \<and>
       oi_unitPrice r = fl (of_int (price_cents (ci_productId x) s) / 100)) rs items"
proof (induction items arbitrary: s rs)
  case (Cons item items)
  then obtain p rs' where p: "find_active (ci_productId item) s = Some p"
    and rest: "reserve_loop env items (take_stock env (pe_id p) (ci_quantity item) s) = (Inr rs', s')"
    and rs: "rs = \<lparr>oi_productId = pe_id p, oi_name = pe_name p, oi_quantity = ci_quantity item,
               oi_unitPrice = fl (pe_price p)\<rparr> # rs'"
    by (auto split: option.splits if_splits prod.splits sum.splits)
  let ?t = "take_stock env (pe_id p) (ci_quantity item) s"
  have same: "same_but_stock s ?t" by (rule take_stock_effect)
  from Cons.IH [OF rest prices_ok_cong [OF same Cons.prems(2)]] show ?case
    unfolding rs by (simp add: price_of_active [OF Cons.prems(2) p] price_cents_cong [OF same])
qed simp

lemma total_close:
  assumes "list_all2 (\<lambda>r x. oi_quantity r = q x \<and> 0 \<le> c x \<and> oi_unitPrice r = fl (of_int (c x) / 100)) rs items"
    and "\<forall>x \<in> set items. 0 \<le> q x" "0 \<le> A" "A + sum_list (map (\<lambda>x. c x * q x) items) \<le> 10 ^ 10"
    and "\<bar>acc - of_int A / 100\<bar> \<le> of_nat n * (5 / 100000000)" "n + length items \<le> 10000"
  shows "\<bar>foldl (\<lambda>sum' i. num_add sum' (num_mul (oi_unitPrice i) (of_int (oi_quantity i)))) acc rs -
      of_int (A + sum_list (map (\<lambda>x. c x * q x) items)) / 100\<bar> \<le> of_nat (n + length items) * (5 / 100000000)"
  using assms
proof (induction rs items arbitrary: acc A n rule: list_all2_induct)
  case (Cons r rs x items)
  let ?B = "c x * q x" and ?S = "sum_list (map (\<lambda>x. c x * q x) items)"
  have q: "0 \<le> q x" and c: "0 \<le> c x" "oi_quantity r = q x" "oi_unitPrice r = fl (of_int (c x) / 100)"
    using Cons.hyps(1) Cons.prems(1) by simp_all
  have B: "0 \<le> ?B" using q c by simp
  have S: "0 \<le> ?S"
    using Cons.hyps(2) Cons.prems(1)
    by (intro sum_list_nonneg) (auto simp: list_all2_conv_all_nth in_set_conv_nth intro!: mult_nonneg_nonneg)
  have AB: "A + ?B \<le> 10 ^ 10" using Cons.prems(3) S by simp
  then have "(of_int (A + ?B) :: rat) \<le> of_int (10 ^ 10)" by (simp only: of_int_le_iff)
  then have bound: "(of_int A / 100 + of_int ?B / 100 :: rat) \<le> 100000000" by simp
  have A: "(0 :: rat) \<le> of_int A / 100" using Cons.prems(2) by simp
  have B': "(0 :: rat) \<le> of_int ?B / 100" using B by (simp only: of_int_0_le_iff zero_le_divide_iff) simp
  have line: "\<bar>num_mul (oi_unitPrice r) (of_int (oi_quantity r)) - of_int ?B / 100\<bar> \<le> 3 / 100000000"
    using line_total_close [of "of_int (c x) / 100" "of_int (q x)"] q c bound A by simp
  have "(of_nat n :: rat) \<le> 10000" using Cons.prems(5) by simp
  then have "(of_nat n * (5 / 100000000) :: rat) \<le> 1 / 2000" by simp
  note step = sum_step_close [OF Cons.prems(4) line A B' bound this]
  have "\<bar>num_add acc (num_mul (oi_unitPrice r) (of_int (oi_quantity r))) - of_int (A + ?B) / 100\<bar>
      \<le> of_nat (Suc n) * (5 / 100000000)"
    using step by (simp add: add_divide_distrib algebra_simps)
  with Cons.IH [of "A + ?B" "num_add acc (num_mul (oi_unitPrice r) (of_int (oi_quantity r)))" "Suc n"]
    Cons.prems B show ?case by (simp add: add.assoc)
qed simp

lemma reservation_near:
  assumes "reserve_loop env items s = (Inr rs, s')" "prices_ok s" "\<forall>x \<in> set items. 0 \<le> ci_quantity x"
    and "length items \<le> 10000" "order_cents s items \<le> 10 ^ 10"
  shows "near_cents (order_cents s items) (reservation_total rs)"
proof -
  have "\<bar>reservation_total rs - of_int (order_cents s items) / 100\<bar> \<le> of_nat (0 + length items) * (5 / 100000000)"
    unfolding reservation_total_def order_cents_def
    using total_close [OF reserve_loop_lines [OF assms(1,2)], of 0 0 0] assms(3-5)
    by (simp add: order_cents_def)
  moreover have "(of_nat (length items) :: rat) \<le> 10000" using assms(4) by simp
  ultimately show ?thesis unfolding near_cents_def by simp
qed

text \<open>
  C22. The total of a reservation, a sum of binary64 products, is the exact sum of price times
  quantity up to less than half a cent, so that stored in a column it is that sum to the cent:
  for orders of up to ten thousand lines worth up to a hundred million.
\<close>

theorem reservation_total_exact:
  assumes "reserve_loop env items s = (Inr rs, s')" "prices_ok s" "\<forall>x \<in> set items. 0 \<le> ci_quantity x"
    and "length items \<le> 10000" "order_cents s items \<le> 10 ^ 10"
  shows "near_cents (order_cents s items) (reservation_total rs) \<and>
    dec2 (reservation_total rs) = of_int (order_cents s items) / 100"
  using reservation_near [OF assms] near_cents_dec2 by blast

theorem reservation_total_exact_witness:
  "\<exists>rs s'. reserve_loop sample_env [\<lparr>ci_productId = ''p1'', ci_quantity = 3\<rparr>] (ps_db sample_products) = (Inr rs, s') \<and>
     reservation_total rs \<noteq> fl (3 / 10) \<and> dec2 (reservation_total rs) = 3 / 10"
proof -
  let ?items = "[\<lparr>ci_productId = ''p1'', ci_quantity = 3\<rparr>]" and ?s = "ps_db sample_products"
  obtain rs s' where run: "reserve_loop sample_env ?items ?s = (Inr rs, s')"
    and rs: "rs = [\<lparr>oi_productId = ''p1'', oi_name = ''Pen'', oi_quantity = 3, oi_unitPrice = fl (1 / 10)\<rparr>]"
    by (simp add: sample_products_def find_active_def fits_int4_def)
  have "prices_ok ?s"
    by (auto simp: prices_ok_def sample_products_def intro: exI [of _ 10] exI [of _ 300])
  moreover have "order_cents ?s ?items = 30" by code_simp
  ultimately have "dec2 (reservation_total rs) = 3 / 10"
    using reservation_total_exact [OF run] by simp
  moreover have "reservation_total rs \<noteq> fl (3 / 10)" unfolding rs by code_simp
  ultimately show ?thesis using run by blast
qed

end
