(* ===== verification/ProductMachine.thy ===== *)
theory ProductMachine
  imports ProductStock
begin

section \<open>The reachable states of the product-service\<close>

text \<open>
  The operations of the product-service as the steps of one machine in which requests do not overlap: the
  HTTP requests that pass validation, the commands of the saga, the expiry of a cache entry and the tick of the outbox
  processor. \<open>reliable\<close> says that the cache answers in every step; only then is a cached
  product the one in the database, since a failed eviction is swallowed by the code. Stock and
  prices are sound in any case. \<open>ProductReads\<close> takes the requests apart and lets them overlap.
\<close>

subsection \<open>Invariant\<close>

definition coherent :: "product_service \<Rightarrow> bool" where
  "coherent st \<longleftrightarrow> (\<forall>i r. ps_cache st (keyOne i) = Some r \<longrightarrow>
     map_option product_toResult (find_active i (ps_db st)) = Some r)"

definition product_inv :: "(nat \<Rightarrow> string) \<Rightarrow> bool \<Rightarrow> product_service \<Rightarrow> bool" where
  "product_inv ru reliable st \<longleftrightarrow> stock_ok (ps_db st) \<and> prices_ok (ps_db st) \<and>
     set (map pe_id (products (ps_db st))) \<subseteq> ru ` {..<seq (ps_db st)} \<and> (reliable \<longrightarrow> coherent st)"

lemma keyOne_inject [simp]: "keyOne i = keyOne j \<longleftrightarrow> i = j"
  by (simp add: keyOne_def)

text \<open>A change that evicts every product it touches keeps the cache coherent.\<close>

lemma coherent_change:
  assumes "coherent st" "\<And>k. ps_cache st' k = None \<or> ps_cache st' k = ps_cache st k"
    and "\<And>i. ps_cache st' (keyOne i) \<noteq> None \<Longrightarrow> find_active i (ps_db st') = find_active i (ps_db st)"
  shows "coherent st'"
  unfolding coherent_def
proof (intro allI impI)
  fix i r assume r: "ps_cache st' (keyOne i) = Some r"
  with assms(2) [of "keyOne i"] have "ps_cache st (keyOne i) = Some r" by simp
  with assms(1,3) r show "map_option product_toResult (find_active i (ps_db st')) = Some r"
    by (simp add: coherent_def)
qed

lemma find_active_other:
  assumes "i \<noteq> j" "\<And>x. pe_id x = j \<Longrightarrow> pe_id (f x) = j"
  shows "find_active i (s\<lparr>products := update_where (\<lambda>x. pe_id x = j) f (products s)\<rparr>) = find_active i s"
proof -
  have "List.find (\<lambda>p. pe_id p = i \<and> pe_isActive p) (update_where (\<lambda>x. pe_id x = j) f ps) =
      List.find (\<lambda>p. pe_id p = i \<and> pe_isActive p) ps" for ps
    using assms by (induction ps) auto
  then show ?thesis by (simp add: find_active_def)
qed

lemma find_append: "List.find P (xs @ ys) = (case List.find P xs of None \<Rightarrow> List.find P ys | Some x \<Rightarrow> Some x)"
  by (induction xs) auto

lemma reserve_loop_others:
  "reserve_loop env items s = (r, s') \<Longrightarrow> i \<notin> ci_productId ` set items \<Longrightarrow> find_active i s' = find_active i s"
proof (induction items arbitrary: s r)
  case (Cons item items)
  show ?case
  proof (cases "\<exists>p. find_active (ci_productId item) s = Some p \<and> \<not> pe_stock p < ci_quantity item \<and>
      fits_int4 (pe_stock p - ci_quantity item)")
    case True
    then obtain p where p: "find_active (ci_productId item) s = Some p" "\<not> pe_stock p < ci_quantity item"
      "fits_int4 (pe_stock p - ci_quantity item)" by blast
    obtain r' where "reserve_loop env items (take_stock env (pe_id p) (ci_quantity item) s) = (r', s')"
      using Cons.prems(1) p by (auto split: prod.splits sum.splits)
    moreover have "find_active i (take_stock env (pe_id p) (ci_quantity item) s) = find_active i s"
      using Cons.prems(2) find_active_id [OF p(1)] by (auto simp: take_stock_def intro!: find_active_other)
    ultimately show ?thesis using Cons.IH Cons.prems(2) by auto
  next
    case False
    with Cons.prems show ?thesis by (auto split: option.splits if_splits)
  qed
qed simp

lemma release_loop_others:
  "release_loop env items s = (r, s') \<Longrightarrow> i \<notin> ci_productId ` set items \<Longrightarrow> find_active i s' = find_active i s"
proof (induction items arbitrary: s r)
  case (Cons item items)
  let ?t = "s\<lparr>products := update_where (\<lambda>p. pe_id p = ci_productId item)
            (\<lambda>p. p\<lparr>pe_stock := pe_stock p + ci_quantity item, pe_updatedAt := e_now env\<rparr>) (products s)\<rparr>"
  have "find_active i ?t = find_active i s" using Cons.prems(2) by (intro find_active_other) auto
  with Cons show ?case by (auto split: if_splits)
qed simp

lemma release_loop_ok:
  "release_loop env items s = (Inr (), s') \<Longrightarrow> stock_ok s \<Longrightarrow> \<forall>x \<in> set items. 0 \<le> ci_quantity x \<Longrightarrow> stock_ok s'"
proof (induction items arbitrary: s)
  case (Cons item items)
  let ?t = "s\<lparr>products := update_where (\<lambda>p. pe_id p = ci_productId item)
            (\<lambda>p. p\<lparr>pe_stock := pe_stock p + ci_quantity item, pe_updatedAt := e_now env\<rparr>) (products s)\<rparr>"
  have "stock_ok ?t" using Cons.prems
    by (auto simp: stock_ok_def map_update_where set_update_where split: if_splits)
  with Cons show ?case by (auto split: if_splits)
qed simp

subsection \<open>Administration\<close>

lemma cents_dec2: "0 \<le> x \<Longrightarrow> \<exists>k. 0 \<le> k \<and> dec2 x = of_int k / 100"
proof -
  assume "0 \<le> x"
  obtain k where "dec2 x = of_int k / 100" using dec2_is_cents by blast
  with dec2_nonneg [OF \<open>0 \<le> x\<close>] show ?thesis by (auto simp: zero_le_divide_iff)
qed

lemma product_create_inv:
  assumes inv: "product_inv ru reliable st" and ru: "uuid_ok ru" "e_uuid env = ru" and dto: "CreateProductDto_valid dto"
  shows "product_inv ru reliable (snd (ProductsService_create env dto st))"
proof (cases "ProductsService_create env dto st")
  case (Pair r st')
  show ?thesis
  proof (cases r)
    case (Inl e)
    with Pair inv show ?thesis by (simp add: ProductsService_create_def Let_def split: if_splits)
  next
    case (Inr res)
    let ?s = "ps_db st"
    obtain p where st': "st' = st\<lparr>ps_db := ?s\<lparr>products := products ?s @ [p], seq := Suc (seq ?s)\<rparr>\<rparr>"
      and p: "pe_id p = ru (seq ?s)" "0 \<le> pe_stock p" "fits_int4 (pe_stock p)" "pe_price p = dec2 (cp_price dto)"
      using Pair Inr ru(2) dto
      by (auto simp: ProductsService_create_def Let_def store_product_def product_fits_def CreateProductDto_valid_def
          split: if_splits)
    have ids: "set (map pe_id (products ?s)) \<subseteq> ru ` {..<seq ?s}" using inv by (simp add: product_inv_def)
    have fresh: "ru (seq ?s) \<notin> set (map pe_id (products ?s))" using ru(1) ids by (rule fresh_id) simp
    have "\<exists>k. 0 \<le> k \<and> pe_price p = of_int k / 100"
      using dto p(4) cents_dec2 [of "cp_price dto"] by (simp add: CreateProductDto_valid_def)
    moreover have "coherent st'" if "coherent st"
      unfolding st' coherent_def
    proof (intro allI impI)
      fix i r assume "ps_cache (st\<lparr>ps_db := ?s\<lparr>products := products ?s @ [p], seq := Suc (seq ?s)\<rparr>\<rparr>) (keyOne i) = Some r"
      then have "map_option product_toResult (find_active i ?s) = Some r" using that by (simp add: coherent_def)
      moreover have "find_active i (?s\<lparr>products := products ?s @ [p], seq := Suc (seq ?s)\<rparr>) = find_active i ?s"
        if "find_active i ?s \<noteq> None"
        using that by (auto simp: find_active_def find_append split: option.splits)
      ultimately show "map_option product_toResult (find_active i
          (ps_db (st\<lparr>ps_db := ?s\<lparr>products := products ?s @ [p], seq := Suc (seq ?s)\<rparr>\<rparr>))) = Some r" by auto
    qed
    ultimately show ?thesis
      using Pair inv fresh ids_next [OF ids] p unfolding st'
      by (auto simp: product_inv_def stock_ok_def prices_ok_def)
  qed
qed

text \<open>Updates and removals change the row of one product and evict it.\<close>

lemma change_inv:
  assumes inv: "product_inv ru reliable st" and up: "reliable \<longrightarrow> up"
    and f: "\<And>x. x \<in> set (products (ps_db st)) \<Longrightarrow> pe_id x = i \<Longrightarrow> pe_id (f x) = i \<and> 0 \<le> pe_stock (f x) \<and>
      fits_int4 (pe_stock (f x)) \<and> (\<exists>k. 0 \<le> k \<and> pe_price (f x) = of_int k / 100)"
    and id: "\<And>x. pe_id x = i \<Longrightarrow> pe_id (f x) = i"
  shows "product_inv ru reliable (cacheDel up [keyOne i]
    (st\<lparr>ps_db := (ps_db st)\<lparr>products := update_where (\<lambda>x. pe_id x = i) f (products (ps_db st))\<rparr>\<rparr>))"
proof -
  let ?st = "cacheDel up [keyOne i]
    (st\<lparr>ps_db := (ps_db st)\<lparr>products := update_where (\<lambda>x. pe_id x = i) f (products (ps_db st))\<rparr>\<rparr>)"
  have db: "ps_db ?st = (ps_db st)\<lparr>products := update_where (\<lambda>x. pe_id x = i) f (products (ps_db st))\<rparr>"
    by (simp add: cacheDel_def)
  have "coherent ?st" if "coherent st" up
    using that(1)
  proof (rule coherent_change)
    fix k show "ps_cache ?st k = None \<or> ps_cache ?st k = ps_cache st k" by (simp add: cacheDel_def)
  next
    fix j assume "ps_cache ?st (keyOne j) \<noteq> None"
    with that(2) have "j \<noteq> i" by (auto simp: cacheDel_def)
    then show "find_active j (ps_db ?st) = find_active j (ps_db st)"
      unfolding db using id by (rule find_active_other)
  qed
  moreover have "map pe_id (update_where (\<lambda>x. pe_id x = i) f (products (ps_db st))) = map pe_id (products (ps_db st))"
    by (rule map_update_where) (simp add: id)
  ultimately show ?thesis
    using inv up f unfolding product_inv_def db stock_ok_def prices_ok_def
    by (auto simp: set_update_where)
qed

text \<open>What a save may write: a product that was read, with the changes of a valid request.\<close>

definition sound_product :: "product_entity \<Rightarrow> bool" where
  "sound_product p \<longleftrightarrow> 0 \<le> pe_stock p \<and> 0 \<le> pe_price p"

lemma found_sound:
  assumes "product_inv ru reliable st" "find_active i (ps_db st) = Some p"
  shows "sound_product p" "pe_id p = i"
  using assms find_active_id [OF assms(2)]
  by (auto simp: sound_product_def product_inv_def stock_ok_def prices_ok_def)

lemma assigned_sound: "sound_product p \<Longrightarrow> UpdateProductDto_valid dto \<Longrightarrow> sound_product (assign_product dto p)"
  by (auto simp: sound_product_def assign_product_def UpdateProductDto_valid_def split: option.splits)

lemma assigned_id [simp]: "pe_id (assign_product dto p) = pe_id p"
  by (simp add: assign_product_def)

lemma save_inv:
  assumes inv: "product_inv ru reliable st" and p: "sound_product p" and up: "reliable \<longrightarrow> up"
    and run: "save_product env p st = (r, st')"
  shows "product_inv ru reliable (if isl r then st' else cacheDel up [keyOne (pe_id p)] st')"
proof (cases "product_fits (p\<lparr>pe_updatedAt := e_now env\<rparr>)")
  case True
  let ?p = "store_product (p\<lparr>pe_updatedAt := e_now env\<rparr>)"
  have "pe_id ?p = pe_id p \<and> 0 \<le> pe_stock ?p \<and> fits_int4 (pe_stock ?p) \<and> (\<exists>k. 0 \<le> k \<and> pe_price ?p = of_int k / 100)"
    using True p cents_dec2 [of "pe_price p"] by (simp add: store_product_def product_fits_def sound_product_def)
  then have "product_inv ru reliable (cacheDel up [keyOne (pe_id p)] (st\<lparr>ps_db := (ps_db st)\<lparr>products :=
      update_where (\<lambda>x. pe_id x = pe_id p) (\<lambda>_. ?p) (products (ps_db st))\<rparr>\<rparr>))"
    by (intro change_inv [OF inv up]) blast+
  with run True show ?thesis by (auto simp: save_product_def Let_def)
next
  case False
  with run inv show ?thesis by (auto simp: save_product_def Let_def)
qed

lemma update_run:
  "ProductsService_update env up i dto st =
    (case find_active i (ps_db st) of
       None \<Rightarrow> (Inl (ProductNotFoundError i), st)
     | Some p \<Rightarrow> (case save_product env (assign_product dto p) st of
         (Inl e, st') \<Rightarrow> (Inl e, st')
       | (Inr saved, st') \<Rightarrow> (Inr (product_toResult saved), cacheDel up [keyOne i] st')))"
  by (auto simp: ProductsService_update_def find_product_def found_def tx_bind_def modify_def ret_def
      split: option.splits prod.splits sum.splits)

lemma remove_run:
  "ProductsService_remove env up i st =
    (case find_active i (ps_db st) of
       None \<Rightarrow> (Inl (ProductNotFoundError i), st)
     | Some p \<Rightarrow> (case save_product env (p\<lparr>pe_isActive := False\<rparr>) st of
         (Inl e, st') \<Rightarrow> (Inl e, st')
       | (Inr _, st') \<Rightarrow> (Inr (), cacheDel up [keyOne i] st')))"
  by (auto simp: ProductsService_remove_def find_product_def found_def tx_bind_def modify_def
      split: option.splits prod.splits sum.splits)

lemma update_inv:
  assumes inv: "product_inv ru reliable st" and up: "reliable \<longrightarrow> up" and dto: "UpdateProductDto_valid dto"
  shows "product_inv ru reliable (snd (ProductsService_update env up i dto st))"
proof (cases "find_active i (ps_db st)")
  case (Some p)
  obtain r st' where run: "save_product env (assign_product dto p) st = (r, st')" by force
  with save_inv [OF inv assigned_sound [OF found_sound(1) [OF inv Some] dto] up run] found_sound(2) [OF inv Some] Some
  show ?thesis by (cases r) (auto simp: update_run)
qed (use inv in \<open>simp add: update_run\<close>)

lemma remove_inv:
  assumes inv: "product_inv ru reliable st" and up: "reliable \<longrightarrow> up"
  shows "product_inv ru reliable (snd (ProductsService_remove env up i st))"
proof (cases "find_active i (ps_db st)")
  case (Some p)
  have "sound_product (p\<lparr>pe_isActive := False\<rparr>)" using found_sound(1) [OF inv Some] by (simp add: sound_product_def)
  moreover obtain r st' where run: "save_product env (p\<lparr>pe_isActive := False\<rparr>) st = (r, st')" by force
  ultimately show ?thesis using save_inv [OF inv _ up run] found_sound(2) [OF inv Some] Some by (cases r) (auto simp: remove_run)
qed (use inv in \<open>simp add: remove_run\<close>)

lemma findById_inv:
  assumes "product_inv ru reliable st"
  shows "product_inv ru reliable (snd (ProductsService_findById up i st))"
  using assms
  by (auto simp: ProductsService_findById_def product_inv_def cacheSet_def coherent_def split: option.splits)

subsection \<open>Stock\<close>

text \<open>
  A step that changes stock only, and evicts the products it touched if the cache answers.
\<close>

lemma stock_inv:
  assumes inv: "product_inv ru reliable st" and stock: "stock_ok s'" and same: "map pe_ident (products s') = map pe_ident (products (ps_db st))"
    and sq: "seq (ps_db st) \<le> seq s'" and db: "ps_db st' = s'"
    and cache: "\<And>k. ps_cache st' k = None \<or> ps_cache st' k = ps_cache st k"
    and others: "\<And>i. reliable \<Longrightarrow> ps_cache st' (keyOne i) \<noteq> None \<Longrightarrow> find_active i s' = find_active i (ps_db st)"
  shows "product_inv ru reliable st'"
proof -
  let ?s = "(ps_db st)\<lparr>products := products s'\<rparr>"
  have "same_but_stock (ps_db st) ?s" using same by (simp add: same_but_stock_def)
  then have "prices_ok ?s" using inv prices_ok_cong by (auto simp: product_inv_def)
  then have "prices_ok s'" by (simp add: prices_ok_def)
  moreover have "set (map pe_id (products s')) \<subseteq> ru ` {..<seq s'}"
  proof -
    have "map pe_id (products s') = map pe_id (products (ps_db st))"
      using same by (rule map_coarser) (simp add: pe_ident_def)
    with inv show ?thesis by (intro ids_mono [OF _ sq]) (simp add: product_inv_def)
  qed
  moreover have "coherent st'" if reliable
  proof (rule coherent_change)
    show "coherent st" using inv that by (simp add: product_inv_def)
    show "ps_cache st' k = None \<or> ps_cache st' k = ps_cache st k" for k by (rule cache)
    show "find_active i (ps_db st') = find_active i (ps_db st)" if "ps_cache st' (keyOne i) \<noteq> None" for i
      unfolding db using \<open>reliable\<close> that by (rule others)
  qed
  ultimately show ?thesis using stock by (simp add: product_inv_def db)
qed

lemma reserve_tx_outcome:
  assumes run: "reserve_tx env c s = (Inr (), s')" and ok: "stock_ok s"
  shows "stock_ok s' \<and> map pe_ident (products s') = map pe_ident (products s) \<and> seq s \<le> seq s' \<and>
    (\<forall>i. find_active i s' \<noteq> find_active i s \<longrightarrow>
       IdempotencyService_find (commandId c) s = None \<and> i \<in> ci_productId ` set (rs_items c))"
proof (cases "IdempotencyService_find (commandId c) s")
  case (Some r)
  with repeated_tx run ok show ?thesis
    by (fastforce simp: OutboxService_write_def stock_ok_def find_active_def)
next
  case None
  have seq_reply: "seq (reply_with env c t p v) = Suc (seq v)" for t p v
    by (simp add: reply_with_def OutboxService_write_def)
  have "\<exists>r v t p. reserve_loop env (rs_items c) s = (r, v) \<and> s' = reply_with env c t p v"
    using None run by (cases rule: reserve_tx_fresh) blast+
  then obtain r v t p where v: "reserve_loop env (rs_items c) s = (r, v)" "s' = reply_with env c t p v" by blast
  with None reserve_loop_ok [OF v(1) ok] reserve_loop_same [OF v(1)] reserve_loop_others [OF v(1)] show ?thesis
    by (auto simp: stock_ok_def same_but_stock_def seq_reply)
qed

lemma release_tx_outcome:
  assumes run: "release_tx env c s = (Inr (), s')" and ok: "stock_ok s" and pos: "\<forall>x \<in> set (rl_items c). 0 \<le> ci_quantity x"
  shows "stock_ok s' \<and> map pe_ident (products s') = map pe_ident (products s) \<and> seq s \<le> seq s' \<and>
    (\<forall>i. find_active i s' \<noteq> find_active i s \<longrightarrow>
       IdempotencyService_find (commandId c) s = None \<and> i \<in> ci_productId ` set (rl_items c))"
proof (cases "IdempotencyService_find (commandId c) s")
  case (Some r)
  with repeated_release_tx run ok show ?thesis
    by (fastforce simp: OutboxService_write_def stock_ok_def find_active_def)
next
  case None
  have seq_reply: "seq (reply_with env c t p v) = Suc (seq v)" for t p v
    by (simp add: reply_with_def OutboxService_write_def)
  obtain v where v: "release_loop env (rl_items c) s = (Inr (), v)" "s' = reply_with env c STOCK_RELEASED (released_reply c) v"
    using release_tx_fresh [OF None run] by blast
  with None release_loop_ok [OF v(1) ok pos] release_loop_effect [OF v(1)] release_loop_others [OF v(1)] show ?thesis
    by (auto simp: stock_ok_def same_but_stock_def seq_reply)
qed

text \<open>Both saga handlers and the HTTP reservation have this shape.\<close>

lemma evict_inv:
  assumes inv: "product_inv ru reliable st" and up: "reliable \<longrightarrow> up"
    and cache: "ps_cache st' = ps_cache (if ev then evict_items up items st else st)"
    and out: "ps_db st' = ps_db st \<or> (stock_ok (ps_db st') \<and>
      map pe_ident (products (ps_db st')) = map pe_ident (products (ps_db st)) \<and> seq (ps_db st) \<le> seq (ps_db st') \<and>
      (\<forall>i. find_active i (ps_db st') \<noteq> find_active i (ps_db st) \<longrightarrow> ev \<and> i \<in> ci_productId ` set items))"
  shows "product_inv ru reliable st'"
proof (rule stock_inv [OF inv _ _ _ refl])
  show "ps_cache st' k = None \<or> ps_cache st' k = ps_cache st k" for k
    unfolding cache by (simp add: evict_items_def cacheDel_def)
  show "find_active i (ps_db st') = find_active i (ps_db st)" if reliable "ps_cache st' (keyOne i) \<noteq> None" for i
  proof (rule ccontr)
    assume "find_active i (ps_db st') \<noteq> find_active i (ps_db st)"
    with out have "ev" "i \<in> ci_productId ` set items" by auto
    then have "ps_cache st' (keyOne i) = None" using up that(1) unfolding cache
      by (auto simp: evict_items_def cacheDel_def)
    with that(2) show False by simp
  qed
qed (use out inv in \<open>auto simp: product_inv_def\<close>)

lemma handleReserveStock_inv:
  assumes "product_inv ru reliable st" "reliable \<longrightarrow> up"
  shows "product_inv ru reliable (snd (handleReserveStock fault env up c st))"
proof (rule evict_inv [OF assms, where items = "rs_items c"
      and ev = "IdempotencyService_find (commandId c) (ps_db st) = None"])
  show "ps_cache (snd (handleReserveStock fault env up c st)) = ps_cache
    (if IdempotencyService_find (commandId c) (ps_db st) = None then evict_items up (rs_items c) st else st)"
    by (simp add: handleReserveStock_def Let_def split: prod.splits)
  have "ps_db (snd (handleReserveStock fault env up c st)) = snd (transaction fault (reserve_tx env c) (ps_db st))"
    by (simp add: handleReserveStock_def Let_def split: prod.splits)
  with reserve_tx_outcome [of env c "ps_db st"] assms(1)
  show "ps_db (snd (handleReserveStock fault env up c st)) = ps_db st \<or>
    stock_ok (ps_db (snd (handleReserveStock fault env up c st))) \<and>
    map pe_ident (products (ps_db (snd (handleReserveStock fault env up c st)))) = map pe_ident (products (ps_db st)) \<and>
    seq (ps_db st) \<le> seq (ps_db (snd (handleReserveStock fault env up c st))) \<and>
    (\<forall>i. find_active i (ps_db (snd (handleReserveStock fault env up c st))) \<noteq> find_active i (ps_db st) \<longrightarrow>
      IdempotencyService_find (commandId c) (ps_db st) = None \<and> i \<in> ci_productId ` set (rs_items c))"
    by (cases fault "reserve_tx env c" "ps_db st" rule: transaction_cases) (auto simp: product_inv_def)
qed

lemma handleReleaseStock_inv:
  assumes "product_inv ru reliable st" "reliable \<longrightarrow> up" "\<forall>x \<in> set (rl_items c). 0 \<le> ci_quantity x"
  shows "product_inv ru reliable (snd (handleReleaseStock fault env up c st))"
proof (rule evict_inv [OF assms(1,2), where items = "rl_items c"
      and ev = "IdempotencyService_find (commandId c) (ps_db st) = None"])
  show "ps_cache (snd (handleReleaseStock fault env up c st)) = ps_cache
    (if IdempotencyService_find (commandId c) (ps_db st) = None then evict_items up (rl_items c) st else st)"
    by (simp add: handleReleaseStock_def Let_def split: prod.splits)
  have "ps_db (snd (handleReleaseStock fault env up c st)) = snd (transaction fault (release_tx env c) (ps_db st))"
    by (simp add: handleReleaseStock_def Let_def split: prod.splits)
  with release_tx_outcome [of env c "ps_db st"] assms(1,3)
  show "ps_db (snd (handleReleaseStock fault env up c st)) = ps_db st \<or>
    stock_ok (ps_db (snd (handleReleaseStock fault env up c st))) \<and>
    map pe_ident (products (ps_db (snd (handleReleaseStock fault env up c st)))) = map pe_ident (products (ps_db st)) \<and>
    seq (ps_db st) \<le> seq (ps_db (snd (handleReleaseStock fault env up c st))) \<and>
    (\<forall>i. find_active i (ps_db (snd (handleReleaseStock fault env up c st))) \<noteq> find_active i (ps_db st) \<longrightarrow>
      IdempotencyService_find (commandId c) (ps_db st) = None \<and> i \<in> ci_productId ` set (rl_items c))"
    by (cases fault "release_tx env c" "ps_db st" rule: transaction_cases) (auto simp: product_inv_def)
qed

lemma reserve_own_inv:
  assumes "product_inv ru reliable st" "reliable \<longrightarrow> up"
  shows "product_inv ru reliable (snd (ProductsService_reserveStock_own fault env up items st))"
proof (cases fault "reserve_loop env items" "ps_db st" rule: transaction_cases)
  case (abort e)
  with assms show ?thesis by (simp add: ProductsService_reserveStock_own_def)
next
  case (commit rs s')
  let ?st = "evict_items up items (st\<lparr>ps_db := s'\<rparr>)"
  have db: "ps_db ?st = s'" by (simp add: evict_items_def cacheDel_def)
  have "product_inv ru reliable ?st"
  proof (rule evict_inv [OF assms, where items = items and ev = True])
    show "ps_cache ?st = ps_cache (if True then evict_items up items st else st)"
      by (auto simp: evict_items_def cacheDel_def fun_eq_iff)
    show "ps_db ?st = ps_db st \<or> stock_ok (ps_db ?st) \<and>
        map pe_ident (products (ps_db ?st)) = map pe_ident (products (ps_db st)) \<and> seq (ps_db st) \<le> seq (ps_db ?st) \<and>
        (\<forall>i. find_active i (ps_db ?st) \<noteq> find_active i (ps_db st) \<longrightarrow> True \<and> i \<in> ci_productId ` set items)"
      using assms(1) reserve_loop_ok [OF commit(2)] reserve_loop_same [OF commit(2)] reserve_loop_others [OF commit(2)]
      unfolding db by (auto simp: product_inv_def same_but_stock_def)
  qed
  with commit show ?thesis by (simp add: ProductsService_reserveStock_own_def)
qed

subsection \<open>The machine\<close>

definition positive :: "command_item list \<Rightarrow> bool" where
  "positive items \<longleftrightarrow> list_all (\<lambda>x. 0 < ci_quantity x) items"

inductive product_step :: "(nat \<Rightarrow> string) \<Rightarrow> bool \<Rightarrow> product_service \<Rightarrow> product_service \<Rightarrow> bool" for ru reliable where
  step_find: "(reliable \<longrightarrow> up) \<Longrightarrow> product_step ru reliable st (snd (ProductsController_findById env up i st))"
| step_create: "e_uuid env = ru \<Longrightarrow> CreateProductDto_valid dto \<Longrightarrow>
    product_step ru reliable st (snd (ProductsController_create env dto roles st))"
| step_update: "(reliable \<longrightarrow> up) \<Longrightarrow> UpdateProductDto_valid dto \<Longrightarrow>
    product_step ru reliable st (snd (ProductsController_update env up i dto roles st))"
| step_remove: "(reliable \<longrightarrow> up) \<Longrightarrow> product_step ru reliable st (snd (ProductsController_remove env up i roles st))"
| step_reserve: "(reliable \<longrightarrow> up) \<Longrightarrow> ReserveStockDto_valid is_uuid items \<Longrightarrow>
    product_step ru reliable st (snd (ProductsController_reserveStock fault env up items st))"
| step_reserve_command: "(reliable \<longrightarrow> up) \<Longrightarrow> positive (rs_items c) \<Longrightarrow>
    product_step ru reliable st (snd (handleReserveStock fault env up c st))"
| step_release_command: "(reliable \<longrightarrow> up) \<Longrightarrow> positive (rl_items d) \<Longrightarrow>
    product_step ru reliable st (snd (handleReleaseStock fault env up d st))"
| step_expire: "product_step ru reliable st (st\<lparr>ps_cache := (ps_cache st)(k := None)\<rparr>)"
| step_tick: "product_step ru reliable st (st\<lparr>ps_db := (ps_db st)\<lparr>outbox :=
    fst (snd (abstract_processPending env b db_fault locked p (outbox (ps_db st), bus)))\<rparr>\<rparr>)"

lemma snd_with_http [simp]: "snd (with_http env r m st) = snd (m st)"
  by (simp add: with_http_def split: prod.splits sum.splits)

lemma snd_admin: "snd (tx_bind (lift (requireAdmin roles)) (\<lambda>_. m) st) = (if requireAdmin roles = Inr () then snd (m st) else st)"
  by (cases "requireAdmin roles") (auto simp: tx_bind_def lift_def)

lemma product_step_inv:
  assumes "product_step ru reliable st st'" "uuid_ok ru" "product_inv ru reliable st"
  shows "product_inv ru reliable st'"
  using assms(1)
proof cases
  case step_find
  with assms(3) findById_inv show ?thesis by (simp add: ProductsController_findById_def)
next
  case step_create
  with assms product_create_inv show ?thesis by (simp add: ProductsController_create_def snd_admin)
next
  case step_update
  with assms(3) update_inv show ?thesis by (simp add: ProductsController_update_def snd_admin)
next
  case step_remove
  with assms(3) remove_inv show ?thesis by (simp add: ProductsController_remove_def snd_admin)
next
  case step_reserve
  with assms(3) reserve_own_inv show ?thesis by (simp add: ProductsController_reserveStock_def)
next
  case step_reserve_command
  with assms(3) handleReserveStock_inv show ?thesis by simp
next
  case (step_release_command up d fault env)
  then have "\<forall>x \<in> set (rl_items d). 0 \<le> ci_quantity x" by (auto simp: positive_def list_all_iff)
  with step_release_command assms(3) handleReleaseStock_inv show ?thesis by simp
next
  case step_expire
  with assms(3) show ?thesis by (auto simp: product_inv_def coherent_def)
next
  case step_tick
  with assms(3) show ?thesis
    by (simp add: product_inv_def stock_ok_def prices_ok_def coherent_def find_active_def)
qed

definition no_products :: "product_service \<Rightarrow> bool" where
  "no_products st \<longleftrightarrow> products (ps_db st) = [] \<and> (\<forall>k. ps_cache st k = None)"

interpretation product_machine: transition_system "product_step ru reliable" no_products
  "\<lambda>st. uuid_ok ru \<longrightarrow> product_inv ru reliable st" for ru reliable
  by unfold_locales (simp add: no_products_def product_inv_def stock_ok_def prices_ok_def coherent_def,
      blast intro: product_step_inv)

text \<open>
  While requests do not overlap and the cache answers in every step, what a client reads of a product, cached or
  not, is the row of the active product in the database, or an error if there is none. (What overlapping
  requests see is the subject of \<open>ProductReads\<close>.)
\<close>

lemma sequential_reads:
  assumes "uuid_ok ru" "no_products s" "run (product_step ru True) s t"
  shows "fst (ProductsService_findById up i t) =
      (case find_active i (ps_db t) of None \<Rightarrow> Inl (ProductNotFoundError i) | Some p \<Rightarrow> Inr (product_toResult p))"
proof -
  have "product_inv ru True t" using product_machine.reachable_inv [OF assms(2,3)] assms(1) by simp
  then have "coherent t" by (simp add: product_inv_def)
  then show ?thesis
    by (fastforce simp: ProductsService_findById_def cacheGet_def coherent_def split: option.splits)
qed

definition empty_products :: product_service where
  "empty_products = \<lparr>ps_db = \<lparr>seq = 0, outbox = [], idempotency_keys = [], products = []\<rparr>, ps_cache = (\<lambda>_. None)\<rparr>"

definition sample_create :: create_product_input where
  "sample_create = \<lparr>cp_name = ''Pen'', cp_description = None, cp_price = 2, cp_stock = 5\<rparr>"

definition sample_catalogue :: product_service where
  "sample_catalogue = snd (ProductsController_create sample_env sample_create (Some ''admin'') empty_products)"

end
