(* ===== verification/Payments.thy ===== *)
theory Payments
  imports Idempotency
begin

section \<open>The payment-service\<close>

text \<open>
  \<^verbatim>\<open>services/payment-service/src/payments\<close>: the payment and wallet entities, the
  wallet service, the payment of an order, the saga controller, the consumer that opens a wallet
  for a new user and the HTTP controller of wallets. A balance is read with
  \<^verbatim>\<open>Number(...)\<close>, computed on as a binary64 number and rounded to cents by its
  \<^verbatim>\<open>decimal(12, 2)\<close> column; a payment's amount goes to a \<^verbatim>\<open>decimal(10, 2)\<close>
  column. The row lock of \<^verbatim>\<open>SELECT FOR UPDATE\<close> makes the transactions on one wallet run
  one after the other, which is the order the model runs them in.
\<close>

subsection \<open>Entities and errors\<close>

datatype payment_status = PaymentStatus_PENDING | PaymentStatus_COMPLETED | PaymentStatus_FAILED

record payment_entity =
  pa_id :: string
  pa_orderId :: string
  pa_userId :: string
  pa_amount :: rat
  pa_status :: payment_status
  pa_transactionId :: "string option"
  pa_failureReason :: "string option"
  pa_createdAt :: date
  pa_updatedAt :: date

record user_wallet_entity =
  uw_id :: string
  uw_userId :: string
  uw_balance :: rat
  uw_createdAt :: date
  uw_updatedAt :: date

datatype payment_error =
    PaymentDeclinedError string
  | InsufficientFundsError number number
  | PaymentQueryFailed string

fun payment_error_message :: "env \<Rightarrow> payment_error \<Rightarrow> string" where
  "payment_error_message env (PaymentDeclinedError reason) = reason"
| "payment_error_message env (InsufficientFundsError available required) =
     ''Insufficient funds: available '' @ e_str env available @ '', required '' @ e_str env required"
| "payment_error_message env (PaymentQueryFailed m) = m"

record payment_db = idem_db +
  payments :: "payment_entity list"
  wallets :: "user_wallet_entity list"

subsection \<open>wallet.service.ts\<close>

text \<open>
  \<^verbatim>\<open>repo.save\<close> of a new wallet. The entity it returns carries the number the code put
  there, the row what the column made of it.
\<close>

definition insert_wallet ::
  "env \<Rightarrow> string \<Rightarrow> number \<Rightarrow> (payment_db, payment_error, user_wallet_entity) tx" where
  "insert_wallet env userId balance s =
     (let w = \<lparr>uw_id = e_uuid env (seq s), uw_userId = userId, uw_balance = balance,
                uw_createdAt = e_now env, uw_updatedAt = e_now env\<rparr>
      in if \<not> fits_decimal 12 balance then (Inl (PaymentQueryFailed ''numeric field overflow''), s)
         else (Inr w, s\<lparr>wallets := wallets s @ [w\<lparr>uw_balance := dec2 balance\<rparr>], seq := Suc (seq s)\<rparr>))"

text \<open>\<^verbatim>\<open>repo.save\<close> of a loaded wallet with a new balance: an update by primary key.\<close>

definition save_wallet ::
  "env \<Rightarrow> user_wallet_entity \<Rightarrow> (payment_db, payment_error, user_wallet_entity) tx" where
  "save_wallet env w s =
     (if \<not> fits_decimal 12 (uw_balance w) then (Inl (PaymentQueryFailed ''numeric field overflow''), s)
      else (Inr (w\<lparr>uw_updatedAt := e_now env\<rparr>),
            s\<lparr>wallets := update_where (\<lambda>x. uw_id x = uw_id w)
               (\<lambda>x. x\<lparr>uw_balance := dec2 (uw_balance w), uw_updatedAt := e_now env\<rparr>) (wallets s)\<rparr>))"

definition find_wallet :: "string \<Rightarrow> payment_db \<Rightarrow> user_wallet_entity option" where
  "find_wallet userId s = row_of uw_userId userId (wallets s)"

definition WalletService_findOrCreate ::
  "env \<Rightarrow> string \<Rightarrow> number \<Rightarrow> (payment_db, payment_error, user_wallet_entity) tx" where
  "WalletService_findOrCreate env userId initialBalance s =
     (case find_wallet userId s of
        Some existing \<Rightarrow> (Inr existing, s)
      | None \<Rightarrow> insert_wallet env userId initialBalance s)"

definition WalletService_getBalance ::
  "string \<Rightarrow> (payment_db, payment_error, user_wallet_entity option) tx" where
  "WalletService_getBalance userId s = (Inr (find_wallet userId s), s)"

definition WalletService_deduct ::
  "env \<Rightarrow> string \<Rightarrow> number \<Rightarrow> (payment_db, payment_error, user_wallet_entity) tx" where
  "WalletService_deduct env userId amount s =
     (case find_wallet userId s of
        None \<Rightarrow> (Inl (InsufficientFundsError 0 amount), s)
      | Some wallet \<Rightarrow>
          let available = fl (uw_balance wallet)
          in if available < amount then (Inl (InsufficientFundsError available amount), s)
             else save_wallet env (wallet\<lparr>uw_balance := num_sub available amount\<rparr>) s)"

definition WalletService_topUp ::
  "env \<Rightarrow> string \<Rightarrow> number \<Rightarrow> (payment_db, payment_error, user_wallet_entity) tx" where
  "WalletService_topUp env userId amount s =
     (case find_wallet userId s of
        None \<Rightarrow> insert_wallet env userId amount s
      | Some wallet \<Rightarrow> save_wallet env (wallet\<lparr>uw_balance := num_add (fl (uw_balance wallet)) amount\<rparr>) s)"

subsection \<open>payments.service.ts\<close>

text \<open>The insert of a payment; the table has a unique index on \<^verbatim>\<open>orderId\<close>.\<close>

definition insert_payment ::
  "env \<Rightarrow> string \<Rightarrow> string \<Rightarrow> number \<Rightarrow> (payment_db, payment_error, payment_entity) tx" where
  "insert_payment env order userId amount s =
     (let p = \<lparr>pa_id = e_uuid env (seq s), pa_orderId = order, pa_userId = userId, pa_amount = dec2 amount,
                pa_status = PaymentStatus_PENDING, pa_transactionId = None, pa_failureReason = None,
                pa_createdAt = e_now env, pa_updatedAt = e_now env\<rparr>
      in if row_of pa_orderId order (payments s) \<noteq> None
         then (Inl (PaymentQueryFailed ''duplicate key value violates unique constraint''), s)
         else if \<not> fits_decimal 10 amount then (Inl (PaymentQueryFailed ''numeric field overflow''), s)
         else (Inr p, s\<lparr>payments := payments s @ [p], seq := Suc (seq s)\<rparr>))"

definition complete_payment :: "env \<Rightarrow> string \<Rightarrow> string \<Rightarrow> payment_db \<Rightarrow> payment_db" where
  "complete_payment env i transactionId s =
     s\<lparr>payments := update_where (\<lambda>p. pa_id p = i)
         (\<lambda>p. p\<lparr>pa_status := PaymentStatus_COMPLETED, pa_transactionId := Some transactionId,
            pa_updatedAt := e_now env\<rparr>) (payments s)\<rparr>"

text \<open>\<^verbatim>\<open>`txn-${randomUUID()}`\<close>\<close>

definition new_transactionId :: "env \<Rightarrow> (payment_db, payment_error, string) tx" where
  "new_transactionId env s = (Inr (''txn-'' @ e_uuid env (seq s)), s\<lparr>seq := Suc (seq s)\<rparr>)"

definition PaymentsService_processPayment ::
  "env \<Rightarrow> string \<Rightarrow> string \<Rightarrow> number \<Rightarrow> (payment_db, payment_error, string) tx" where
  "PaymentsService_processPayment env order userId amount =
     tx_bind (insert_payment env order userId amount) (\<lambda>payment.
     tx_bind (WalletService_deduct env userId amount) (\<lambda>_.
     tx_bind (new_transactionId env) (\<lambda>transactionId.
     tx_bind (modify (complete_payment env (pa_id payment) transactionId)) (\<lambda>_.
       ret transactionId))))"

subsection \<open>payments-saga.controller.ts\<close>

definition processed_reply :: "process_payment_command \<Rightarrow> string \<Rightarrow> payload" where
  "processed_reply c transactionId = PaymentProcessed \<lparr>commandId = commandId c, orderId = orderId c,
     correlationId = correlationId c, pd_transactionId = transactionId\<rparr>"

definition failed_reply :: "process_payment_command \<Rightarrow> string \<Rightarrow> payload" where
  "failed_reply c reason = PaymentFailed \<lparr>commandId = commandId c, orderId = orderId c,
     correlationId = correlationId c, pf_reason = reason\<rparr>"

definition payment_tx :: "env \<Rightarrow> process_payment_command \<Rightarrow> (payment_db, payment_error, unit) tx" where
  "payment_tx env c s =
     (case IdempotencyService_find (commandId c) s of
        Some (replyTopic, replyPayload) \<Rightarrow>
          (Inr (), OutboxService_write env (orderId c) replyTopic (orderId c) replyPayload s)
      | None \<Rightarrow>
          try_catch
            (tx_bind (PaymentsService_processPayment env (orderId c) (pp_userId c) (pp_amount c)) (\<lambda>transactionId.
              modify (reply_with env c PAYMENT_PROCESSED (processed_reply c transactionId))))
            (\<lambda>e. case e of
               PaymentQueryFailed _ \<Rightarrow> raise e
             | _ \<Rightarrow> modify (reply_with env c PAYMENT_FAILED (failed_reply c (payment_error_message env e)))) s)"

definition handleProcessPayment ::
  "payment_error option \<Rightarrow> env \<Rightarrow> process_payment_command \<Rightarrow> (payment_db, payment_error, unit) tx" where
  "handleProcessPayment fault env c = transaction fault (payment_tx env c)"

subsection \<open>wallet-events.consumer.ts\<close>

definition handleUserRegistered ::
  "payment_error option \<Rightarrow> env \<Rightarrow> number \<Rightarrow> user_registered_event \<Rightarrow> (payment_db, payment_error, unit) tx" where
  "handleUserRegistered fault env initialBalance e =
     transaction fault (tx_bind (WalletService_findOrCreate env (ur_userId e) initialBalance) (\<lambda>_. ret ()))"

subsection \<open>wallets.controller.ts and wallets.dto.ts\<close>

text \<open>
  \<^verbatim>\<open>IsNumber\<close> and \<^verbatim>\<open>Min(0.01)\<close>: every number of the model is finite. The
  decorators only take effect where a \<^verbatim>\<open>ValidationPipe\<close> is installed. The gateway
  installs one and validates the same DTO before it forwards a top-up; the payment-service's
  \<^verbatim>\<open>main.ts\<close> does not, so its controller takes any number.
\<close>

definition TopUpWalletDto_valid :: "number \<Rightarrow> bool" where
  "TopUpWalletDto_valid amount \<longleftrightarrow> fl (1 / 100) \<le> amount"

definition payment_http :: "env \<Rightarrow> (payment_db, payment_error, 'a) tx \<Rightarrow> (payment_db, http_exception, 'a) tx" where
  "payment_http env m s =
     (case m s of
        (Inl e, s') \<Rightarrow> (Inl (InternalError (payment_error_message env e)), s')
      | (Inr a, s') \<Rightarrow> (Inr a, s'))"

definition WalletsController_getWallet ::
  "payment_error option \<Rightarrow> env \<Rightarrow> string \<Rightarrow> string option \<Rightarrow> string option \<Rightarrow>
    (payment_db, http_exception, string \<times> number) tx" where
  "WalletsController_getWallet fault env userId requesterId rolesHeader =
     (if requesterId \<noteq> Some userId \<and> Role_ADMIN \<notin> set (parseRoles rolesHeader)
      then raise (ForbiddenException ''Access denied'')
      else tx_bind (payment_http env (transaction fault (WalletService_getBalance userId))) (\<lambda>wallet.
        case wallet of
          None \<Rightarrow> raise (NotFoundException ''Wallet not found'')
        | Some w \<Rightarrow> ret (uw_userId w, fl (uw_balance w))))"

definition WalletsController_topUp ::
  "payment_error option \<Rightarrow> env \<Rightarrow> string \<Rightarrow> number \<Rightarrow> string option \<Rightarrow>
    (payment_db, http_exception, string \<times> number) tx" where
  "WalletsController_topUp fault env userId amount rolesHeader =
     (if Role_ADMIN \<notin> set (parseRoles rolesHeader)
      then raise (ForbiddenException ''Admin role required'')
      else tx_bind (payment_http env (transaction fault (WalletService_topUp env userId amount))) (\<lambda>w.
        ret (uw_userId w, fl (uw_balance w))))"

end
