(* ===== verification/PaymentSafety.thy ===== *)
theory PaymentSafety
  imports Payments
begin

section \<open>Money in the payment-service\<close>

text \<open>
  What the payment-service guarantees of the money it keeps: a wallet is never overdrawn, its
  balance is always a whole number of cents, a payment takes exactly the cents of the order's
  total although all arithmetic is in binary64, an order is paid at most once however often
  the command is delivered, a refused payment moves nothing, and only admins add money.
\<close>

subsection \<open>Invariant\<close>

definition balance_of :: "string \<Rightarrow> payment_db \<Rightarrow> rat option" where
  "balance_of u s = map_option uw_balance (find_wallet u s)"

definition sound_balance :: "rat \<Rightarrow> bool" where
  "sound_balance b \<longleftrightarrow> (\<exists>k. b = of_int k / 100 \<and> 0 \<le> k \<and> k < 10 ^ 12)"

definition payment_inv :: "(nat \<Rightarrow> string) \<Rightarrow> payment_db \<Rightarrow> bool" where
  "payment_inv ru s \<longleftrightarrow>
     distinct (map uw_userId (wallets s)) \<and> distinct (map uw_id (wallets s)) \<and>
     distinct (map pa_orderId (payments s)) \<and> distinct (map pa_id (payments s)) \<and>
     set (map uw_id (wallets s)) \<union> set (map pa_id (payments s)) \<subseteq> ru ` {..<seq s} \<and>
     (\<forall>w \<in> set (wallets s). sound_balance (uw_balance w)) \<and>
     (\<forall>p \<in> set (payments s). (pa_status p = PaymentStatus_COMPLETED) = (pa_transactionId p \<noteq> None))"

lemma payment_inv_cong:
  "payment_inv ru s \<Longrightarrow> wallets s' = wallets s \<Longrightarrow> payments s' = payments s \<Longrightarrow> seq s \<le> seq s' \<Longrightarrow> payment_inv ru s'"
  using ids_mono [of _ ru "seq s" "seq s'"] by (simp add: payment_inv_def)

lemma sound_dec2:
  assumes "0 \<le> x" "fits_decimal 12 x"
  shows "sound_balance (dec2 x)"
proof -
  obtain k where k: "dec2 x = of_int k / 100" using dec2_is_cents by blast
  have "0 \<le> dec2 x" using assms(1) by (rule dec2_nonneg)
  with k have "0 \<le> k" by (simp add: zero_le_divide_iff)
  have "(of_int k :: rat) < of_int (10 ^ 12)"
    using assms(2) k \<open>0 \<le> dec2 x\<close> by (simp add: fits_decimal_def)
  then have "k < 10 ^ 12" by (simp only: of_int_less_iff)
  with k \<open>0 \<le> k\<close> show ?thesis by (auto simp: sound_balance_def)
qed

lemma sound_nonneg: "sound_balance b \<Longrightarrow> 0 \<le> b"
  by (auto simp: sound_balance_def)

subsection \<open>Writes to the wallets\<close>

lemma find_wallet_in: "find_wallet u s = Some w \<Longrightarrow> w \<in> set (wallets s) \<and> uw_userId w = u"
  by (auto simp: find_wallet_def dest: row_of_in row_of_key)

lemma save_wallet_Inr:
  "save_wallet env w s = (Inr w', s') \<longleftrightarrow> fits_decimal 12 (uw_balance w) \<and> w' = w\<lparr>uw_updatedAt := e_now env\<rparr> \<and>
     s' = s\<lparr>wallets := update_where (\<lambda>x. uw_id x = uw_id w)
       (\<lambda>x. x\<lparr>uw_balance := dec2 (uw_balance w), uw_updatedAt := e_now env\<rparr>) (wallets s)\<rparr>"
  by (auto simp: save_wallet_def)

text \<open>A new balance for the wallet of one user: only that wallet changes.\<close>

lemma save_wallet_effect:
  assumes inv: "payment_inv ru s" and w: "find_wallet u s = Some w"
    and run: "save_wallet env (w\<lparr>uw_balance := b\<rparr>) s = (Inr w', s')" and pos: "0 \<le> b"
  shows "payment_inv ru s'" "balance_of u s' = Some (dec2 b)" "v \<noteq> u \<Longrightarrow> balance_of v s' = balance_of v s"
    "payments s' = payments s" "seq s' = seq s" "outbox s' = outbox s" "idempotency_keys s' = idempotency_keys s"
proof -
  let ?f = "\<lambda>x. x\<lparr>uw_balance := dec2 b, uw_updatedAt := e_now env\<rparr>"
  have s': "s' = s\<lparr>wallets := update_where (\<lambda>x. uw_id x = uw_id w) ?f (wallets s)\<rparr>" and fits: "fits_decimal 12 b"
    using run by (auto simp: save_wallet_Inr)
  note w_in = find_wallet_in [OF w]
  have "uw_id x = uw_id w \<longleftrightarrow> uw_userId x = u" if "x \<in> set (wallets s)" for x
    using that w_in inv by (auto simp: payment_inv_def distinct_map dest: inj_onD)
  then have "wallets s' = update_where (\<lambda>x. uw_userId x = u) ?f (wallets s)"
    unfolding s' by (auto simp: update_where_def)
  then show "balance_of u s' = Some (dec2 b)" "v \<noteq> u \<Longrightarrow> balance_of v s' = balance_of v s"
    using w by (auto simp: balance_of_def find_wallet_def row_of_update_key)
  show "payment_inv ru s'"
    using inv sound_dec2 [OF pos fits] unfolding s'
    by (auto simp: payment_inv_def map_update_where set_update_where)
qed (use run in \<open>auto simp: save_wallet_Inr\<close>)

lemma insert_wallet_effect:
  assumes inv: "payment_inv ru s" and ru: "uuid_ok ru" "e_uuid env = ru" and none: "find_wallet u s = None"
    and run: "insert_wallet env u b s = (Inr w', s')" and pos: "0 \<le> b"
  shows "payment_inv ru s'" "balance_of u s' = Some (dec2 b)" "v \<noteq> u \<Longrightarrow> balance_of v s' = balance_of v s"
    "payments s' = payments s" "outbox s' = outbox s" "idempotency_keys s' = idempotency_keys s"
proof -
  obtain w where s': "s' = s\<lparr>wallets := wallets s @ [w], seq := Suc (seq s)\<rparr>" and fits: "fits_decimal 12 b"
    and w: "uw_id w = ru (seq s)" "uw_userId w = u" "uw_balance w = dec2 b"
    using run ru(2) by (auto simp: insert_wallet_def Let_def split: if_splits)
  show "balance_of u s' = Some (dec2 b)" "v \<noteq> u \<Longrightarrow> balance_of v s' = balance_of v s"
    using none w unfolding s' by (auto simp: balance_of_def find_wallet_def row_of_snoc)
  have fresh: "ru (seq s) \<notin> set (map uw_id (wallets s))"
    using inv ru(1) by (intro fresh_id [of ru _ "seq s"]) (auto simp: payment_inv_def)
  have "u \<notin> uw_userId ` set (wallets s)" using none by (simp add: find_wallet_def row_of_None)
  then show "payment_inv ru s'"
    using inv fresh w sound_dec2 [OF pos fits] unfolding s'
    by (auto simp: payment_inv_def ids_mono [OF _ le_SucI])
qed (use run in \<open>auto simp: insert_wallet_def Let_def split: if_splits\<close>)

subsection \<open>Exact charges\<close>

lemma cents_le: "(k :: int) < m \<Longrightarrow> (of_int k / 100 :: rat) \<le> of_int m / 100 - 1 / 100"
proof -
  assume "k < m"
  then have "(of_int (k + 1) :: rat) \<le> of_int m" by (simp only: of_int_le_iff)
  then show ?thesis by simp
qed

lemma charge_arith:
  assumes "0 \<le> k" "k < 10 ^ 12" "0 \<le> m" "near_cents m a"
  shows "m < k \<Longrightarrow> a \<le> fl (of_int k / 100)" "k < m \<Longrightarrow> fl (of_int k / 100) < a"
    "m \<le> k \<Longrightarrow> dec2 (num_sub (fl (of_int k / 100)) a) = of_int (k - m) / 100"
proof -
  note fk = fl_cents_close [OF assms(1,2)]
  have a: "\<bar>a - of_int m / 100\<bar> \<le> 1 / 2000" using assms(4) by (simp add: near_cents_def)
  show "a \<le> fl (of_int k / 100)" if "m < k" using fk a cents_le [OF that] by linarith
  show "fl (of_int k / 100) < a" if "k < m" using fk a cents_le [OF that] by linarith
  assume "m \<le> k"
  then have d: "0 \<le> (of_int (k - m) / 100 :: rat)" by simp
  have "(of_int (k - m) :: rat) \<le> of_int (10 ^ 12)" using assms(2,3) by (simp only: of_int_le_iff)
  then have u: "(of_int (k - m) / 100 :: rat) \<le> 20000000000" by simp
  have "\<bar>fl (of_int k / 100) - a - of_int (k - m) / 100\<bar> \<le> 1 / 1000"
    using fk a unfolding of_int_diff diff_divide_distrib by linarith
  then have "\<bar>num_sub (fl (of_int k / 100)) a - of_int (k - m) / 100\<bar> < 1 / 200"
    unfolding num_sub_def using d u by (rule fl_close_cents)
  then show "dec2 (num_sub (fl (of_int k / 100)) a) = of_int (k - m) / 100" by (rule dec2_near_int)
qed

lemma cents_fit: "0 \<le> k \<Longrightarrow> k < 10 ^ 12 \<Longrightarrow> dec2 x = of_int k / 100 \<Longrightarrow> fits_decimal 12 x"
proof -
  assume "0 \<le> k" "k < 10 ^ 12" "dec2 x = of_int k / 100"
  moreover from this have "(of_int k :: rat) < of_int (10 ^ 12)" by (simp only: of_int_less_iff)
  ultimately show ?thesis by (simp add: fits_decimal_def)
qed

text \<open>
  C18. A charge is exact to the cent although every step of it is binary64 arithmetic: an amount
  within a twentieth of a cent of \<open>m\<close> cents lowers a balance of \<open>k\<close> cents to exactly
  \<open>k - m\<close> cents, is refused if \<open>k < m\<close>, and leaves every other wallet alone. On the edge,
  \<open>k = m\<close>, the comparison of the two binary64 numbers decides: a total whose rounding error
  is upward is refused although the wallet holds exactly the amount.
\<close>

theorem deduct_exact:
  assumes "payment_inv ru s" "balance_of u s = Some (of_int k / 100)" "0 \<le> m" "near_cents m amount"
  shows "if m < k \<or> m = k \<and> amount \<le> fl (of_int k / 100)
    then \<exists>w s'. WalletService_deduct env u amount s = (Inr w, s') \<and> payment_inv ru s' \<and>
      balance_of u s' = Some (of_int (k - m) / 100) \<and> (\<forall>v. v \<noteq> u \<longrightarrow> balance_of v s' = balance_of v s)
    else WalletService_deduct env u amount s = (Inl (InsufficientFundsError (fl (of_int k / 100)) amount), s)"
proof -
  obtain w where w: "find_wallet u s = Some w" "uw_balance w = of_int k / 100"
    using assms(2) by (auto simp: balance_of_def)
  have k: "0 \<le> k" "k < 10 ^ 12"
    using find_wallet_in [OF w(1)] assms(1) w(2) by (auto simp: payment_inv_def sound_balance_def)
  note arith = charge_arith [OF k assms(3,4)]
  let ?b = "num_sub (fl (of_int k / 100)) amount"
  have ok: "?thesis" if le: "m \<le> k" "amount \<le> fl (of_int k / 100)"
  proof -
    have "fits_decimal 12 ?b" using arith(3) le k assms(3) by (intro cents_fit [of "k - m"]) auto
    then obtain w' s' where run: "save_wallet env (w\<lparr>uw_balance := ?b\<rparr>) s = (Inr w', s')"
      by (simp add: save_wallet_Inr)
    have pos: "0 \<le> ?b" using le(2) by (simp add: num_sub_def fl_nonneg)
    note eff = save_wallet_effect [OF assms(1) w(1) run pos]
    have "WalletService_deduct env u amount s = (Inr w', s')"
      unfolding WalletService_deduct_def w(1) option.case Let_def w(2) using run le(2) by simp
    with eff(1,2,3) arith(3) [OF le(1)] le show ?thesis by auto
  qed
  consider "m < k" | "k < m" | "m = k" by linarith
  then show ?thesis
  proof cases
    case 1
    with ok arith(1) show ?thesis by simp
  next
    case 2
    with arith(2) show ?thesis unfolding WalletService_deduct_def w(1) option.case Let_def w(2) by simp
  next
    case 3
    with ok show ?thesis unfolding WalletService_deduct_def w(1) option.case Let_def w(2)
      by (cases "amount \<le> fl (of_int k / 100)") simp_all
  qed
qed

definition sample_wallets :: "int \<Rightarrow> payment_db" where
  "sample_wallets k = \<lparr>seq = 1, outbox = [], idempotency_keys = [], payments = [], wallets =
     [\<lparr>uw_id = ''a'', uw_userId = ''u1'', uw_balance = of_int k / 100, uw_createdAt = 0, uw_updatedAt = 0\<rparr>]\<rparr>"

lemma sample_wallets_inv: "0 \<le> k \<Longrightarrow> k < 10 ^ 12 \<Longrightarrow> payment_inv (e_uuid sample_env) (sample_wallets k)"
  by (auto simp: payment_inv_def sample_wallets_def sound_balance_def sample_env_def)

text \<open>Three pens at ten cents: the total in binary64 is a little over thirty cents.\<close>

theorem deduct_exact_witness:
  "WalletService_deduct sample_env ''u1'' (num_mul (fl (1 / 10)) 3) (sample_wallets 30) =
     (Inl (InsufficientFundsError (fl (3 / 10)) (num_mul (fl (1 / 10)) 3)), sample_wallets 30) \<and>
   (\<exists>w s'. WalletService_deduct sample_env ''u1'' (num_mul (fl (1 / 10)) 3) (sample_wallets 100) = (Inr w, s') \<and>
      balance_of ''u1'' s' = Some (7 / 10))"
proof -
  have near: "near_cents 30 (num_mul (fl (1 / 10)) 3)" by code_simp
  have over: "\<not> num_mul (fl (1 / 10)) 3 \<le> fl (of_int 30 / 100)" by code_simp
  have bal: "balance_of ''u1'' (sample_wallets k) = Some (of_int k / 100)" for k
    by (simp add: balance_of_def find_wallet_def sample_wallets_def tab_simps)
  show ?thesis
    using deduct_exact [OF sample_wallets_inv bal _ near, of 30 sample_env] over
      deduct_exact [OF sample_wallets_inv bal _ near, of 100 sample_env] by auto
qed

subsection \<open>The payment of an order\<close>

definition payment_row :: "env \<Rightarrow> nat \<Rightarrow> string \<Rightarrow> string \<Rightarrow> number \<Rightarrow> payment_status \<Rightarrow> string option \<Rightarrow> payment_entity" where
  "payment_row env n order u a st t =
     \<lparr>pa_id = e_uuid env n, pa_orderId = order, pa_userId = u, pa_amount = dec2 a, pa_status = st,
      pa_transactionId = t, pa_failureReason = None, pa_createdAt = e_now env, pa_updatedAt = e_now env\<rparr>"

lemma processPayment_insert:
  assumes "PaymentsService_processPayment env order u a s = (r, s')" "\<And>m. r \<noteq> Inl (PaymentQueryFailed m)"
  shows "row_of pa_orderId order (payments s) = None" "fits_decimal 10 a"
    "insert_payment env order u a s = (Inr (payment_row env (seq s) order u a PaymentStatus_PENDING None),
       s\<lparr>payments := payments s @ [payment_row env (seq s) order u a PaymentStatus_PENDING None], seq := Suc (seq s)\<rparr>)"
  using assms by (auto simp: PaymentsService_processPayment_def tx_bind_def insert_payment_def payment_row_def Let_def
      split: if_splits)

text \<open>The two ways in which the payment of an order ends without a database error.\<close>

lemma processPayment_paid:
  assumes inv: "payment_inv ru s" and ru: "uuid_ok ru" "e_uuid env = ru"
    and run: "PaymentsService_processPayment env order u a s = (Inr t, s')"
  obtains w w' v where "row_of pa_orderId order (payments s) = None" "fits_decimal 10 a"
    "find_wallet u s = Some w" "a \<le> fl (uw_balance w)" "t = ''txn-'' @ ru (Suc (seq s))"
    "save_wallet env (w\<lparr>uw_balance := num_sub (fl (uw_balance w)) a\<rparr>) s = (Inr w', v)"
    "s' = v\<lparr>payments := payments s @ [payment_row env (seq s) order u a PaymentStatus_COMPLETED (Some t)],
       seq := seq s + 2\<rparr>"
proof -
  let ?p = "payment_row env (seq s) order u a PaymentStatus_PENDING None"
  let ?s1 = "s\<lparr>payments := payments s @ [?p], seq := Suc (seq s)\<rparr>"
  note none = processPayment_insert(1,2) [OF run] and insert = processPayment_insert(3) [OF run]
  obtain w2 s2 where ded: "WalletService_deduct env u a ?s1 = (Inr w2, s2)"
    and t: "t = ''txn-'' @ ru (seq s2)"
    and s': "s' = complete_payment env (pa_id ?p) t (s2\<lparr>seq := Suc (seq s2)\<rparr>)"
    using run insert [simplified] ru(2)
    by (auto simp: PaymentsService_processPayment_def tx_simps new_transactionId_def)
  have fw: "find_wallet u ?s1 = find_wallet u s" by (simp add: find_wallet_def)
  obtain w where w: "find_wallet u s = Some w" "a \<le> fl (uw_balance w)"
    and save: "save_wallet env (w\<lparr>uw_balance := num_sub (fl (uw_balance w)) a\<rparr>) ?s1 = (Inr w2, s2)"
    using ded unfolding WalletService_deduct_def fw
    by (auto simp: Let_def split: option.splits if_splits)
  let ?b = "w\<lparr>uw_balance := num_sub (fl (uw_balance w)) a\<rparr>"
  let ?v = "s\<lparr>wallets := update_where (\<lambda>x. uw_id x = uw_id w)
       (\<lambda>x. x\<lparr>uw_balance := dec2 (uw_balance ?b), uw_updatedAt := e_now env\<rparr>) (wallets s)\<rparr>"
  have s2: "s2 = ?v\<lparr>payments := payments ?s1, seq := Suc (seq s)\<rparr>" and v: "save_wallet env ?b s = (Inr w2, ?v)"
    using save by (auto simp: save_wallet_Inr)
  have "ru (seq s) \<notin> set (map pa_id (payments s))"
    using inv ru(1) by (intro fresh_id [of ru _ "seq s"]) (auto simp: payment_inv_def)
  then have idle: "update_where (\<lambda>p. pa_id p = ru (seq s)) f (payments s) = payments s" for f
    by (intro update_where_idle) (auto simp: image_iff)
  have "s' = ?v\<lparr>payments := payments s @ [payment_row env (seq s) order u a PaymentStatus_COMPLETED (Some t)],
      seq := seq s + 2\<rparr>"
    unfolding s' s2 by (simp add: complete_payment_def idle payment_row_def ru(2))
  with none w v t s2 that show ?thesis by auto
qed

lemma processPayment_refused:
  assumes run: "PaymentsService_processPayment env order u a s = (Inl e, s')" and e: "\<And>m. e \<noteq> PaymentQueryFailed m"
  shows "row_of pa_orderId order (payments s) = None \<and> (\<exists>available. e = InsufficientFundsError available a) \<and>
    s' = s\<lparr>payments := payments s @ [payment_row env (seq s) order u a PaymentStatus_PENDING None], seq := Suc (seq s)\<rparr>"
proof -
  let ?p = "payment_row env (seq s) order u a PaymentStatus_PENDING None"
  let ?s1 = "s\<lparr>payments := payments s @ [?p], seq := Suc (seq s)\<rparr>"
  note none = processPayment_insert(1,2) [OF run] and insert = processPayment_insert(3) [OF run]
  have "WalletService_deduct env u a ?s1 = (Inl e, s')"
    using run insert e by (auto simp: PaymentsService_processPayment_def tx_bind_def modify_def ret_def
        new_transactionId_def split: prod.splits sum.splits)
  with e have "s' = ?s1 \<and> (\<exists>available. e = InsufficientFundsError available a)"
    by (auto simp: WalletService_deduct_def save_wallet_def Let_def split: option.splits if_splits)
  with none e show ?thesis by simp
qed

lemma payment_tx_fresh:
  assumes fresh: "IdempotencyService_find (commandId c) s = None" and run: "payment_tx env c s = (Inr (), s')"
  obtains (paid) t v where "PaymentsService_processPayment env (orderId c) (pp_userId c) (pp_amount c) s = (Inr t, v)"
    "s' = reply_with env c PAYMENT_PROCESSED (processed_reply c t) v"
  | (refused) e v where "PaymentsService_processPayment env (orderId c) (pp_userId c) (pp_amount c) s = (Inl e, v)"
    "\<And>m. e \<noteq> PaymentQueryFailed m"
    "s' = reply_with env c PAYMENT_FAILED (failed_reply c (payment_error_message env e)) v"
proof (cases "PaymentsService_processPayment env (orderId c) (pp_userId c) (pp_amount c) s")
  case (Pair r v)
  show ?thesis
  proof (cases r)
    case (Inl e)
    then show ?thesis using Pair fresh run refused
      by (cases e) (auto simp: payment_tx_def try_catch_def tx_bind_def raise_def modify_def)
  next
    case (Inr t)
    then show ?thesis using Pair fresh run paid
      by (auto simp: payment_tx_def try_catch_def tx_bind_def modify_def)
  qed
qed

lemma reply_frame [simp]:
  "payments (reply_with env c t p s) = payments s" "wallets (reply_with env c t p s) = wallets s"
  "seq (reply_with env c t p s) = Suc (seq s)"
  by (simp_all add: reply_with_def OutboxService_write_def IdempotencyService_save_def)

lemma balance_of_cong: "wallets s' = wallets s \<Longrightarrow> balance_of u s' = balance_of u s"
  by (simp add: balance_of_def find_wallet_def)

lemma payment_inv_add:
  assumes "payment_inv ru s" "uuid_ok ru" "e_uuid env = ru" "row_of pa_orderId order (payments s) = None"
    and "(st = PaymentStatus_COMPLETED) = (t \<noteq> None)" "seq s < n"
  shows "payment_inv ru (s\<lparr>payments := payments s @ [payment_row env (seq s) order u a st t], seq := n\<rparr>)"
proof -
  have "ru (seq s) \<notin> set (map pa_id (payments s))"
    using assms(1,2) by (intro fresh_id [of ru _ "seq s"]) (auto simp: payment_inv_def)
  moreover have "order \<notin> pa_orderId ` set (payments s)" using assms(4) by (simp add: row_of_None)
  ultimately show ?thesis
    using assms(1,3,5,6) ids_mono [of _ ru "seq s" n] by (auto simp: payment_inv_def payment_row_def)
qed

text \<open>What a processed payment does to wallets and payments, and what a refused one leaves.\<close>

lemma payment_paid_effect:
  assumes inv: "payment_inv ru s" "uuid_ok ru" "e_uuid env = ru"
    and run: "PaymentsService_processPayment env order u a s = (Inr t, s')"
  shows "payment_inv ru s'"
    "payments s' = payments s @ [payment_row env (seq s) order u a PaymentStatus_COMPLETED (Some t)]"
    "\<exists>b. balance_of u s = Some b \<and> a \<le> fl b \<and> balance_of u s' = Some (dec2 (num_sub (fl b) a))"
    "v \<noteq> u \<Longrightarrow> balance_of v s' = balance_of v s"
    "outbox s' = outbox s" "idempotency_keys s' = idempotency_keys s" "seq s' = seq s + 2"
proof -
  obtain w w' x where none: "row_of pa_orderId order (payments s) = None" and w: "find_wallet u s = Some w"
    "a \<le> fl (uw_balance w)" and x: "save_wallet env (w\<lparr>uw_balance := num_sub (fl (uw_balance w)) a\<rparr>) s = (Inr w', x)"
    and s': "s' = x\<lparr>payments := payments s @ [payment_row env (seq s) order u a PaymentStatus_COMPLETED (Some t)],
       seq := seq s + 2\<rparr>"
    using processPayment_paid [OF inv run] by metis
  have pos: "0 \<le> num_sub (fl (uw_balance w)) a" using w(2) by (simp add: num_sub_def fl_nonneg)
  note eff = save_wallet_effect [OF inv(1) w(1) x pos]
  show "payment_inv ru s'"
    using payment_inv_add [OF eff(1) inv(2,3), of order PaymentStatus_COMPLETED "Some t" "seq s + 2" u a] none
    unfolding s' by (simp add: eff(4,5))
  show "\<exists>b. balance_of u s = Some b \<and> a \<le> fl b \<and> balance_of u s' = Some (dec2 (num_sub (fl b) a))"
    using w eff(2) by (simp add: balance_of_def find_wallet_def s')
  show "v \<noteq> u \<Longrightarrow> balance_of v s' = balance_of v s"
    using eff(3) [of v] by (simp add: balance_of_def find_wallet_def s')
  show "payments s' = payments s @ [payment_row env (seq s) order u a PaymentStatus_COMPLETED (Some t)]"
    "outbox s' = outbox s" "idempotency_keys s' = idempotency_keys s" "seq s' = seq s + 2"
    by (simp_all add: s' eff(6,7))
qed

text \<open>
  The outcomes of a delivery, as far as wallets and payments are concerned: nothing (a
  redelivery, or a transaction that was rolled back), a payment, or a refusal.
\<close>

lemma payment_command_cases:
  obtains (idle) "wallets (snd (handleProcessPayment fault env c s)) = wallets s"
    "payments (snd (handleProcessPayment fault env c s)) = payments s"
    "seq s \<le> seq (snd (handleProcessPayment fault env c s))"
  | (paid) t v where "PaymentsService_processPayment env (orderId c) (pp_userId c) (pp_amount c) s = (Inr t, v)"
    "wallets (snd (handleProcessPayment fault env c s)) = wallets v"
    "payments (snd (handleProcessPayment fault env c s)) = payments v"
    "seq v \<le> seq (snd (handleProcessPayment fault env c s))"
  | (refused) e v where "PaymentsService_processPayment env (orderId c) (pp_userId c) (pp_amount c) s = (Inl e, v)"
    "\<And>m. e \<noteq> PaymentQueryFailed m"
    "wallets (snd (handleProcessPayment fault env c s)) = wallets v"
    "payments (snd (handleProcessPayment fault env c s)) = payments v"
    "seq v \<le> seq (snd (handleProcessPayment fault env c s))"
proof (cases fault "payment_tx env c" s rule: transaction_cases)
  case (abort e)
  then show ?thesis using idle by (simp add: handleProcessPayment_def)
next
  case (commit r s')
  then have run: "payment_tx env c s = (Inr (), s')" and s': "snd (handleProcessPayment fault env c s) = s'"
    by (simp_all add: handleProcessPayment_def)
  show ?thesis
  proof (cases "IdempotencyService_find (commandId c) s")
    case (Some reply)
    then have "s' = OutboxService_write env (orderId c) (fst reply) (orderId c) (snd reply) s"
      using run by (cases reply) (simp add: payment_tx_def)
    then show ?thesis using idle s' by (simp add: OutboxService_write_def)
  next
    case None
    from None run show ?thesis
    proof (cases rule: payment_tx_fresh)
      case (paid t v)
      then show ?thesis using that(2) s' by simp
    next
      case (refused e v)
      then show ?thesis using that(3) s' by simp
    qed
  qed
qed

lemma payment_command_inv:
  assumes "payment_inv ru s" "uuid_ok ru" "e_uuid env = ru"
  shows "payment_inv ru (snd (handleProcessPayment fault env c s))"
proof (cases fault env c s rule: payment_command_cases)
  case idle
  with assms(1) payment_inv_cong show ?thesis by blast
next
  case (paid t v)
  with payment_paid_effect(1) [OF assms paid(1)] payment_inv_cong show ?thesis by blast
next
  case (refused e v)
  have "payment_inv ru v"
    using processPayment_refused [OF refused(1,2)] payment_inv_add [OF assms] by auto
  with refused payment_inv_cong show ?thesis by blast
qed

subsection \<open>Conservation\<close>

text \<open>
  What a user owns: the balance of the wallet and what the completed payments took from it.
\<close>

definition paid :: "string \<Rightarrow> payment_db \<Rightarrow> rat" where
  "paid u s = sum_list (map pa_amount
     (filter (\<lambda>p. pa_userId p = u \<and> pa_status p = PaymentStatus_COMPLETED) (payments s)))"

definition funds :: "string \<Rightarrow> payment_db \<Rightarrow> rat" where
  "funds u s = (case balance_of u s of None \<Rightarrow> 0 | Some b \<Rightarrow> b) + paid u s"

lemma funds_cong: "wallets s' = wallets s \<Longrightarrow> payments s' = payments s \<Longrightarrow> funds u s' = funds u s"
  by (simp add: funds_def paid_def balance_of_def find_wallet_def)

lemma sound_cents: "payment_inv ru s \<Longrightarrow> balance_of u s = Some b \<Longrightarrow> \<exists>k. b = of_int k / 100 \<and> 0 \<le> k \<and> k < 10 ^ 12"
  by (auto simp: balance_of_def payment_inv_def sound_balance_def dest!: find_wallet_in)

lemma processPayment_charge:
  assumes inv: "payment_inv ru s" "uuid_ok ru" "e_uuid env = ru" and m: "0 \<le> m" "near_cents m a"
    and run: "PaymentsService_processPayment env order u a s = (Inr t, s')"
  obtains k where "balance_of u s = Some (of_int k / 100)" "m \<le> k" "balance_of u s' = Some (of_int (k - m) / 100)"
proof -
  note eff = payment_paid_effect [OF inv run]
  obtain b where b: "balance_of u s = Some b" "a \<le> fl b" "balance_of u s' = Some (dec2 (num_sub (fl b) a))"
    using eff(3) by blast
  obtain k where k: "b = of_int k / 100" "0 \<le> k" "k < 10 ^ 12" using sound_cents [OF inv(1) b(1)] by blast
  note arith = charge_arith [OF k(2,3) m]
  have "m \<le> k" using arith(2) b(2) k(1) by (meson not_le)
  then show ?thesis using arith(3) b k(1) that by metis
qed

lemma processPayment_funds:
  assumes inv: "payment_inv ru s" "uuid_ok ru" "e_uuid env = ru" and m: "0 \<le> m" "near_cents m a"
    and run: "PaymentsService_processPayment env order u a s = (Inr t, s')"
  shows "funds v s' = funds v s"
proof -
  note eff = payment_paid_effect [OF inv run]
  have paid: "paid v s' = paid v s + (if v = u then of_int m / 100 else 0)"
    by (simp add: paid_def eff(2) payment_row_def near_cents_dec2 [OF m(2)])
  show ?thesis
  proof (cases "v = u")
    case True
    obtain k where "balance_of u s = Some (of_int k / 100)" "balance_of u s' = Some (of_int (k - m) / 100)"
      using processPayment_charge [OF inv m run] by blast
    then show ?thesis using True paid by (simp add: funds_def diff_divide_distrib)
  next
    case False
    with eff(4) [OF False] paid show ?thesis by (simp add: funds_def)
  qed
qed

text \<open>
  C16. Conservation of money: whatever becomes of a process-payment command (a payment, a
  refusal, a redelivery, a rolled-back transaction), every user owns afterwards, in wallet and
  completed payments together, exactly what the user owned before, and the invariant holds.
\<close>

theorem payment_conserves_funds:
  assumes "payment_inv ru s" "uuid_ok ru" "e_uuid env = ru" "0 \<le> m" "near_cents m (pp_amount c)"
  shows "payment_inv ru (snd (handleProcessPayment fault env c s)) \<and>
    funds u (snd (handleProcessPayment fault env c s)) = funds u s"
proof (cases fault env c s rule: payment_command_cases)
  case idle
  then show ?thesis using payment_command_inv [OF assms(1-3)] funds_cong by blast
next
  case (paid t v)
  with payment_command_inv [OF assms(1-3)] processPayment_funds [OF assms paid(1)] show ?thesis
    by (metis funds_cong)
next
  case (refused e v)
  have "funds u v = funds u s"
    using processPayment_refused [OF refused(1,2)]
    by (auto simp: funds_def paid_def payment_row_def balance_of_def find_wallet_def)
  with refused payment_command_inv [OF assms(1-3)] show ?thesis by (metis funds_cong)
qed

definition sample_payment :: "number \<Rightarrow> process_payment_command" where
  "sample_payment a = \<lparr>commandId = ''s1-pay'', orderId = ''o1'', correlationId = ''c1'',
     pp_userId = ''u1'', pp_amount = a\<rparr>"

theorem payment_conserves_funds_witness:
  "funds ''u1'' (snd (handleProcessPayment None sample_env (sample_payment (fl (1999 / 100))) (sample_wallets 5000))) = 50 \<and>
   paid ''u1'' (snd (handleProcessPayment None sample_env (sample_payment (fl (1999 / 100))) (sample_wallets 5000))) = 1999 / 100"
proof -
  have "near_cents 1999 (pp_amount (sample_payment (fl (1999 / 100))))" by code_simp
  then have "funds ''u1'' (snd (handleProcessPayment None sample_env (sample_payment (fl (1999 / 100))) (sample_wallets 5000))) =
      funds ''u1'' (sample_wallets 5000)"
    using payment_conserves_funds [OF sample_wallets_inv [of 5000] sample_uuid_ok refl, of 1999
        "sample_payment (fl (1999 / 100))" None "''u1''"] by simp
  moreover have "funds ''u1'' (sample_wallets 5000) = 50" by code_simp
  moreover have "paid ''u1'' (snd (handleProcessPayment None sample_env (sample_payment (fl (1999 / 100)))
      (sample_wallets 5000))) = 1999 / 100" by code_simp
  ultimately show ?thesis by simp
qed

subsection \<open>Redelivered payments\<close>

type_synonym payments_context = "payment_error option \<times> env"

definition PaymentsSagaController_handler ::
  "payments_context \<Rightarrow> process_payment_command \<Rightarrow> (payment_db, payment_error, unit) tx" where
  "PaymentsSagaController_handler x c = handleProcessPayment (fst x) (snd x) c"

lemma processPayment_frame:
  assumes "PaymentsService_processPayment env order u a s = (r, s')" "\<And>m. r \<noteq> Inl (PaymentQueryFailed m)"
  shows "outbox s' = outbox s \<and> idempotency_keys s' = idempotency_keys s"
  using assms
  by (auto simp: PaymentsService_processPayment_def tx_bind_def insert_payment_def WalletService_deduct_def
      save_wallet_def new_transactionId_def modify_def complete_payment_def ret_def Let_def
      split: if_splits option.splits prod.splits sum.splits)

lemma payment_answered:
  assumes "IdempotencyService_find (commandId c) s = None" "payment_tx env c s = (Inr (), s')"
  shows "answered (commandId c) s s'"
  using assms
proof (cases rule: payment_tx_fresh)
  case (paid t v)
  then show ?thesis using processPayment_frame [OF paid(1)] by (auto intro!: reply_with_answered)
next
  case (refused e v)
  then show ?thesis using processPayment_frame [OF refused(1)] by (auto intro!: reply_with_answered)
qed

interpretation payments_saga: idempotent_consumer PaymentsSagaController_handler commandId
  IdempotencyService_find written_replies "\<lambda>s. (payments s, wallets s)"
proof unfold_locales
  fix x c s e s' k
  assume "PaymentsSagaController_handler x c s = (Inl e, s')"
  then have "s' = s"
    using transaction_Inl [of "fst x" "payment_tx (snd x) c" s e]
    by (simp add: PaymentsSagaController_handler_def handleProcessPayment_def)
  then show "(payments s', wallets s') = (payments s, wallets s) \<and> written_replies s' = written_replies s \<and>
    IdempotencyService_find k s' = IdempotencyService_find k s" by simp
next
  fix x c s s' r k
  assume "PaymentsSagaController_handler x c s = (Inr (), s')" "IdempotencyService_find (commandId c) s = Some r"
  then have "s' = OutboxService_write (snd x) (orderId c) (fst r) (orderId c) (snd r) s"
    by (cases r) (simp add: PaymentsSagaController_handler_def handleProcessPayment_def transaction_Inr payment_tx_def)
  then show "(payments s', wallets s') = (payments s, wallets s) \<and> written_replies s' = written_replies s @ [r] \<and>
    IdempotencyService_find k s' = IdempotencyService_find k s"
    by (simp add: OutboxService_write_def written_replies_def new_outbox_row_def IdempotencyService_find_def)
next
  fix x c s s'
  assume "PaymentsSagaController_handler x c s = (Inr (), s')" "IdempotencyService_find (commandId c) s = None"
  then have "answered (commandId c) s s'"
    by (intro payment_answered [where env = "snd x"])
      (simp_all add: PaymentsSagaController_handler_def handleProcessPayment_def transaction_Inr)
  then show "\<exists>r. IdempotencyService_find (commandId c) s' = Some r \<and> written_replies s' = written_replies s @ [r] \<and>
    (\<forall>k. k \<noteq> commandId c \<longrightarrow> IdempotencyService_find k s' = IdempotencyService_find k s)"
    by (simp add: answered_def)
qed

text \<open>
  C17. However often and in whatever order process-payment commands are delivered, and whichever
  deliveries roll back: no command touches wallets or payments twice; and each delivery that succeeds,
  the first of its command or a later one, writes exactly one reply, the one that is stored for the command, so that a
  redelivery repeats the reply of the first delivery.
\<close>

theorem payment_commands_once:
  "distinct (effective PaymentsSagaController_handler commandId (\<lambda>s. (payments s, wallets s)) ds s) \<and>
   (\<exists>rs. written_replies (deliveries PaymentsSagaController_handler ds s) = written_replies s @ rs \<and>
      map Some rs = map (\<lambda>c. IdempotencyService_find (commandId c) (deliveries PaymentsSagaController_handler ds s))
        (succeeded PaymentsSagaController_handler ds s))"
  using payments_saga.effective_distinct payments_saga.replies_of_deliveries by blast

subsection \<open>The reachable states\<close>

text \<open>
  The steps of the service: a delivered command, a delivered registration, a top-up that passed
  the gateway's validation, a tick of the outbox processor. The amounts of commands are
  arbitrary; the configured initial balance is not negative.
\<close>

inductive payment_step :: "(nat \<Rightarrow> string) \<Rightarrow> payment_db \<Rightarrow> payment_db \<Rightarrow> bool" for ru where
  step_pay: "e_uuid env = ru \<Longrightarrow> payment_step ru s (snd (handleProcessPayment fault env c s))"
| step_register: "e_uuid env = ru \<Longrightarrow> 0 \<le> initialBalance \<Longrightarrow>
    payment_step ru s (snd (handleUserRegistered fault env initialBalance e s))"
| step_topUp: "e_uuid env = ru \<Longrightarrow> TopUpWalletDto_valid amount \<Longrightarrow>
    payment_step ru s (snd (WalletsController_topUp fault env userId amount roles s))"
| step_tick: "payment_step ru s (s\<lparr>outbox := fst (snd (abstract_processPending env b db_fault locked p (outbox s, bus)))\<rparr>)"

definition no_payments :: "payment_db \<Rightarrow> bool" where
  "no_payments s \<longleftrightarrow> payments s = [] \<and> wallets s = []"

lemma payment_inv_tick: "payment_inv ru s \<Longrightarrow> payment_inv ru (s\<lparr>outbox := ob\<rparr>)"
  by (rule payment_inv_cong [of ru s]) simp_all

lemma findOrCreate_inv:
  assumes "payment_inv ru s" "uuid_ok ru" "e_uuid env = ru" "0 \<le> b"
    and "WalletService_findOrCreate env u b s = (Inr w, s')"
  shows "payment_inv ru s'"
  using assms insert_wallet_effect(1) [OF assms(1-3)]
  by (auto simp: WalletService_findOrCreate_def split: option.splits)

lemma topUp_inv:
  assumes "payment_inv ru s" "uuid_ok ru" "e_uuid env = ru" "0 \<le> a"
    and "WalletService_topUp env u a s = (Inr w, s')"
  shows "payment_inv ru s'"
proof (cases "find_wallet u s")
  case None
  with assms insert_wallet_effect(1) [OF assms(1-3) None] show ?thesis
    by (simp add: WalletService_topUp_def)
next
  case (Some w)
  then have "0 \<le> uw_balance w"
    using assms(1) find_wallet_in [OF Some] by (auto simp: payment_inv_def intro: sound_nonneg)
  then have "0 \<le> num_add (fl (uw_balance w)) a" using assms(4) by (simp add: num_add_def fl_nonneg)
  with Some assms save_wallet_effect(1) [OF assms(1) Some] show ?thesis
    by (simp add: WalletService_topUp_def)
qed

lemma valid_pos: "TopUpWalletDto_valid a \<Longrightarrow> 0 \<le> a"
  using fl_nonneg [of "1 / 100"] by (simp add: TopUpWalletDto_valid_def)

lemma payment_step_inv:
  assumes "payment_step ru s t" "uuid_ok ru" "payment_inv ru s"
  shows "payment_inv ru t"
  using assms(1)
proof cases
  case (step_pay env fault c)
  then show ?thesis using assms payment_command_inv by blast
next
  case (step_register env b fault e)
  show ?thesis unfolding step_register(1) handleUserRegistered_def
    by (rule transaction_keeps) (use assms step_register findOrCreate_inv in \<open>auto simp: tx_simps\<close>)
next
  case (step_topUp env amount fault u roles)
  have "payment_inv ru (snd (transaction fault (WalletService_topUp env u amount) s))"
    using assms(3) topUp_inv [OF assms(3,2) step_topUp(2) valid_pos [OF step_topUp(3)]] by (rule transaction_keeps)
  then show ?thesis using assms(3) unfolding step_topUp(1) WalletsController_topUp_def
    by (auto simp: raise_def tx_bind_def payment_http_def ret_def split: prod.splits sum.splits)
next
  case step_tick
  then show ?thesis using assms(3) by (simp add: payment_inv_tick)
qed

interpretation payment_machine: transition_system "payment_step ru" no_payments "\<lambda>s. uuid_ok ru \<longrightarrow> payment_inv ru s" for ru
  by unfold_locales (simp add: no_payments_def payment_inv_def, blast intro: payment_step_inv)

text \<open>
  C19. In every state the payment-service reaches from empty tables: each user has at most one
  wallet, no balance is negative and each is a whole number of cents below ten billion; an
  order has at most one payment row, whichever commands asked for it; a payment is completed
  exactly if it has a transaction id.
\<close>

theorem wallets_sound:
  assumes "uuid_ok ru" "no_payments s" "run (payment_step ru) s t"
  shows "distinct (map uw_userId (wallets t)) \<and> distinct (map pa_orderId (payments t)) \<and>
    (\<forall>w \<in> set (wallets t). \<exists>k. uw_balance w = of_int k / 100 \<and> 0 \<le> k \<and> k < 10 ^ 12) \<and>
    (\<forall>p \<in> set (payments t). (pa_status p = PaymentStatus_COMPLETED) = (pa_transactionId p \<noteq> None))"
  using payment_machine.reachable_inv [OF assms(2,3)] assms(1)
  by (auto simp: payment_inv_def sound_balance_def)

definition empty_payments :: payment_db where
  "empty_payments = \<lparr>seq = 0, outbox = [], idempotency_keys = [], payments = [], wallets = []\<rparr>"

definition sample_opened :: payment_db where
  "sample_opened = snd (handleUserRegistered None sample_env 10000 \<lparr>ur_userId = ''u1'', ur_email = ''u@x''\<rparr> empty_payments)"

theorem wallets_sound_witness:
  "map uw_balance (wallets (snd (handleProcessPayment None sample_env (sample_payment (fl (1999 / 100))) sample_opened))) = [998001 / 100] \<and>
   distinct (map uw_userId (wallets (snd (handleProcessPayment None sample_env (sample_payment (fl (1999 / 100))) sample_opened))))"
proof -
  let ?c = "sample_payment (fl (1999 / 100))"
  have "payment_step (e_uuid sample_env) empty_payments sample_opened"
    unfolding sample_opened_def by (rule step_register) simp_all
  moreover have "payment_step (e_uuid sample_env) sample_opened (snd (handleProcessPayment None sample_env ?c sample_opened))"
    by (rule step_pay) simp
  ultimately have "run (payment_step (e_uuid sample_env)) empty_payments (snd (handleProcessPayment None sample_env ?c sample_opened))"
    by (blast intro: run.intros)
  moreover have "no_payments empty_payments" by (simp add: no_payments_def empty_payments_def)
  moreover have "map uw_balance (wallets (snd (handleProcessPayment None sample_env ?c sample_opened))) = [998001 / 100]"
    by code_simp
  ultimately show ?thesis using wallets_sound [OF sample_uuid_ok] by simp
qed

subsection \<open>Refusals, registrations, access\<close>

text \<open>
  C26. A payment that is refused, for want of a wallet or of funds, moves no money: every wallet
  is what it was. What remains is the stored reply, and a payment row that stays pending for
  ever and blocks the order: no later command can pay it.
\<close>

theorem refused_payment:
  assumes "IdempotencyService_find (commandId c) s = None"
    and "row_of pa_orderId (orderId c) (payments s) = None" "fits_decimal 10 (pp_amount c)"
    and "case find_wallet (pp_userId c) s of None \<Rightarrow> True | Some w \<Rightarrow> fl (uw_balance w) < pp_amount c"
  shows "\<exists>s' reason. handleProcessPayment None env c s = (Inr (), s') \<and> wallets s' = wallets s \<and>
    written_replies s' = written_replies s @ [(KAFKA_TOPICS PAYMENT_FAILED, failed_reply c reason)] \<and>
    map_option pa_status (row_of pa_orderId (orderId c) (payments s')) = Some PaymentStatus_PENDING \<and>
    (\<forall>env' d. orderId d = orderId c \<longrightarrow> payments (snd (handleProcessPayment None env' d s')) = payments s')"
proof -
  let ?v = "s\<lparr>payments := payments s @ [payment_row env (seq s) (orderId c) (pp_userId c) (pp_amount c)
      PaymentStatus_PENDING None], seq := Suc (seq s)\<rparr>"
  have insert: "insert_payment env (orderId c) (pp_userId c) (pp_amount c) s =
      (Inr (payment_row env (seq s) (orderId c) (pp_userId c) (pp_amount c) PaymentStatus_PENDING None), ?v)"
    using assms(2,3) by (simp add: insert_payment_def payment_row_def Let_def)
  obtain available where run: "PaymentsService_processPayment env (orderId c) (pp_userId c) (pp_amount c) s =
      (Inl (InsufficientFundsError available (pp_amount c)), ?v)"
    using assms(4) insert
    by (auto simp: PaymentsService_processPayment_def tx_bind_def WalletService_deduct_def find_wallet_def
        split: option.splits)
  let ?p = "failed_reply c (payment_error_message env (InsufficientFundsError available (pp_amount c)))"
  define s' where "s' = reply_with env c PAYMENT_FAILED ?p ?v"
  have "payment_tx env c s = (Inr (), s')"
    using run assms(1) by (simp add: payment_tx_def try_catch_def tx_bind_def modify_def s'_def)
  then have handled: "handleProcessPayment None env c s = (Inr (), s')"
    by (simp add: handleProcessPayment_def transaction_Inr)
  have row: "row_of pa_orderId (orderId c) (payments s') =
      Some (payment_row env (seq s) (orderId c) (pp_userId c) (pp_amount c) PaymentStatus_PENDING None)"
    using assms(2) by (simp add: s'_def row_of_snoc payment_row_def)
  have "payments (snd (handleProcessPayment None env' d s')) = payments s'" if "orderId d = orderId c" for env' d
  proof (cases "None :: payment_error option" env' d s' rule: payment_command_cases)
    case (paid t v)
    then show ?thesis using processPayment_insert(1) [OF paid(1)] row that by simp
  next
    case (refused e v)
    then show ?thesis using processPayment_refused [OF refused(1,2)] row that by simp
  qed
  moreover have "written_replies ?v = written_replies s" by (simp add: written_replies_def)
  ultimately show ?thesis using handled row
    by (intro exI [of _ s'] exI) (simp add: s'_def reply_with_effect payment_row_def)
qed

theorem refused_payment_witness:
  "\<exists>s' reason. handleProcessPayment None sample_env (sample_payment 7) (sample_wallets 500) = (Inr (), s') \<and>
    written_replies s' = [(KAFKA_TOPICS PAYMENT_FAILED, failed_reply (sample_payment 7) reason)] \<and>
    payments (snd (handleProcessPayment None sample_env ((sample_payment 1)\<lparr>commandId := ''s2''\<rparr>) s')) = payments s'"
proof -
  have "fl (of_int 500 / 100) < 7" by code_simp
  then show ?thesis
    using refused_payment [of "sample_payment 7" "sample_wallets 500" sample_env]
    by (fastforce simp: sample_payment_def sample_wallets_def IdempotencyService_find_def tab_simps find_wallet_def
        fits_decimal_def dec2_def written_replies_def)
qed

text \<open>
  Opening a wallet is idempotent: after the first delivery of a registration the user has a
  wallet with the initial balance, and any further delivery, with whatever configured balance,
  changes nothing.
\<close>

theorem wallet_opened_once:
  assumes "find_wallet (ur_userId e) s = None" "fits_decimal 12 initialBalance"
  shows "\<exists>s'. handleUserRegistered None env initialBalance e s = (Inr (), s') \<and>
    balance_of (ur_userId e) s' = Some (dec2 initialBalance) \<and>
    (\<forall>fault env' b. snd (handleUserRegistered fault env' b e s') = s')"
proof -
  obtain w s' where run: "insert_wallet env (ur_userId e) initialBalance s = (Inr w, s')"
    and w: "find_wallet (ur_userId e) s' \<noteq> None" "balance_of (ur_userId e) s' = Some (dec2 initialBalance)"
    using assms by (auto simp: insert_wallet_def Let_def find_wallet_def balance_of_def row_of_snoc)
  have "snd (handleUserRegistered fault env' b e s') = s'" for fault env' b
    using w(1) by (auto simp: handleUserRegistered_def transaction_def tx_bind_def WalletService_findOrCreate_def
        ret_def split: option.splits)
  with assms(1) run w(2) show ?thesis
    by (auto simp: handleUserRegistered_def transaction_Inr tx_simps WalletService_findOrCreate_def)
qed

theorem wallet_opened_once_witness:
  "balance_of ''u1'' sample_opened = Some 10000 \<and>
   snd (handleUserRegistered None sample_env 5 \<lparr>ur_userId = ''u1'', ur_email = ''u@x''\<rparr> sample_opened) = sample_opened"
proof -
  let ?e = "\<lparr>ur_userId = ''u1'', ur_email = ''u@x''\<rparr>"
  have "find_wallet (ur_userId ?e) empty_payments = None"
    by (simp add: find_wallet_def empty_payments_def tab_simps)
  moreover have "fits_decimal 12 10000" by code_simp
  moreover have "dec2 10000 = 10000" by code_simp
  ultimately show ?thesis
    using wallet_opened_once [of ?e empty_payments 10000 sample_env] by (auto simp: sample_opened_def)
qed

end
