(* ===== verification/Auth.thy ===== *)
theory Auth
  imports Outbox
begin

section \<open>The auth-service\<close>

text \<open>
  \<^verbatim>\<open>services/auth-service\<close>: the user entity, \<open>AuthService\<close> with registration, login,
  token refresh and logout, and its controller. Password hashing, the digest of refresh tokens
  and the signing and verification of JSON web tokens are library functions, arguments of the
  operations in the record \<open>crypto\<close>; \<open>crypto_ok\<close> states what the service relies on:
  a password matches the hash made of it, a token verifies under its secret to the payload it
  was signed with until it expires (times in a token are whole seconds), a token was signed with
  one payload only, and the digest does not collide.
\<close>

subsection \<open>Entity, payload, errors\<close>

record user_entity =
  us_id :: string
  us_email :: string
  us_passwordHash :: string
  us_roles :: "role list"
  us_refreshToken :: "string option"
  us_isActive :: bool
  us_createdAt :: date
  us_updatedAt :: date

record jwt_payload =
  jp_sub :: string
  jp_email :: string
  jp_roles :: "role list"
  jp_jti :: string

record tokens_result =
  tk_accessToken :: string
  tk_refreshToken :: string
  tk_expiresIn :: int
  tk_userId :: string
  tk_email :: string

datatype auth_error =
    EmailAlreadyTakenError
  | InvalidCredentialsError
  | InvalidRefreshTokenError
  | RefreshTokenRevokedError
  | AuthFailure string

fun auth_error_message :: "auth_error \<Rightarrow> string" where
  "auth_error_message EmailAlreadyTakenError = ''Email already registered''"
| "auth_error_message InvalidCredentialsError = ''Invalid credentials''"
| "auth_error_message InvalidRefreshTokenError = ''Invalid refresh token''"
| "auth_error_message RefreshTokenRevokedError = ''Refresh token revoked''"
| "auth_error_message (AuthFailure m) = m"

record auth_db = outbox_db +
  users :: "user_entity list"

subsection \<open>The libraries and the configuration\<close>

text \<open>
  \<open>cr_sign secret payload iat expiresIn\<close> is the token \<^verbatim>\<open>signAsync\<close> resolves to, or
  \<open>None\<close> if it rejects; \<open>cr_verify secret now token\<close> is the payload, or \<open>None\<close> if
  \<^verbatim>\<open>verify\<close> throws.
\<close>

record crypto =
  cr_hash :: "string \<Rightarrow> string"
  cr_compare :: "string \<Rightarrow> string \<Rightarrow> bool"
  cr_digest :: "string \<Rightarrow> string"
  cr_sign :: "string \<Rightarrow> jwt_payload \<Rightarrow> date \<Rightarrow> int \<Rightarrow> string option"
  cr_verify :: "string \<Rightarrow> date \<Rightarrow> string \<Rightarrow> jwt_payload option"

definition crypto_ok :: "crypto \<Rightarrow> bool" where
  "crypto_ok cr \<longleftrightarrow> (\<forall>p. cr_compare cr p (cr_hash cr p)) \<and> inj (cr_digest cr) \<and>
     (\<forall>k p iat ex t now. cr_sign cr k p iat ex = Some t \<longrightarrow> now div 1000 < iat div 1000 + ex \<longrightarrow>
        cr_verify cr k now t = Some p) \<and>
     (\<forall>k p iat ex k' p' iat' ex' t. cr_sign cr k p iat ex = Some t \<longrightarrow> cr_sign cr k' p' iat' ex' = Some t \<longrightarrow> p = p')"

record auth_config =
  ac_accessExpiresIn :: int
  ac_refreshExpiresIn :: int
  ac_secret :: string
  ac_refreshSecret :: string

subsection \<open>auth.service.ts\<close>

definition hashToken :: "crypto \<Rightarrow> string \<Rightarrow> string" where
  "hashToken cr token = cr_digest cr token"

text \<open>\<^verbatim>\<open>usersRepo.update(id, { refreshToken })\<close>\<close>

definition set_refreshToken :: "env \<Rightarrow> string \<Rightarrow> string option \<Rightarrow> auth_db \<Rightarrow> auth_db" where
  "set_refreshToken env i token s =
     s\<lparr>users := update_where (\<lambda>u. us_id u = i)
         (\<lambda>u. u\<lparr>us_refreshToken := token, us_updatedAt := e_now env\<rparr>) (users s)\<rparr>"

text \<open>
  \<^verbatim>\<open>issueTokens\<close> signs the two tokens, awaits them, and then stores the digest of the
  refresh token; the two halves are definitions of their own, since other requests run between them.
\<close>

definition sign_tokens ::
  "crypto \<Rightarrow> auth_config \<Rightarrow> env \<Rightarrow> user_entity \<Rightarrow> (auth_db, auth_error, tokens_result) tx" where
  "sign_tokens cr cfg env user s =
     (let payload = \<lparr>jp_sub = us_id user, jp_email = us_email user, jp_roles = us_roles user,
                      jp_jti = e_uuid env (seq s)\<rparr>;
          s1 = s\<lparr>seq := Suc (seq s)\<rparr>
      in case (cr_sign cr (ac_secret cfg) payload (e_now env) (ac_accessExpiresIn cfg),
               cr_sign cr (ac_refreshSecret cfg) payload (e_now env) (ac_refreshExpiresIn cfg)) of
           (Some accessToken, Some refreshToken) \<Rightarrow>
             (Inr \<lparr>tk_accessToken = accessToken, tk_refreshToken = refreshToken,
                    tk_expiresIn = ac_accessExpiresIn cfg, tk_userId = us_id user, tk_email = us_email user\<rparr>, s1)
         | _ \<Rightarrow> (Inl (AuthFailure ''Failed to sign tokens''), s1))"

definition store_tokens :: "crypto \<Rightarrow> env \<Rightarrow> user_entity \<Rightarrow> tokens_result \<Rightarrow> (auth_db, auth_error, tokens_result) tx" where
  "store_tokens cr env user t s =
     (Inr t, set_refreshToken env (us_id user) (Some (hashToken cr (tk_refreshToken t))) s)"

definition AuthService_issueTokens ::
  "crypto \<Rightarrow> auth_config \<Rightarrow> env \<Rightarrow> user_entity \<Rightarrow> (auth_db, auth_error, tokens_result) tx" where
  "AuthService_issueTokens cr cfg env user =
     tx_bind (sign_tokens cr cfg env user) (store_tokens cr env user)"

text \<open>The insert of a user; the table has a unique index on \<^verbatim>\<open>email\<close>.\<close>

definition insert_user :: "env \<Rightarrow> string \<Rightarrow> string \<Rightarrow> (auth_db, auth_error, user_entity) tx" where
  "insert_user env email passwordHash s =
     (let u = \<lparr>us_id = e_uuid env (seq s), us_email = email, us_passwordHash = passwordHash,
                us_roles = [Role_USER], us_refreshToken = None, us_isActive = True,
                us_createdAt = e_now env, us_updatedAt = e_now env\<rparr>
      in if row_of us_email email (users s) \<noteq> None then (Inl EmailAlreadyTakenError, s)
         else (Inr u, s\<lparr>users := users s @ [u], seq := Suc (seq s)\<rparr>))"

definition register_tx :: "env \<Rightarrow> string \<Rightarrow> string \<Rightarrow> (auth_db, auth_error, user_entity) tx" where
  "register_tx env email passwordHash =
     tx_bind (insert_user env email passwordHash) (\<lambda>saved.
     tx_bind (modify (OutboxService_write env (us_id saved) (KAFKA_TOPICS USER_REGISTERED) (us_id saved)
         (UserRegistered \<lparr>ur_userId = us_id saved, ur_email = us_email saved\<rparr>))) (\<lambda>_.
       ret saved))"

text \<open>
  Registration is a transaction that inserts the user and writes the event, and then, outside of
  it, the issue of the first tokens. The unique violation (code 23505) becomes
  \<open>EmailAlreadyTakenError\<close> in the catch around the transaction; any other error is
  rethrown.
\<close>

definition AuthService_register ::
  "auth_error option \<Rightarrow> crypto \<Rightarrow> auth_config \<Rightarrow> env \<Rightarrow> string \<Rightarrow> string \<Rightarrow> (auth_db, auth_error, tokens_result) tx" where
  "AuthService_register fault cr cfg env email password =
     tx_bind (transaction fault (register_tx env email (cr_hash cr password)))
       (AuthService_issueTokens cr cfg env)"

text \<open>
  A login and a refresh read the user and then issue the tokens for the row they read. The
  operations below run without a request in between; \<open>AuthSessions\<close> interleaves
  their parts.
\<close>

definition login_user :: "crypto \<Rightarrow> string \<Rightarrow> string \<Rightarrow> (auth_db, auth_error, user_entity) tx" where
  "login_user cr email password s =
     (case List.find (\<lambda>u. us_email u = email \<and> us_isActive u) (users s) of
        None \<Rightarrow> (Inl InvalidCredentialsError, s)
      | Some user \<Rightarrow>
          if \<not> cr_compare cr password (us_passwordHash user) then (Inl InvalidCredentialsError, s)
          else (Inr user, s))"

definition AuthService_login ::
  "crypto \<Rightarrow> auth_config \<Rightarrow> env \<Rightarrow> string \<Rightarrow> string \<Rightarrow> (auth_db, auth_error, tokens_result) tx" where
  "AuthService_login cr cfg env email password =
     tx_bind (login_user cr email password) (AuthService_issueTokens cr cfg env)"

definition refresh_user :: "crypto \<Rightarrow> auth_config \<Rightarrow> env \<Rightarrow> string \<Rightarrow> (auth_db, auth_error, user_entity) tx" where
  "refresh_user cr cfg env refreshToken s =
     (case cr_verify cr (ac_refreshSecret cfg) (e_now env) refreshToken of
        None \<Rightarrow> (Inl InvalidRefreshTokenError, s)
      | Some payload \<Rightarrow>
          (case List.find (\<lambda>u. us_id u = jp_sub payload \<and>
                   us_refreshToken u = Some (hashToken cr refreshToken) \<and> us_isActive u) (users s) of
             None \<Rightarrow> (Inl RefreshTokenRevokedError, s)
           | Some user \<Rightarrow> (Inr user, s)))"

definition AuthService_refresh ::
  "crypto \<Rightarrow> auth_config \<Rightarrow> env \<Rightarrow> string \<Rightarrow> (auth_db, auth_error, tokens_result) tx" where
  "AuthService_refresh cr cfg env refreshToken =
     tx_bind (refresh_user cr cfg env refreshToken) (AuthService_issueTokens cr cfg env)"

definition AuthService_logout :: "env \<Rightarrow> string \<Rightarrow> (auth_db, auth_error, string) tx" where
  "AuthService_logout env userId s = (Inr ''Logged out successfully'', set_refreshToken env userId None s)"

subsection \<open>auth.controller.ts and auth.dto.ts\<close>

text \<open>
  \<open>is_email\<close> is the validator library's test; \<open>to_lower\<close> is JavaScript's
  \<^verbatim>\<open>toLowerCase\<close>, whose Unicode tables are an argument. The transformation runs
  before the validation.
\<close>

definition normalize_email :: "(string \<Rightarrow> string) \<Rightarrow> string \<Rightarrow> string" where
  "normalize_email to_lower value = js_trim (to_lower value)"

definition LoginDto_valid :: "(string \<Rightarrow> bool) \<Rightarrow> string \<Rightarrow> string \<Rightarrow> bool" where
  "LoginDto_valid is_email email password \<longleftrightarrow> is_email email \<and> 8 \<le> length password"

definition RegisterDto_valid :: "(string \<Rightarrow> bool) \<Rightarrow> string \<Rightarrow> string \<Rightarrow> bool" where
  "RegisterDto_valid is_email email password \<longleftrightarrow>
     is_email email \<and> 8 \<le> length password \<and> length password \<le> 72"

fun auth_http :: "auth_error \<Rightarrow> http_exception" where
  "auth_http EmailAlreadyTakenError = ConflictException (auth_error_message EmailAlreadyTakenError)"
| "auth_http InvalidCredentialsError = UnauthorizedException (auth_error_message InvalidCredentialsError)"
| "auth_http InvalidRefreshTokenError = UnauthorizedException (auth_error_message InvalidRefreshTokenError)"
| "auth_http RefreshTokenRevokedError = UnauthorizedException (auth_error_message RefreshTokenRevokedError)"
| "auth_http (AuthFailure m) = InternalError m"

definition with_auth_http :: "(auth_db, auth_error, 'a) tx \<Rightarrow> (auth_db, http_exception, 'a) tx" where
  "with_auth_http m s = (case m s of (Inl e, s') \<Rightarrow> (Inl (auth_http e), s') | (Inr a, s') \<Rightarrow> (Inr a, s'))"

definition AuthController_register ::
  "auth_error option \<Rightarrow> crypto \<Rightarrow> auth_config \<Rightarrow> env \<Rightarrow> (string \<Rightarrow> bool) \<Rightarrow> (string \<Rightarrow> string) \<Rightarrow> string \<Rightarrow> string \<Rightarrow>
    (auth_db, http_exception, tokens_result) tx" where
  "AuthController_register fault cr cfg env is_email to_lower email password =
     (let email' = normalize_email to_lower email
      in if \<not> RegisterDto_valid is_email email' password then raise (BadRequestException ''Validation failed'')
         else with_auth_http (AuthService_register fault cr cfg env email' password))"

definition AuthController_login ::
  "crypto \<Rightarrow> auth_config \<Rightarrow> env \<Rightarrow> (string \<Rightarrow> bool) \<Rightarrow> (string \<Rightarrow> string) \<Rightarrow> string \<Rightarrow> string \<Rightarrow>
    (auth_db, http_exception, tokens_result) tx" where
  "AuthController_login cr cfg env is_email to_lower email password =
     (let email' = normalize_email to_lower email
      in if \<not> LoginDto_valid is_email email' password then raise (BadRequestException ''Validation failed'')
         else with_auth_http (AuthService_login cr cfg env email' password))"

definition AuthController_refresh ::
  "crypto \<Rightarrow> auth_config \<Rightarrow> env \<Rightarrow> string \<Rightarrow> (auth_db, http_exception, tokens_result) tx" where
  "AuthController_refresh cr cfg env refreshToken = with_auth_http (AuthService_refresh cr cfg env refreshToken)"

definition AuthController_logout :: "env \<Rightarrow> string option \<Rightarrow> (auth_db, http_exception, string) tx" where
  "AuthController_logout env userId =
     (case userId of
        None \<Rightarrow> raise (BadRequestException ''Missing user id'')
      | Some u \<Rightarrow> if u = '''' then raise (BadRequestException ''Missing user id'')
                 else with_auth_http (AuthService_logout env u))"

end
