(* ===== verification/AuthSessions.thy ===== *)
theory AuthSessions
  imports Auth
begin

section \<open>Requests of the auth-service, interleaved\<close>

text \<open>
  No lock and no transaction spans a request of the auth-service: a registration, a login or a refresh reads
  (or inserts) its user, awaits the signatures and then stores the digest of the new refresh token, and
  between these awaits the other requests run. The machine of this theory has a step for each of the three parts
  of each request that is under way, for the failure of the last write, for a logout and for a tick of the outbox
  processor. Its invariant says which tokens a user's row and the requests under way can hold.
\<close>

subsection \<open>The requests\<close>

datatype auth_request =
    RegisterRequest string string
  | LoginRequest string string
  | RefreshRequest string

text \<open>
  A request that waits for the signatures has read its user; one that waits for the last write has the
  tokens; and one that is finished has its answer.
\<close>

datatype auth_stage =
    Signing user_entity
  | Storing user_entity tokens_result
  | Answered "http_exception + tokens_result"

type_synonym auth_session = "auth_request \<times> auth_stage"

record auth_server =
  au_db :: auth_db
  au_sessions :: "auth_session list"

text \<open>The part of the handlers up to the first \<^verbatim>\<open>await\<close> of \<^verbatim>\<open>issueTokens\<close>.\<close>

fun auth_begin ::
  "auth_error option \<Rightarrow> crypto \<Rightarrow> auth_config \<Rightarrow> env \<Rightarrow> (string \<Rightarrow> bool) \<Rightarrow> (string \<Rightarrow> string) \<Rightarrow> auth_request \<Rightarrow>
    (auth_db, http_exception, user_entity) tx" where
  "auth_begin fault cr cfg env is_email to_lower (RegisterRequest email password) =
     (let email' = normalize_email to_lower email
      in if \<not> RegisterDto_valid is_email email' password then raise (BadRequestException ''Validation failed'')
         else with_auth_http (transaction fault (register_tx env email' (cr_hash cr password))))"
| "auth_begin fault cr cfg env is_email to_lower (LoginRequest email password) =
     (let email' = normalize_email to_lower email
      in if \<not> LoginDto_valid is_email email' password then raise (BadRequestException ''Validation failed'')
         else with_auth_http (login_user cr email' password))"
| "auth_begin fault cr cfg env is_email to_lower (RefreshRequest tok) = with_auth_http (refresh_user cr cfg env tok)"

definition arrive ::
  "auth_error option \<Rightarrow> crypto \<Rightarrow> auth_config \<Rightarrow> env \<Rightarrow> (string \<Rightarrow> bool) \<Rightarrow> (string \<Rightarrow> string) \<Rightarrow> auth_request \<Rightarrow>
    auth_server \<Rightarrow> auth_server" where
  "arrive fault cr cfg env is_email to_lower rq c =
     (case auth_begin fault cr cfg env is_email to_lower rq (au_db c) of
        (Inl e, s) \<Rightarrow> \<lparr>au_db = s, au_sessions = au_sessions c @ [(rq, Answered (Inl e))]\<rparr>
      | (Inr u, s) \<Rightarrow> \<lparr>au_db = s, au_sessions = au_sessions c @ [(rq, Signing u)]\<rparr>)"

text \<open>The two later parts of session \<open>i\<close>; sessions at another stage are left alone.\<close>

definition sign_session :: "crypto \<Rightarrow> auth_config \<Rightarrow> env \<Rightarrow> nat \<Rightarrow> auth_server \<Rightarrow> auth_server" where
  "sign_session cr cfg env i c =
     (case au_sessions c ! i of
        (rq, Signing u) \<Rightarrow>
          (case with_auth_http (sign_tokens cr cfg env u) (au_db c) of
             (Inl e, s) \<Rightarrow> \<lparr>au_db = s, au_sessions = (au_sessions c)[i := (rq, Answered (Inl e))]\<rparr>
           | (Inr t, s) \<Rightarrow> \<lparr>au_db = s, au_sessions = (au_sessions c)[i := (rq, Storing u t)]\<rparr>)
      | _ \<Rightarrow> c)"

definition store_session :: "crypto \<Rightarrow> env \<Rightarrow> nat \<Rightarrow> auth_server \<Rightarrow> auth_server" where
  "store_session cr env i c =
     (case au_sessions c ! i of
        (rq, Storing u t) \<Rightarrow>
          (case with_auth_http (store_tokens cr env u t) (au_db c) of
             (r, s) \<Rightarrow> \<lparr>au_db = s, au_sessions = (au_sessions c)[i := (rq, Answered r)]\<rparr>)
      | _ \<Rightarrow> c)"

text \<open>The last write fails: nothing is stored and the request is answered with the error.\<close>

definition store_fails :: "string \<Rightarrow> nat \<Rightarrow> auth_server \<Rightarrow> auth_server" where
  "store_fails message i c =
     (case au_sessions c ! i of
        (rq, Storing u t) \<Rightarrow> c\<lparr>au_sessions := (au_sessions c)[i := (rq, Answered (Inl (auth_http (AuthFailure message))))]\<rparr>
      | _ \<Rightarrow> c)"

definition log_out :: "env \<Rightarrow> string option \<Rightarrow> auth_server \<Rightarrow> auth_server" where
  "log_out env userId c = c\<lparr>au_db := snd (AuthController_logout env userId (au_db c))\<rparr>"

inductive auth_step :: "crypto \<Rightarrow> auth_config \<Rightarrow> (nat \<Rightarrow> string) \<Rightarrow> auth_server \<Rightarrow> auth_server \<Rightarrow> bool" for cr cfg ru where
  step_arrive: "e_uuid env = ru \<Longrightarrow> auth_step cr cfg ru c (arrive fault cr cfg env is_email to_lower rq c)"
| step_sign: "e_uuid env = ru \<Longrightarrow> i < length (au_sessions c) \<Longrightarrow> auth_step cr cfg ru c (sign_session cr cfg env i c)"
| step_store: "i < length (au_sessions c) \<Longrightarrow> auth_step cr cfg ru c (store_session cr env i c)"
| step_store_fails: "i < length (au_sessions c) \<Longrightarrow> auth_step cr cfg ru c (store_fails message i c)"
| step_logout: "auth_step cr cfg ru c (log_out env userId c)"
| step_auth_tick: "auth_step cr cfg ru c (c\<lparr>au_db := (au_db c)\<lparr>outbox :=
    fst (snd (abstract_processPending env b db_fault locked p (outbox (au_db c), bus)))\<rparr>\<rparr>)"

text \<open>A request that meets no other one is the operation of the controller.\<close>

lemma with_auth_http_bind:
  "with_auth_http (tx_bind m f) = tx_bind (with_auth_http m) (\<lambda>a. with_auth_http (f a))"
  by (rule ext) (simp add: with_auth_http_def tx_bind_def split: prod.splits sum.splits)

definition controller ::
  "auth_error option \<Rightarrow> crypto \<Rightarrow> auth_config \<Rightarrow> env \<Rightarrow> (string \<Rightarrow> bool) \<Rightarrow> (string \<Rightarrow> string) \<Rightarrow> auth_request \<Rightarrow>
    (auth_db, http_exception, tokens_result) tx" where
  "controller fault cr cfg env is_email to_lower rq =
     (case rq of
        RegisterRequest email password \<Rightarrow> AuthController_register fault cr cfg env is_email to_lower email password
      | LoginRequest email password \<Rightarrow> AuthController_login cr cfg env is_email to_lower email password
      | RefreshRequest tok \<Rightarrow> AuthController_refresh cr cfg env tok)"

lemma controller_parts:
  "controller fault cr cfg env is_email to_lower rq =
     tx_bind (auth_begin fault cr cfg env is_email to_lower rq) (\<lambda>u.
     tx_bind (with_auth_http (sign_tokens cr cfg env u)) (\<lambda>t. with_auth_http (store_tokens cr env u t)))"
  by (rule ext, cases rq)
    (auto simp: controller_def AuthController_register_def AuthController_login_def AuthController_refresh_def
      AuthService_register_def AuthService_login_def AuthService_refresh_def AuthService_issueTokens_def
      with_auth_http_bind Let_def tx_bind_def raise_def)

lemma undisturbed_session:
  assumes "controller fault cr cfg env is_email to_lower rq (au_db c) = (r, s)"
  shows "let n = length (au_sessions c);
             c3 = store_session cr env n (sign_session cr cfg env n (arrive fault cr cfg env is_email to_lower rq c))
         in au_db c3 = s \<and> au_sessions c3 = au_sessions c @ [(rq, Answered r)]"
  using assms
  by (auto simp: controller_parts tx_bind_def arrive_def sign_session_def store_session_def Let_def
      split: prod.splits sum.splits)

subsection \<open>The tables\<close>

text \<open>
  Ids and addresses are unique and every account has its event; and a stored digest is that of a
  token the service signed for that user, under a token id generated before.
\<close>

definition token_of :: "crypto \<Rightarrow> auth_config \<Rightarrow> (nat \<Rightarrow> string) \<Rightarrow> nat \<Rightarrow> string \<Rightarrow> string \<Rightarrow> bool" where
  "token_of cr cfg ru n i h \<longleftrightarrow>
     (\<exists>tok p iat k. h = cr_digest cr tok \<and>
        cr_sign cr (ac_refreshSecret cfg) p iat (ac_refreshExpiresIn cfg) = Some tok \<and>
        jp_sub p = i \<and> jp_jti p = ru k \<and> k < n)"

definition registered :: "user_entity \<Rightarrow> payload" where
  "registered u = UserRegistered \<lparr>ur_userId = us_id u, ur_email = us_email u\<rparr>"

definition accounts_inv :: "(nat \<Rightarrow> string) \<Rightarrow> auth_db \<Rightarrow> bool" where
  "accounts_inv ru s \<longleftrightarrow>
     distinct (map us_email (users s)) \<and> distinct (map us_id (users s)) \<and>
     set (map us_id (users s)) \<subseteq> ru ` {..<seq s} \<and>
     map ob_payload (outbox s) = map registered (users s) \<and>
     (\<forall>r \<in> set (outbox s). ob_topic r = KAFKA_TOPICS USER_REGISTERED)"

definition auth_inv :: "crypto \<Rightarrow> auth_config \<Rightarrow> (nat \<Rightarrow> string) \<Rightarrow> auth_db \<Rightarrow> bool" where
  "auth_inv cr cfg ru s \<longleftrightarrow> accounts_inv ru s \<and>
     (\<forall>u \<in> set (users s). \<forall>h. us_refreshToken u = Some h \<longrightarrow> token_of cr cfg ru (seq s) (us_id u) h)"

lemma token_of_mono: "token_of cr cfg ru n i h \<Longrightarrow> n \<le> m \<Longrightarrow> token_of cr cfg ru m i h"
  unfolding token_of_def by (metis order_less_le_trans)

subsection \<open>Issuing tokens\<close>

definition new_payload :: "env \<Rightarrow> nat \<Rightarrow> user_entity \<Rightarrow> jwt_payload" where
  "new_payload env n u = \<lparr>jp_sub = us_id u, jp_email = us_email u, jp_roles = us_roles u, jp_jti = e_uuid env n\<rparr>"

lemma sign_tokens_Inr:
  assumes "sign_tokens cr cfg env u s = (Inr t, s')"
  shows "cr_sign cr (ac_refreshSecret cfg) (new_payload env (seq s) u) (e_now env) (ac_refreshExpiresIn cfg) =
      Some (tk_refreshToken t)" "tk_userId t = us_id u" "s' = s\<lparr>seq := Suc (seq s)\<rparr>"
    "cr_sign cr (ac_secret cfg) (new_payload env (seq s) u) (e_now env) (ac_accessExpiresIn cfg) = Some (tk_accessToken t)"
  using assms by (auto simp: sign_tokens_def new_payload_def Let_def split: option.splits)

lemma sign_tokens_state: "snd (sign_tokens cr cfg env u s) = s\<lparr>seq := Suc (seq s)\<rparr>"
  by (simp add: sign_tokens_def Let_def split: option.splits)

lemma issueTokens_Inr:
  assumes "AuthService_issueTokens cr cfg env u s = (Inr t, s')"
  shows "cr_sign cr (ac_refreshSecret cfg) (new_payload env (seq s) u) (e_now env) (ac_refreshExpiresIn cfg) =
      Some (tk_refreshToken t)" "tk_userId t = us_id u"
    "s' = set_refreshToken env (us_id u) (Some (cr_digest cr (tk_refreshToken t))) (s\<lparr>seq := Suc (seq s)\<rparr>)"
    "cr_sign cr (ac_secret cfg) (new_payload env (seq s) u) (e_now env) (ac_accessExpiresIn cfg) = Some (tk_accessToken t)"
  using assms
  by (auto simp: AuthService_issueTokens_def tx_bind_Inr store_tokens_def hashToken_def dest: sign_tokens_Inr)

lemma accounts_inv_seq: "accounts_inv ru s \<Longrightarrow> seq s \<le> n \<Longrightarrow> accounts_inv ru (s\<lparr>seq := n\<rparr>)"
  using ids_mono [of _ ru "seq s" n] by (auto simp: accounts_inv_def)

lemma auth_inv_seq: "auth_inv cr cfg ru s \<Longrightarrow> seq s \<le> n \<Longrightarrow> auth_inv cr cfg ru (s\<lparr>seq := n\<rparr>)"
  using accounts_inv_seq token_of_mono [of cr cfg ru "seq s"] by (auto simp: auth_inv_def)

lemma accounts_set_refreshToken: "accounts_inv ru s \<Longrightarrow> accounts_inv ru (set_refreshToken env i token s)"
proof -
  have "map registered (update_where (\<lambda>u. us_id u = i)
      (\<lambda>u. u\<lparr>us_refreshToken := token, us_updatedAt := e_now env\<rparr>) (users s)) = map registered (users s)"
    by (rule map_update_where) (simp add: registered_def)
  then show "accounts_inv ru s \<Longrightarrow> accounts_inv ru (set_refreshToken env i token s)"
    by (auto simp: accounts_inv_def set_refreshToken_def map_update_where set_update_where)
qed

lemma set_refreshToken_inv:
  assumes "auth_inv cr cfg ru s" "\<And>h. token = Some h \<Longrightarrow> token_of cr cfg ru (seq s) i h"
  shows "auth_inv cr cfg ru (set_refreshToken env i token s)"
  using assms accounts_set_refreshToken [of ru s env i token]
  by (auto simp: auth_inv_def set_refreshToken_def set_update_where)

subsection \<open>Registration\<close>

lemma register_tx_Inr:
  assumes "register_tx env email hash s = (Inr u, s')"
  shows "row_of us_email email (users s) = None" "us_id u = e_uuid env (seq s)" "us_email u = email"
    "us_passwordHash u = hash" "us_isActive u" "us_refreshToken u = None" "users s' = users s @ [u]"
    "outbox s' = outbox s @ [new_outbox_row env (Suc (seq s)) (us_id u) (KAFKA_TOPICS USER_REGISTERED) (us_id u) (registered u)]"
    "seq s' = seq s + 2"
  using assms
  by (auto simp: register_tx_def tx_simps insert_user_def Let_def OutboxService_write_def registered_def
      split: if_splits)

lemma register_tx_accounts:
  assumes inv: "accounts_inv ru s" and ru: "uuid_ok ru" "e_uuid env = ru"
    and run: "register_tx env email hash s = (Inr u, s')"
  shows "accounts_inv ru s'"
proof -
  note r = register_tx_Inr [OF run]
  have ids: "set (map us_id (users s)) \<subseteq> ru ` {..<seq s}" using inv by (simp add: accounts_inv_def)
  have "ru (seq s) \<notin> set (map us_id (users s))" using ru(1) ids by (rule fresh_id) simp
  moreover have "email \<notin> us_email ` set (users s)" using r(1) by (simp add: row_of_None)
  moreover have "set (map us_id (users s')) \<subseteq> ru ` {..<seq s'}"
    using ids_mono [OF ids_next [OF ids]] r(2,7,9) ru(2) by simp
  ultimately show ?thesis
    using inv r ru(2) by (auto simp: accounts_inv_def new_outbox_row_def)
qed

lemma register_tx_inv:
  assumes "auth_inv cr cfg ru s" "uuid_ok ru" "e_uuid env = ru" "register_tx env email hash s = (Inr u, s')"
  shows "auth_inv cr cfg ru s'"
  using assms register_tx_accounts [OF _ assms(2-4)] register_tx_Inr(6,7,9) [OF assms(4)]
    token_of_mono [of cr cfg ru "seq s" _ _ "seq s'"] by (auto simp: auth_inv_def)

lemma tick_rows:
  "map ob_ident (fst (snd (abstract_processPending env b db_fault locked p st))) = map ob_ident (fst st)"
  by (auto simp: processPending_defs abstract_processor.fold_ident split: option.splits)

lemma tick_accounts:
  assumes "accounts_inv ru s"
  shows "accounts_inv ru (s\<lparr>outbox := fst (snd (abstract_processPending env b db_fault locked p (outbox s, bus)))\<rparr>)"
proof -
  let ?rows = "fst (snd (abstract_processPending env b db_fault locked p (outbox s, bus)))"
  have "map ob_ident ?rows = map ob_ident (outbox s)" by (simp add: tick_rows)
  then have "map (\<lambda>r. (ob_payload r, ob_topic r)) ?rows = map (\<lambda>r. (ob_payload r, ob_topic r)) (outbox s)"
    by (rule map_coarser) (simp add: ob_ident_def)
  then have "map ob_payload ?rows = map ob_payload (outbox s)" "map ob_topic ?rows = map ob_topic (outbox s)"
    by (auto dest: map_coarser [where g = ob_payload] map_coarser [where g = ob_topic])
  then have "ob_topic ` set ?rows = ob_topic ` set (outbox s)" "map ob_payload ?rows = map ob_payload (outbox s)"
    by (metis list.set_map)+
  with assms show ?thesis by (simp add: accounts_inv_def) blast
qed

lemma tick_inv: "auth_inv cr cfg ru s \<Longrightarrow>
    auth_inv cr cfg ru (s\<lparr>outbox := fst (snd (abstract_processPending env b db_fault locked p (outbox s, bus)))\<rparr>)"
  using tick_accounts by (auto simp: auth_inv_def)

subsection \<open>Who holds a token\<close>

fun stage_token :: "auth_stage \<Rightarrow> string option" where
  "stage_token (Storing u t) = Some (tk_refreshToken t)"
| "stage_token _ = None"

text \<open>
  A token is pending while a request is about to store it, and stored while a user's row holds
  its digest. It is spent when it was signed and is no longer pending, and retired when it is
  not stored either.
\<close>

definition pending :: "auth_session list \<Rightarrow> string \<Rightarrow> bool" where
  "pending xs tok \<longleftrightarrow> (\<exists>x \<in> set xs. stage_token (snd x) = Some tok)"

definition stored :: "crypto \<Rightarrow> auth_db \<Rightarrow> string \<Rightarrow> bool" where
  "stored cr s tok \<longleftrightarrow> (\<exists>u \<in> set (users s). us_refreshToken u = Some (cr_digest cr tok))"

definition spent :: "crypto \<Rightarrow> auth_config \<Rightarrow> (nat \<Rightarrow> string) \<Rightarrow> auth_server \<Rightarrow> string \<Rightarrow> string \<Rightarrow> bool" where
  "spent cr cfg ru c i tok \<longleftrightarrow>
     token_of cr cfg ru (seq (au_db c)) i (cr_digest cr tok) \<and> \<not> pending (au_sessions c) tok"

definition retired :: "crypto \<Rightarrow> auth_config \<Rightarrow> (nat \<Rightarrow> string) \<Rightarrow> auth_server \<Rightarrow> string \<Rightarrow> string \<Rightarrow> bool" where
  "retired cr cfg ru c i tok \<longleftrightarrow> spent cr cfg ru c i tok \<and> \<not> stored cr (au_db c) tok"

fun session_ok :: "crypto \<Rightarrow> auth_config \<Rightarrow> (nat \<Rightarrow> string) \<Rightarrow> auth_server \<Rightarrow> auth_session \<Rightarrow> bool" where
  "session_ok cr cfg ru c (rq, Signing u) \<longleftrightarrow> (\<forall>tok. rq = RefreshRequest tok \<longrightarrow> spent cr cfg ru c (us_id u) tok)"
| "session_ok cr cfg ru c (rq, Storing u t) \<longleftrightarrow>
     token_of cr cfg ru (seq (au_db c)) (us_id u) (cr_digest cr (tk_refreshToken t)) \<and>
     \<not> stored cr (au_db c) (tk_refreshToken t) \<and>
     (\<forall>tok. rq = RefreshRequest tok \<longrightarrow> spent cr cfg ru c (us_id u) tok)"
| "session_ok cr cfg ru c (rq, Answered (Inl e)) \<longleftrightarrow> True"
| "session_ok cr cfg ru c (rq, Answered (Inr t)) \<longleftrightarrow>
     (\<forall>tok. rq = RefreshRequest tok \<longrightarrow> tk_refreshToken t \<noteq> tok \<and> (\<exists>i. retired cr cfg ru c i tok))"

definition one_holder :: "auth_session list \<Rightarrow> bool" where
  "one_holder xs \<longleftrightarrow> (\<forall>i < length xs. \<forall>j < length xs. \<forall>tok.
     stage_token (snd (xs ! i)) = Some tok \<longrightarrow> stage_token (snd (xs ! j)) = Some tok \<longrightarrow> i = j)"

definition server_inv :: "crypto \<Rightarrow> auth_config \<Rightarrow> (nat \<Rightarrow> string) \<Rightarrow> auth_server \<Rightarrow> bool" where
  "server_inv cr cfg ru c \<longleftrightarrow> auth_inv cr cfg ru (au_db c) \<and>
     (\<forall>x \<in> set (au_sessions c). session_ok cr cfg ru c x) \<and> one_holder (au_sessions c)"

lemma token_owner:
  assumes cr: "crypto_ok cr" and tok: "token_of cr cfg ru n i (cr_digest cr tok)" "token_of cr cfg ru m j (cr_digest cr tok)"
  shows "i = j"
proof -
  have "\<exists>p. jp_sub p = x \<and> (\<exists>k iat ex. cr_sign cr k p iat ex = Some tok)"
    if x: "token_of cr cfg ru n x (cr_digest cr tok)" for x n
  proof -
    obtain tok' p iat where "cr_digest cr tok = cr_digest cr tok'" "jp_sub p = x"
      "cr_sign cr (ac_refreshSecret cfg) p iat (ac_refreshExpiresIn cfg) = Some tok'"
      using x by (auto simp: token_of_def)
    moreover from this have "tok' = tok" using cr by (auto simp: crypto_ok_def dest: injD)
    ultimately show ?thesis by blast
  qed
  from this [OF tok(1)] this [OF tok(2)] cr show ?thesis unfolding crypto_ok_def by metis
qed

lemma new_token_differs:
  assumes cr: "crypto_ok cr" and ru: "uuid_ok ru" "e_uuid env = ru"
    and run: "sign_tokens cr cfg env v s = (Inr t, s')"
  shows "\<not> token_of cr cfg ru (seq s) i (cr_digest cr (tk_refreshToken t))"
proof
  assume "token_of cr cfg ru (seq s) i (cr_digest cr (tk_refreshToken t))"
  then obtain tok' p iat k where old: "cr_digest cr (tk_refreshToken t) = cr_digest cr tok'" "jp_jti p = ru k" "k < seq s"
    "cr_sign cr (ac_refreshSecret cfg) p iat (ac_refreshExpiresIn cfg) = Some tok'" by (auto simp: token_of_def)
  have "tok' = tk_refreshToken t" using cr old(1) by (auto simp: crypto_ok_def dest: injD)
  with old(4) sign_tokens_Inr(1) [OF run] cr have "p = new_payload env (seq s) v"
    unfolding crypto_ok_def by blast
  with old(2,3) ru show False by (auto simp: new_payload_def uuid_ok_def dest: injD)
qed

lemma signed_token_of:
  assumes "sign_tokens cr cfg env u s = (Inr t, s')" "e_uuid env = ru"
  shows "token_of cr cfg ru (Suc (seq s)) (us_id u) (cr_digest cr (tk_refreshToken t))"
  unfolding token_of_def using sign_tokens_Inr(1) [OF assms(1)] assms(2)
  by (intro exI [of _ "tk_refreshToken t"] exI [of _ "new_payload env (seq s) u"] exI [of _ "e_now env"]
      exI [of _ "seq s"]) (simp add: new_payload_def)

lemma stored_token_of: "auth_inv cr cfg ru s \<Longrightarrow> stored cr s tok \<Longrightarrow> \<exists>i. token_of cr cfg ru (seq s) i (cr_digest cr tok)"
  by (auto simp: auth_inv_def stored_def)

lemma stored_set_refreshToken:
  assumes "crypto_ok cr" "stored cr (set_refreshToken env i (Some (cr_digest cr new)) s) tok"
  shows "tok = new \<or> (\<exists>u \<in> set (users s). us_id u \<noteq> i \<and> us_refreshToken u = Some (cr_digest cr tok))"
  using assms by (auto simp: stored_def set_refreshToken_def set_update_where crypto_ok_def dest: injD split: if_splits)

lemma stored_cleared: "stored cr (set_refreshToken env i None s) tok \<Longrightarrow>
    \<exists>u \<in> set (users s). us_id u \<noteq> i \<and> us_refreshToken u = Some (cr_digest cr tok)"
  by (auto simp: stored_def set_refreshToken_def set_update_where split: if_splits)

lemma stored_new:
  "crypto_ok cr \<Longrightarrow> stored cr (set_refreshToken env i (Some (cr_digest cr new)) s) tok \<Longrightarrow> tok = new \<or> stored cr s tok"
  using stored_set_refreshToken by (fastforce simp: stored_def [of cr s])

lemma stored_old: "stored cr (set_refreshToken env i None s) tok \<Longrightarrow> stored cr s tok"
  using stored_cleared by (fastforce simp: stored_def [of cr s])

lemma set_refreshToken_seq [simp]: "seq (set_refreshToken env i token s) = seq s"
  by (simp add: set_refreshToken_def)

lemma pending_update: "pending (xs[i := x]) tok \<Longrightarrow> pending xs tok \<or> stage_token (snd x) = Some tok"
  unfolding pending_def using set_update_subset_insert [of xs i x] by blast

lemma pending_append [simp]: "pending (xs @ [x]) tok \<longleftrightarrow> pending xs tok \<or> stage_token (snd x) = Some tok"
  by (auto simp: pending_def)

lemma pending_nth: "i < length xs \<Longrightarrow> stage_token (snd (xs ! i)) = Some tok \<Longrightarrow> pending xs tok"
  unfolding pending_def using nth_mem by blast

subsection \<open>What a step does to the tokens\<close>

text \<open>
  Every step makes progress: no token that was signed becomes pending again, and only a pending token
  is stored. So a spent token stays spent and a retired one stays retired.
\<close>

definition progress :: "crypto \<Rightarrow> auth_config \<Rightarrow> (nat \<Rightarrow> string) \<Rightarrow> auth_server \<Rightarrow> auth_server \<Rightarrow> bool" where
  "progress cr cfg ru c c' \<longleftrightarrow> seq (au_db c) \<le> seq (au_db c') \<and>
     (\<forall>tok. pending (au_sessions c') tok \<longrightarrow> pending (au_sessions c) tok \<or>
        (\<forall>i. \<not> token_of cr cfg ru (seq (au_db c)) i (cr_digest cr tok))) \<and>
     (\<forall>tok. stored cr (au_db c') tok \<longrightarrow> stored cr (au_db c) tok \<or> pending (au_sessions c) tok)"

lemma progress_refl [simp]: "progress cr cfg ru c c"
  by (simp add: progress_def)

lemma progress_spent: "progress cr cfg ru c c' \<Longrightarrow> spent cr cfg ru c i tok \<Longrightarrow> spent cr cfg ru c' i tok"
  using token_of_mono by (auto simp: progress_def spent_def)

lemma progress_retired: "progress cr cfg ru c c' \<Longrightarrow> retired cr cfg ru c i tok \<Longrightarrow> retired cr cfg ru c' i tok"
  using progress_spent [of cr cfg ru c c' i tok] unfolding retired_def progress_def spent_def by blast

lemma session_ok_keeps:
  assumes "progress cr cfg ru c c'" "session_ok cr cfg ru c x"
    and "\<And>tok. stage_token (snd x) = Some tok \<Longrightarrow> \<not> stored cr (au_db c') tok"
  shows "session_ok cr cfg ru c' x"
proof -
  have mono: "token_of cr cfg ru (seq (au_db c')) i h" if "token_of cr cfg ru (seq (au_db c)) i h" for i h
    using token_of_mono [OF that] assms(1) by (simp add: progress_def)
  obtain rq st where x: "x = (rq, st)" by (cases x)
  show ?thesis
  proof (cases st)
    case (Signing u)
    with assms(2) x show ?thesis by (auto intro: progress_spent [OF assms(1)])
  next
    case (Storing u t)
    with assms(2,3) x mono show ?thesis by (auto intro: progress_spent [OF assms(1)])
  next
    case (Answered r)
    with assms(2) x show ?thesis by (cases r) (auto dest: progress_retired [OF assms(1)])
  qed
qed

lemma sign_progress:
  assumes "crypto_ok cr" "uuid_ok ru" "e_uuid env = ru" "i < length (au_sessions c)"
  shows "progress cr cfg ru c (sign_session cr cfg env i c)"
proof -
  obtain rq st where s: "au_sessions c ! i = (rq, st)" by (cases "au_sessions c ! i")
  have stored: "stored cr (s\<lparr>seq := n\<rparr>) tok \<longleftrightarrow> stored cr s tok" for s :: auth_db and n tok by (simp add: stored_def)
  show ?thesis
  proof (cases st)
    case (Signing u)
    obtain r s' where sign: "sign_tokens cr cfg env u (au_db c) = (r, s')" by force
    have s': "s' = (au_db c)\<lparr>seq := Suc (seq (au_db c))\<rparr>" using sign_tokens_state [of cr cfg env u "au_db c"] sign by simp
    show ?thesis
    proof (cases r)
      case (Inl e)
      then show ?thesis using s Signing sign s'
        by (auto simp: sign_session_def with_auth_http_def progress_def stored dest!: pending_update)
    next
      case (Inr t)
      then show ?thesis using s Signing sign s' new_token_differs [OF assms(1-3) sign [unfolded Inr]]
        by (auto simp: sign_session_def with_auth_http_def progress_def stored dest!: pending_update)
    qed
  qed (simp_all add: sign_session_def s)
qed

lemma store_progress:
  assumes "crypto_ok cr" "i < length (au_sessions c)"
  shows "progress cr cfg ru c (store_session cr env i c)"
proof -
  obtain rq st where s: "au_sessions c ! i = (rq, st)" by (cases "au_sessions c ! i")
  show ?thesis
  proof (cases st)
    case (Storing u t)
    have "pending (au_sessions c) (tk_refreshToken t)" using assms(2) s Storing by (intro pending_nth) auto
    then show ?thesis
      using s Storing
      by (auto simp: store_session_def with_auth_http_def store_tokens_def hashToken_def progress_def
          dest!: pending_update stored_new [OF assms(1)])
  qed (simp_all add: store_session_def s)
qed

lemma store_fails_progress: "progress cr cfg ru c (store_fails message i c)"
  by (auto simp: store_fails_def progress_def dest!: pending_update split: prod.splits auth_stage.splits)

lemma log_out_progress: "progress cr cfg ru c (log_out env userId c)"
  by (auto simp: log_out_def AuthController_logout_def AuthService_logout_def with_auth_http_def raise_def progress_def
      dest: stored_old split: option.splits)

text \<open>The first part of a request.\<close>

lemma begin_cases:
  assumes "auth_begin fault cr cfg env is_email to_lower rq s = (r, s')"
  obtains (idle) "s' = s"
  | (registered) email password u where "rq = RegisterRequest email password" "r = Inr u"
      "register_tx env (normalize_email to_lower email) (cr_hash cr password) s = (Inr u, s')"
proof (cases rq)
  case (RegisterRequest email password)
  show thesis
  proof (cases fault "register_tx env (normalize_email to_lower email) (cr_hash cr password)" s rule: transaction_cases)
    case (abort e)
    with assms RegisterRequest idle show thesis by (auto simp: with_auth_http_def raise_def Let_def split: if_splits)
  next
    case (commit u s2)
    with assms RegisterRequest idle registered show thesis
      by (auto simp: with_auth_http_def raise_def Let_def split: if_splits)
  qed
qed (use assms idle in \<open>auto simp: with_auth_http_def raise_def Let_def login_user_def refresh_user_def
    split: if_splits option.splits sum.splits prod.splits\<close>)

lemma begin_refresh:
  assumes "auth_begin fault cr cfg env is_email to_lower (RefreshRequest tok) s = (Inr u, s')"
  shows "s' = s" "u \<in> set (users s)" "us_refreshToken u = Some (cr_digest cr tok)" "us_isActive u"
  using assms
  by (auto simp: with_auth_http_def refresh_user_def hashToken_def split: option.splits sum.splits prod.splits dest!: find_SomeD)

lemma arrive_progress: "progress cr cfg ru c (arrive fault cr cfg env is_email to_lower rq c)"
proof (cases "auth_begin fault cr cfg env is_email to_lower rq (au_db c)")
  case (Pair r s)
  then show ?thesis
  proof (cases rule: begin_cases)
    case idle
    with Pair show ?thesis by (auto simp: arrive_def progress_def split: sum.splits)
  next
    case (registered email password u)
    note reg = register_tx_Inr [OF registered(3)]
    have "stored cr s tok \<Longrightarrow> stored cr (au_db c) tok" for tok using reg(6,7) by (auto simp: stored_def)
    with Pair registered reg(9) show ?thesis by (auto simp: arrive_def progress_def split: sum.splits)
  qed
qed

lemma auth_step_progress: "auth_step cr cfg ru c c' \<Longrightarrow> crypto_ok cr \<Longrightarrow> uuid_ok ru \<Longrightarrow> progress cr cfg ru c c'"
proof (induction rule: auth_step.cases)
  case (step_auth_tick c)
  then show ?case by (simp add: progress_def stored_def)
qed (simp_all add: sign_progress store_progress store_fails_progress log_out_progress arrive_progress)

lemma auth_run_retired:
  "run (auth_step cr cfg ru) c c' \<Longrightarrow> crypto_ok cr \<Longrightarrow> uuid_ok ru \<Longrightarrow> retired cr cfg ru c i tok \<Longrightarrow> retired cr cfg ru c' i tok"
  by (induction rule: run.induct) (auto intro: progress_retired auth_step_progress)

lemma auth_run_spent:
  "run (auth_step cr cfg ru) c c' \<Longrightarrow> crypto_ok cr \<Longrightarrow> uuid_ok ru \<Longrightarrow> spent cr cfg ru c i tok \<Longrightarrow> spent cr cfg ru c' i tok"
  by (induction rule: run.induct) (auto intro: progress_spent auth_step_progress)

subsection \<open>The invariant\<close>

lemma one_holder_append: "one_holder xs \<Longrightarrow> stage_token (snd x) = None \<Longrightarrow> one_holder (xs @ [x])"
  by (auto simp: one_holder_def nth_append less_Suc_eq)

lemma one_holder_update:
  assumes "one_holder xs" "\<And>tok. stage_token (snd x) = Some tok \<Longrightarrow> \<not> pending xs tok"
  shows "one_holder (xs[i := x])"
  using assms pending_nth [of _ xs] unfolding one_holder_def
  by (cases "i < length xs") (auto simp: nth_list_update split: if_splits)

text \<open>
  A step that stores no new token keeps the conditions of the sessions it does not touch.
\<close>

lemma sessions_kept:
  assumes "server_inv cr cfg ru c" "progress cr cfg ru c c'"
    and "\<And>tok. stored cr (au_db c') tok \<Longrightarrow> stored cr (au_db c) tok"
  shows "\<forall>x \<in> set (au_sessions c). session_ok cr cfg ru c' x"
proof
  fix x assume "x \<in> set (au_sessions c)"
  then have ok: "session_ok cr cfg ru c x" using assms(1) by (simp add: server_inv_def)
  then have "\<not> stored cr (au_db c') tok" if "stage_token (snd x) = Some tok" for tok
    using that assms(3) by (cases x; cases "snd x") auto
  with assms(2) ok show "session_ok cr cfg ru c' x" by (rule session_ok_keeps)
qed

lemma update_ok:
  "\<forall>x \<in> set xs. P x \<Longrightarrow> P y \<Longrightarrow> \<forall>x \<in> set (xs[i := y]). P x"
  using set_update_subset_insert [of xs i y] by blast

lemma others_ok:
  assumes "\<And>j. j < length xs \<Longrightarrow> j \<noteq> i \<Longrightarrow> P (xs ! j)" "P y"
  shows "\<forall>x \<in> set (xs[i := y]). P x"
  using assms unfolding all_set_conv_all_nth by (metis length_list_update nth_list_update_eq nth_list_update_neq)

lemma server_inv_update:
  assumes "auth_inv cr cfg ru s" "one_holder xs" "\<forall>x \<in> set xs. session_ok cr cfg ru c' x" "session_ok cr cfg ru c' x"
    and "\<And>tok. stage_token (snd x) = Some tok \<Longrightarrow> \<not> pending xs tok" "c' = \<lparr>au_db = s, au_sessions = xs[i := x]\<rparr>"
  shows "server_inv cr cfg ru c'"
  using assms(1) update_ok [OF assms(3,4), of i] one_holder_update [OF assms(2,5)] assms(6) by (simp add: server_inv_def)

text \<open>A stored token is spent: it was signed for the user who holds it, and no request will store it again.\<close>

lemma stored_spent:
  assumes "server_inv cr cfg ru c" "u \<in> set (users (au_db c))" "us_refreshToken u = Some (cr_digest cr tok)"
  shows "spent cr cfg ru c (us_id u) tok"
proof -
  have "\<not> pending (au_sessions c) tok"
  proof
    assume "pending (au_sessions c) tok"
    then obtain rq v t where x: "(rq, Storing v t) \<in> set (au_sessions c)" "tk_refreshToken t = tok"
      unfolding pending_def by (metis option.distinct(1) option.inject prod.collapse stage_token.elims)
    then have "session_ok cr cfg ru c (rq, Storing v t)" using assms(1) unfolding server_inv_def by blast
    with x(2) assms(2,3) show False by (auto simp: stored_def)
  qed
  with assms show ?thesis by (auto simp: server_inv_def spent_def auth_inv_def)
qed

lemma arrive_inv:
  assumes inv: "server_inv cr cfg ru c" and ru: "uuid_ok ru" "e_uuid env = ru"
  shows "server_inv cr cfg ru (arrive fault cr cfg env is_email to_lower rq c)"
proof (cases "auth_begin fault cr cfg env is_email to_lower rq (au_db c)")
  case (Pair r s)
  let ?c = "arrive fault cr cfg env is_email to_lower rq c"
  have progress: "progress cr cfg ru c ?c" by (rule arrive_progress)
  have db: "au_db ?c = s" using Pair by (simp add: arrive_def split: sum.splits)
  from Pair have "auth_inv cr cfg ru s \<and> (\<forall>tok. stored cr s tok \<longrightarrow> stored cr (au_db c) tok)"
  proof (cases rule: begin_cases)
    case (registered email password u)
    then show ?thesis
      using register_tx_inv [OF _ ru registered(3)] inv register_tx_Inr(6,7) [OF registered(3)]
      by (auto simp: server_inv_def stored_def)
  qed (use inv in \<open>auto simp: server_inv_def\<close>)
  then have s: "auth_inv cr cfg ru s" "\<And>tok. stored cr s tok \<Longrightarrow> stored cr (au_db c) tok" by blast+
  note kept = sessions_kept [OF inv progress, unfolded db, OF s(2)]
  show ?thesis
  proof (cases r)
    case (Inl e)
    with Pair kept s(1) inv show ?thesis by (auto simp: arrive_def server_inv_def one_holder_append)
  next
    case (Inr u)
    have "spent cr cfg ru c (us_id u) tok" if "rq = RefreshRequest tok" for tok
      using begin_refresh(2,3) [OF Pair [unfolded that Inr]] by (rule stored_spent [OF inv])
    then have "session_ok cr cfg ru ?c (rq, Signing u)" using progress_spent [OF progress] unfolding session_ok.simps by blast
    with Inr Pair kept s(1) inv show ?thesis by (auto simp: arrive_def server_inv_def one_holder_append)
  qed
qed

lemma sign_inv:
  assumes inv: "server_inv cr cfg ru c" and cr: "crypto_ok cr" and ru: "uuid_ok ru" "e_uuid env = ru"
    and i: "i < length (au_sessions c)"
  shows "server_inv cr cfg ru (sign_session cr cfg env i c)"
proof -
  let ?c = "sign_session cr cfg env i c"
  have progress: "progress cr cfg ru c ?c" by (rule sign_progress [OF cr ru i])
  obtain rq st where s: "au_sessions c ! i = (rq, st)" by (cases "au_sessions c ! i")
  have ok: "session_ok cr cfg ru c (rq, st)" using inv i s nth_mem [OF i] by (simp add: server_inv_def)
  show ?thesis
  proof (cases st)
    case (Signing u)
    obtain r s' where sign: "sign_tokens cr cfg env u (au_db c) = (r, s')" by force
    have s': "s' = (au_db c)\<lparr>seq := Suc (seq (au_db c))\<rparr>" using sign_tokens_state [of cr cfg env u "au_db c"] sign by simp
    have db: "au_db ?c = s'" using s Signing sign by (simp add: sign_session_def with_auth_http_def split: sum.splits)
    have stored: "stored cr s' tok \<longleftrightarrow> stored cr (au_db c) tok" for tok by (simp add: s' stored_def)
    have inv': "auth_inv cr cfg ru s'" unfolding s' using inv by (intro auth_inv_seq) (auto simp: server_inv_def)
    have kept: "\<forall>x \<in> set (au_sessions c). session_ok cr cfg ru ?c x"
      by (rule sessions_kept [OF inv progress]) (simp add: db stored)
    have one: "one_holder (au_sessions c)" using inv by (simp add: server_inv_def)
    show ?thesis
    proof (cases r)
      case (Inl e)
      then have c: "?c = \<lparr>au_db = s', au_sessions = (au_sessions c)[i := (rq, Answered (Inl (auth_http e)))]\<rparr>"
        using s Signing sign by (simp add: sign_session_def with_auth_http_def)
      show ?thesis by (rule server_inv_update [OF inv' one kept _ _ c]) simp_all
    next
      case (Inr t)
      then have c: "?c = \<lparr>au_db = s', au_sessions = (au_sessions c)[i := (rq, Storing u t)]\<rparr>"
        using s Signing sign by (simp add: sign_session_def with_auth_http_def)
      note fresh = new_token_differs [OF cr ru sign [unfolded Inr]]
      have "\<not> stored cr s' (tk_refreshToken t)" using stored_token_of [of cr cfg ru "au_db c"] fresh inv
        by (auto simp: stored server_inv_def)
      moreover have "spent cr cfg ru ?c (us_id u) tok" if "rq = RefreshRequest tok" for tok
        using ok Signing that progress_spent [OF progress] by simp
      ultimately have "session_ok cr cfg ru ?c (rq, Storing u t)"
        using signed_token_of [OF sign [unfolded Inr] ru(2)] by (simp add: db s')
      moreover have "\<not> pending (au_sessions c) (tk_refreshToken t)"
      proof
        assume "pending (au_sessions c) (tk_refreshToken t)"
        then obtain rq v x where "(rq, Storing v x) \<in> set (au_sessions c)" "tk_refreshToken x = tk_refreshToken t"
          unfolding pending_def by (metis option.distinct(1) option.inject prod.collapse stage_token.elims)
        moreover from this(1) have "session_ok cr cfg ru c (rq, Storing v x)" using inv unfolding server_inv_def by blast
        ultimately show False using fresh by simp
      qed
      ultimately show ?thesis by (intro server_inv_update [OF inv' one kept _ _ c]) simp_all
    qed
  qed (simp_all add: sign_session_def s inv)
qed

text \<open>
  When a session of a user stores its token, or the user logs out, what was signed for the user before
  and is not about to be stored is retired.
\<close>

lemma others_unstored:
  assumes "auth_inv cr cfg ru (au_db c)" "crypto_ok cr" "spent cr cfg ru c i tok"
    and "v \<in> set (users (au_db c))" "us_refreshToken v = Some (cr_digest cr tok)"
  shows "us_id v = i"
  using assms token_owner [OF assms(2)] unfolding auth_inv_def spent_def by blast

lemma store_retires:
  assumes inv: "auth_inv cr cfg ru (au_db c)" and cr: "crypto_ok cr"
    and j: "j < length (au_sessions c)" "au_sessions c ! j = (rq, Storing u t)"
    and spent: "spent cr cfg ru c (us_id u) tok"
  shows "tk_refreshToken t \<noteq> tok \<and> retired cr cfg ru (store_session cr env j c) (us_id u) tok"
proof -
  have "pending (au_sessions c) (tk_refreshToken t)" using j by (intro pending_nth) auto
  with spent have new: "tk_refreshToken t \<noteq> tok" by (auto simp: spent_def)
  then have "\<not> stored cr (set_refreshToken env (us_id u) (Some (cr_digest cr (tk_refreshToken t))) (au_db c)) tok"
    using stored_set_refreshToken [OF cr] others_unstored [OF inv cr spent] by blast
  then have "\<not> stored cr (au_db (store_session cr env j c)) tok"
    using j by (simp add: store_session_def with_auth_http_def store_tokens_def hashToken_def)
  with new progress_spent [OF store_progress [OF cr j(1)] spent] show ?thesis by (simp add: retired_def)
qed

lemma log_out_retires:
  assumes inv: "auth_inv cr cfg ru (au_db c)" and cr: "crypto_ok cr" and "i \<noteq> ''''" and spent: "spent cr cfg ru c i tok"
  shows "retired cr cfg ru (log_out env (Some i) c) i tok"
proof -
  have "\<not> stored cr (set_refreshToken env i None (au_db c)) tok"
    using stored_cleared others_unstored [OF inv cr spent] by blast
  then have "\<not> stored cr (au_db (log_out env (Some i) c)) tok"
    using assms(3) by (simp add: log_out_def AuthController_logout_def AuthService_logout_def with_auth_http_def)
  with progress_spent [OF log_out_progress spent] show ?thesis by (simp add: retired_def)
qed

lemma store_inv:
  assumes inv: "server_inv cr cfg ru c" and cr: "crypto_ok cr" and i: "i < length (au_sessions c)"
  shows "server_inv cr cfg ru (store_session cr env i c)"
proof -
  let ?c = "store_session cr env i c"
  have progress: "progress cr cfg ru c ?c" by (rule store_progress [OF cr i])
  obtain rq st where s: "au_sessions c ! i = (rq, st)" by (cases "au_sessions c ! i")
  have ok: "session_ok cr cfg ru c (rq, st)" using inv i s nth_mem [OF i] by (simp add: server_inv_def)
  have one: "one_holder (au_sessions c)" using inv by (simp add: server_inv_def)
  show ?thesis
  proof (cases st)
    case (Storing u t)
    let ?s = "set_refreshToken env (us_id u) (Some (cr_digest cr (tk_refreshToken t))) (au_db c)"
    have c: "?c = \<lparr>au_db = ?s, au_sessions = (au_sessions c)[i := (rq, Answered (Inr t))]\<rparr>"
      using s Storing by (simp add: store_session_def with_auth_http_def store_tokens_def hashToken_def)
    have "token_of cr cfg ru (seq (au_db c)) (us_id u) (cr_digest cr (tk_refreshToken t))" using ok Storing by simp
    then have inv': "auth_inv cr cfg ru ?s" using inv by (intro set_refreshToken_inv) (auto simp: server_inv_def)
    have "session_ok cr cfg ru ?c (au_sessions c ! j)" if j: "j < length (au_sessions c)" "j \<noteq> i" for j
    proof (rule session_ok_keeps [OF progress])
      show j_ok: "session_ok cr cfg ru c (au_sessions c ! j)" using inv j nth_mem by (simp add: server_inv_def)
      fix tok assume tok: "stage_token (snd (au_sessions c ! j)) = Some tok"
      have "tok \<noteq> tk_refreshToken t" using one i j tok s Storing by (auto simp: one_holder_def)
      moreover have "\<not> stored cr (au_db c) tok"
        using j_ok tok by (cases "au_sessions c ! j"; cases "snd (au_sessions c ! j)") auto
      ultimately show "\<not> stored cr (au_db ?c) tok" by (auto simp: c dest: stored_new [OF cr])
    qed
    moreover have "session_ok cr cfg ru ?c (rq, Answered (Inr t))"
      using ok store_retires [OF _ cr i s [unfolded Storing], of cfg ru _ env] inv Storing unfolding server_inv_def by auto
    ultimately have "\<forall>x \<in> set ((au_sessions c)[i := (rq, Answered (Inr t))]). session_ok cr cfg ru ?c x"
      by (rule others_ok)
    then show ?thesis using inv' one_holder_update [OF one, of "(rq, Answered (Inr t))" i]
      by (simp add: server_inv_def c)
  qed (simp_all add: store_session_def s inv)
qed

lemma store_fails_inv:
  assumes inv: "server_inv cr cfg ru c"
  shows "server_inv cr cfg ru (store_fails message i c)"
proof (cases "\<exists>rq u t. au_sessions c ! i = (rq, Storing u t)")
  case True
  then obtain rq u t where s: "au_sessions c ! i = (rq, Storing u t)" by blast
  let ?c = "store_fails message i c"
  have "?c = \<lparr>au_db = au_db c, au_sessions = (au_sessions c)[i := (rq, Answered (Inl (auth_http (AuthFailure message))))]\<rparr>"
    using s by (simp add: store_fails_def)
  then show ?thesis
    using inv sessions_kept [OF inv store_fails_progress, of message i]
    by (intro server_inv_update [of _ _ _ _ "au_sessions c"]) (auto simp: server_inv_def)
next
  case False
  then have "store_fails message i c = c" by (auto simp: store_fails_def split: prod.splits auth_stage.splits)
  with inv show ?thesis by simp
qed

text \<open>The two steps that leave the sessions alone store nothing.\<close>

lemma idle_sessions_inv:
  assumes "server_inv cr cfg ru c" "progress cr cfg ru c c'" "au_sessions c' = au_sessions c" "auth_inv cr cfg ru (au_db c')"
    and "\<And>tok. stored cr (au_db c') tok \<Longrightarrow> stored cr (au_db c) tok"
  shows "server_inv cr cfg ru c'"
  using assms(1,3,4) sessions_kept [OF assms(1,2,5)] by (simp add: server_inv_def)

lemma log_out_inv:
  assumes "server_inv cr cfg ru c"
  shows "server_inv cr cfg ru (log_out env userId c)"
  using assms
  by (intro idle_sessions_inv [OF assms log_out_progress])
    (auto simp: log_out_def AuthController_logout_def AuthService_logout_def with_auth_http_def raise_def server_inv_def
      intro!: set_refreshToken_inv dest: stored_old split: option.splits if_splits)

lemma auth_step_inv:
  assumes "auth_step cr cfg ru c c'" "crypto_ok cr" "uuid_ok ru" "server_inv cr cfg ru c"
  shows "server_inv cr cfg ru c'"
  using assms(1)
proof cases
  case (step_auth_tick b db_fault locked p bus)
  with assms show ?thesis
    by (intro idle_sessions_inv [OF assms(4) auth_step_progress [OF assms(1-3)]])
      (auto simp: server_inv_def stored_def intro: tick_inv)
qed (use assms in \<open>auto intro: arrive_inv sign_inv store_inv store_fails_inv log_out_inv\<close>)

text \<open>What the tables say of the accounts does not depend on the libraries.\<close>

lemma auth_step_accounts:
  assumes "auth_step cr cfg ru c c'" "uuid_ok ru" "accounts_inv ru (au_db c)"
  shows "accounts_inv ru (au_db c')"
  using assms(1)
proof cases
  case (step_arrive env fault is_email to_lower rq)
  obtain r s where run: "auth_begin fault cr cfg env is_email to_lower rq (au_db c) = (r, s)" by force
  then have "accounts_inv ru s"
    using assms(2,3) step_arrive(2) by (cases rule: begin_cases) (auto intro: register_tx_accounts)
  with step_arrive(1) run show ?thesis by (auto simp: arrive_def split: sum.splits)
next
  case (step_sign env i)
  have "accounts_inv ru (snd (sign_tokens cr cfg env u (au_db c)))" for u
    using accounts_inv_seq [OF assms(3)] by (simp add: sign_tokens_state)
  then have "accounts_inv ru (snd (with_auth_http (sign_tokens cr cfg env u) (au_db c)))" for u
    by (simp add: with_auth_http_def split: prod.splits sum.splits) (metis snd_conv)
  with step_sign(1) assms(3) show ?thesis
    by (auto simp: sign_session_def split: prod.splits auth_stage.splits sum.splits) (metis snd_conv)+
next
  case (step_store i env)
  with assms(3) show ?thesis
    by (auto simp: store_session_def with_auth_http_def store_tokens_def accounts_set_refreshToken split: prod.splits auth_stage.splits)
next
  case (step_store_fails i message)
  with assms(3) show ?thesis by (auto simp: store_fails_def split: prod.splits auth_stage.splits)
next
  case (step_logout env userId)
  with assms(3) show ?thesis
    by (auto simp: log_out_def AuthController_logout_def AuthService_logout_def with_auth_http_def raise_def accounts_set_refreshToken
        split: option.splits)
next
  case (step_auth_tick b db_fault locked p bus)
  with assms(3) show ?thesis by (simp add: tick_accounts)
qed

text \<open>The service starts with empty tables and no request.\<close>

definition auth_initial :: "auth_server \<Rightarrow> bool" where
  "auth_initial c \<longleftrightarrow> users (au_db c) = [] \<and> outbox (au_db c) = [] \<and> au_sessions c = []"

interpretation auth_machine: transition_system "auth_step cr cfg ru" auth_initial
  "\<lambda>c. crypto_ok cr \<longrightarrow> uuid_ok ru \<longrightarrow> server_inv cr cfg ru c" for cr cfg ru
  by unfold_locales (simp add: auth_initial_def server_inv_def auth_inv_def accounts_inv_def one_holder_def, blast intro: auth_step_inv)

lemma auth_reachable:
  "crypto_ok cr \<Longrightarrow> uuid_ok ru \<Longrightarrow> auth_initial c0 \<Longrightarrow> run (auth_step cr cfg ru) c0 c \<Longrightarrow> server_inv cr cfg ru c"
  using auth_machine.reachable_inv by blast

interpretation accounts_machine: transition_system "auth_step cr cfg ru" auth_initial
  "\<lambda>c. uuid_ok ru \<longrightarrow> accounts_inv ru (au_db c)" for cr cfg ru
  by unfold_locales (simp add: auth_initial_def accounts_inv_def, blast intro: auth_step_accounts)

end
