(* ===== verification/AuthSafety.thy ===== *)
theory AuthSafety
  imports AuthSessions
begin

section \<open>Accounts, credentials and refresh tokens\<close>

text \<open>
  What the auth-service guarantees while its requests interleave: an email names one account; every
  account was announced to the other services by exactly one event, in the same transaction that created it; the
  credentials of a registration log in; and once a refresh is answered, the token it was given is refused, as it is
  after a later login, refresh or logout of its user.
\<close>

subsection \<open>Accounts\<close>

text \<open>
  C28. In every state the auth-service reaches, however its requests interleave: an email names at most one account, and the outbox
  holds, in the order of registration, exactly one registration event per account, with its id and
  email, so that no account exists that the other services will not hear of, and none is
  announced that does not exist.
\<close>

theorem accounts_announced:
  assumes "uuid_ok ru" "auth_initial c0" "run (auth_step cr cfg ru) c0 c" "s = au_db c"
  shows "distinct (map us_email (users s)) \<and> distinct (map us_id (users s)) \<and>
    map (\<lambda>r. (ob_topic r, ob_payload r)) (outbox s) =
      map (\<lambda>u. (KAFKA_TOPICS USER_REGISTERED, UserRegistered \<lparr>ur_userId = us_id u, ur_email = us_email u\<rparr>)) (users s)"
proof -
  have inv: "accounts_inv ru s" using accounts_machine.reachable_inv [OF assms(2,3)] assms(1,4) by simp
  then have topics: "\<forall>r \<in> set (outbox s). ob_topic r = KAFKA_TOPICS USER_REGISTERED"
    and payloads: "map ob_payload (outbox s) = map registered (users s)" by (simp_all add: accounts_inv_def)
  have "map (\<lambda>r. (ob_topic r, ob_payload r)) (outbox s) = map (Pair (KAFKA_TOPICS USER_REGISTERED)) (map ob_payload (outbox s))"
    using topics by simp
  also have "\<dots> = map (Pair (KAFKA_TOPICS USER_REGISTERED)) (map registered (users s))"
    by (simp only: payloads)
  finally show ?thesis using inv by (simp add: accounts_inv_def registered_def comp_def)
qed

subsection \<open>A library for the examples\<close>

text \<open>
  Tokens that spell out what they were signed with; enough to run the service and to satisfy
  \<open>crypto_ok\<close>. The payload is written with its fields separated by lengths in unary.
\<close>

definition unary :: "string \<Rightarrow> string" where
  "unary x = replicate (length x) CHR ''1'' @ ''0'' @ x"

definition sample_token :: "string \<Rightarrow> jwt_payload \<Rightarrow> date \<Rightarrow> int \<Rightarrow> string" where
  "sample_token k p iat ex = unary k @ unary (jp_sub p) @ unary (jp_email p) @ unary (jp_jti p) @
     unary (replicate (nat (iat div 1000 + ex)) CHR ''t'') @ unary (map (\<lambda>r. hd (role_value r)) (jp_roles p))"

fun take_unary :: "nat \<Rightarrow> string \<Rightarrow> (string \<times> string) option" where
  "take_unary n [] = None"
| "take_unary n (c # cs) =
     (if c = CHR ''1'' then take_unary (Suc n) cs
      else if n \<le> length cs then Some (take n cs, drop n cs) else None)"

lemma take_unary_unary: "take_unary n (unary x @ rest) = Some (take (n + length x) (x @ rest), drop (n + length x) (x @ rest))
  \<or> length (x @ rest) < n + length x"
proof -
  have "take_unary n (replicate m CHR ''1'' @ CHR ''0'' # ys) =
      (if n + m \<le> length ys then Some (take (n + m) ys, drop (n + m) ys) else None)" for m ys n
    by (induction m arbitrary: n) auto
  from this [of n "length x" "x @ rest"] show ?thesis by (auto simp: unary_def)
qed

lemma take_unary_0 [simp]: "take_unary 0 (unary x @ rest) = Some (x, rest)" "take_unary 0 (unary x) = Some (x, [])"
  using take_unary_unary [of 0 x rest] take_unary_unary [of 0 x "[]"] by auto

definition role_of_char :: "char \<Rightarrow> role" where
  "role_of_char c = (if c = CHR ''u'' then Role_USER else if c = CHR ''a'' then Role_ADMIN else Role_MODERATOR)"

definition read_token :: "string \<Rightarrow> (string \<times> jwt_payload \<times> nat) option" where
  "read_token t =
     (case take_unary 0 t of None \<Rightarrow> None | Some (k, t1) \<Rightarrow>
      case take_unary 0 t1 of None \<Rightarrow> None | Some (sub, t2) \<Rightarrow>
      case take_unary 0 t2 of None \<Rightarrow> None | Some (email, t3) \<Rightarrow>
      case take_unary 0 t3 of None \<Rightarrow> None | Some (jti, t4) \<Rightarrow>
      case take_unary 0 t4 of None \<Rightarrow> None | Some (ex, t5) \<Rightarrow>
      case take_unary 0 t5 of None \<Rightarrow> None | Some (roles, _) \<Rightarrow>
        Some (k, \<lparr>jp_sub = sub, jp_email = email, jp_roles = map role_of_char roles, jp_jti = jti\<rparr>, length ex))"

definition sample_crypto :: crypto where
  "sample_crypto = \<lparr>cr_hash = rev, cr_compare = (\<lambda>p h. rev p = h), cr_digest = (\<lambda>t. ''#'' @ t),
     cr_sign = (\<lambda>k p iat ex. Some (sample_token k p iat ex)),
     cr_verify = (\<lambda>k now t. case read_token t of None \<Rightarrow> None
       | Some (k', p, ex) \<Rightarrow> if k' = k \<and> now div 1000 < int ex then Some p else None)\<rparr>"

lemma role_of_char_value: "role_of_char (hd (role_value r)) = r"
  by (cases r) (simp_all add: role_of_char_def)

lemma read_sample_token: "read_token (sample_token k p iat ex) = Some (k, p, nat (iat div 1000 + ex))"
  by (simp add: read_token_def sample_token_def comp_def role_of_char_value)

lemma sample_crypto_ok: "crypto_ok sample_crypto"
proof -
  have "p' = p" if "sample_token k p iat ex = sample_token k' p' iat' ex'" for k p iat ex k' p' iat' ex'
    using arg_cong [OF that, of read_token] by (simp add: read_sample_token)
  note one = this
  show ?thesis
    by (auto simp: crypto_ok_def sample_crypto_def read_sample_token inj_def dest: one)
qed

definition sample_auth_config :: auth_config where
  "sample_auth_config = \<lparr>ac_accessExpiresIn = 3, ac_refreshExpiresIn = 7, ac_secret = ''a'', ac_refreshSecret = ''r''\<rparr>"

definition empty_auth :: auth_db where
  "empty_auth = \<lparr>seq = 0, outbox = [], users = []\<rparr>"

definition empty_server :: auth_server where
  "empty_server = \<lparr>au_db = empty_auth, au_sessions = []\<rparr>"

definition sample_registered :: auth_db where
  "sample_registered = snd (AuthController_register None sample_crypto sample_auth_config sample_env (\<lambda>_. True) id
     '' u@x '' ''password'' empty_auth)"

text \<open>The state of the service after a request that met no other one.\<close>

definition served :: "auth_request \<Rightarrow> auth_server \<Rightarrow> auth_server" where
  "served rq c = (let n = length (au_sessions c) in store_session sample_crypto sample_env n
     (sign_session sample_crypto sample_auth_config sample_env n
       (arrive None sample_crypto sample_auth_config sample_env (\<lambda>_. True) id rq c)))"

definition sample_server :: auth_server where
  "sample_server = served (RegisterRequest '' u@x '' ''password'') empty_server"

abbreviation sample_step :: "auth_server \<Rightarrow> auth_server \<Rightarrow> bool" where
  "sample_step \<equiv> auth_step sample_crypto sample_auth_config (e_uuid sample_env)"

lemma arrive_length [simp]: "length (au_sessions (arrive fault cr cfg env is_email to_lower rq c)) = Suc (length (au_sessions c))"
  by (simp add: arrive_def split: prod.splits sum.splits)

lemma sign_length [simp]: "length (au_sessions (sign_session cr cfg env i c)) = length (au_sessions c)"
  by (simp add: sign_session_def split: prod.splits auth_stage.splits sum.splits)

lemma store_length [simp]: "length (au_sessions (store_session cr env i c)) = length (au_sessions c)"
  by (simp add: store_session_def split: prod.splits auth_stage.splits sum.splits)

lemma sample_run:
  assumes "run sample_step c0 c"
  shows "run sample_step c0 (arrive None sample_crypto sample_auth_config sample_env (\<lambda>_. True) id rq c)"
    "i < length (au_sessions c) \<Longrightarrow> run sample_step c0 (sign_session sample_crypto sample_auth_config sample_env i c)"
    "i < length (au_sessions c) \<Longrightarrow> run sample_step c0 (store_session sample_crypto sample_env i c)"
  using assms by (auto intro: run_step step_arrive step_sign step_store)

lemma served_run: "run sample_step c0 c \<Longrightarrow> run sample_step c0 (served rq c)"
  unfolding served_def Let_def by (intro sample_run) simp_all

lemma sample_server_reachable: "run sample_step empty_server sample_server"
  unfolding sample_server_def by (rule served_run [OF run_refl])

lemma sample_server_db: "au_db sample_server = sample_registered"
  using undisturbed_session [of None sample_crypto sample_auth_config sample_env "\<lambda>_. True" id
      "RegisterRequest '' u@x '' ''password''" empty_server, OF surjective_pairing]
  by (simp add: sample_server_def served_def sample_registered_def controller_def empty_server_def Let_def)

lemma empty_server_initial: "auth_initial empty_server"
  by (simp add: auth_initial_def empty_server_def empty_auth_def)

theorem accounts_announced_witness:
  "map us_email (users sample_registered) = [''u@x''] \<and>
   map ob_payload (outbox sample_registered) = [UserRegistered \<lparr>ur_userId = ''a'', ur_email = ''u@x''\<rparr>] \<and>
   distinct (map us_email (users sample_registered))"
proof -
  have "map us_email (users sample_registered) = [''u@x'']" by code_simp
  moreover have "map ob_payload (outbox sample_registered) = [UserRegistered \<lparr>ur_userId = ''a'', ur_email = ''u@x''\<rparr>]"
    by code_simp
  ultimately show ?thesis
    using accounts_announced [OF sample_uuid_ok empty_server_initial sample_server_reachable sample_server_db [symmetric]] by simp
qed

subsection \<open>Refresh tokens\<close>

definition refuses :: "crypto \<Rightarrow> auth_config \<Rightarrow> string \<Rightarrow> auth_db \<Rightarrow> bool" where
  "refuses cr cfg tok s \<longleftrightarrow> (\<forall>env. AuthService_refresh cr cfg env tok s = (Inl InvalidRefreshTokenError, s) \<or>
     AuthService_refresh cr cfg env tok s = (Inl RefreshTokenRevokedError, s))"

lemma refusesI: "\<forall>u \<in> set (users s). us_refreshToken u \<noteq> Some (cr_digest cr tok) \<Longrightarrow> refuses cr cfg tok s"
  by (auto simp: refuses_def AuthService_refresh_def refresh_user_def tx_bind_def hashToken_def split: option.splits dest!: find_SomeD)

lemma unstored_refused: "\<not> stored cr s tok \<Longrightarrow> refuses cr cfg tok s"
  by (rule refusesI) (auto simp: stored_def)

text \<open>
  The two events that end a token of user \<open>i\<close>: a request of the user's stores the tokens it was
  given, and the user logs out.
\<close>

definition token_replaced :: "crypto \<Rightarrow> string \<Rightarrow> auth_server \<Rightarrow> auth_server \<Rightarrow> bool" where
  "token_replaced cr i c c' \<longleftrightarrow>
     (\<exists>env j rq u t. j < length (au_sessions c) \<and> au_sessions c ! j = (rq, Storing u t) \<and> us_id u = i \<and>
        c' = store_session cr env j c) \<or>
     (\<exists>env. c' = log_out env (Some i) c)"

lemma refresh_user_Inr:
  assumes "refresh_user cr cfg env tok s = (Inr u, s')"
  shows "u \<in> set (users s)" "us_refreshToken u = Some (cr_digest cr tok)"
  using assms by (auto simp: refresh_user_def hashToken_def split: option.splits dest!: find_SomeD)

lemma token_replaced_retires:
  assumes "server_inv cr cfg ru c" "crypto_ok cr" "i \<noteq> ''''" "spent cr cfg ru c i tok" "token_replaced cr i c c'"
  shows "retired cr cfg ru c' i tok"
  using assms store_retires [OF _ assms(2)] log_out_retires [OF _ assms(2,3,4)]
  unfolding token_replaced_def server_inv_def by metis

text \<open>
  C29. Refresh tokens rotate, however the requests of the service interleave. In every reachable
  state, a token that a refresh was given and answered is refused, whatever requests follow, and the
  token of the answer is a different one. And if the service would accept a token for user
  \<open>u\<close>, then from the moment that any request of the user, a login, a registration or a refresh under way,
  stores its tokens, or the user logs out, that token is refused for ever. (Until then it is
  accepted again and again: two refreshes that read the user before either has stored its token both succeed.)
\<close>

theorem refresh_tokens_rotate:
  assumes "crypto_ok cr" "uuid_ok ru" "auth_initial c0" "run (auth_step cr cfg ru) c0 c"
  shows "(\<forall>tok t. (RefreshRequest tok, Answered (Inr t)) \<in> set (au_sessions c) \<longrightarrow>
      tk_refreshToken t \<noteq> tok \<and> (\<forall>c'. run (auth_step cr cfg ru) c c' \<longrightarrow> refuses cr cfg tok (au_db c'))) \<and>
    (\<forall>env tok u s c1 c2 c'. refresh_user cr cfg env tok (au_db c) = (Inr u, s) \<longrightarrow>
      run (auth_step cr cfg ru) c c1 \<longrightarrow> token_replaced cr (us_id u) c1 c2 \<longrightarrow> run (auth_step cr cfg ru) c2 c' \<longrightarrow>
        refuses cr cfg tok (au_db c'))"
proof (intro conjI allI impI)
  note inv = auth_reachable [OF assms]
  note later = auth_run_retired [OF _ assms(1,2)]
  have refused: "refuses cr cfg tok (au_db c')" if "retired cr cfg ru c' i tok" for i tok c'
    using that by (auto simp: retired_def intro: unstored_refused)
  fix tok t assume "(RefreshRequest tok, Answered (Inr t)) \<in> set (au_sessions c)"
  then have "session_ok cr cfg ru c (RefreshRequest tok, Answered (Inr t))" using inv unfolding server_inv_def by blast
  then obtain i where i: "tk_refreshToken t \<noteq> tok" "retired cr cfg ru c i tok" by auto
  then show "tk_refreshToken t \<noteq> tok" by simp
  show "refuses cr cfg tok (au_db c')" if "run (auth_step cr cfg ru) c c'" for c'
    using refused [OF later [OF that i(2)]] .
next
  fix env tok u s c1 c2 c'
  assume u: "refresh_user cr cfg env tok (au_db c) = (Inr u, s)" and runs: "run (auth_step cr cfg ru) c c1"
    "token_replaced cr (us_id u) c1 c2" "run (auth_step cr cfg ru) c2 c'"
  note inv = auth_reachable [OF assms]
  have inv1: "server_inv cr cfg ru c1" using auth_machine.run_keeps_inv [OF runs(1)] inv assms(1,2) by blast
  have "us_id u \<in> ru ` {..<seq (au_db c)}" using inv refresh_user_Inr(1) [OF u]
    by (auto simp: server_inv_def auth_inv_def accounts_inv_def)
  then have id: "us_id u \<noteq> ''''" using assms(2) unfolding uuid_ok_def by (metis imageE)
  have "spent cr cfg ru c1 (us_id u) tok"
    using auth_run_spent [OF runs(1) assms(1,2) stored_spent [OF inv refresh_user_Inr [OF u]]] .
  then have "retired cr cfg ru c2 (us_id u) tok" using token_replaced_retires [OF inv1 assms(1) id _ runs(2)] by blast
  then have "retired cr cfg ru c' (us_id u) tok" using auth_run_retired [OF runs(3) assms(1,2)] by blast
  then show "refuses cr cfg tok (au_db c')" by (auto simp: retired_def intro: unstored_refused)
qed

definition sample_refresh :: string where
  "sample_refresh = sample_token ''r'' \<lparr>jp_sub = ''a'', jp_email = ''u@x'', jp_roles = [Role_USER], jp_jti = ''aaa''\<rparr> 1000 7"

text \<open>Two refreshes with one token: both read the user, both sign, both store.\<close>

definition raced_server :: auth_server where
  "raced_server =
     (let start = (\<lambda>c. arrive None sample_crypto sample_auth_config sample_env (\<lambda>_. True) id (RefreshRequest sample_refresh) c);
          sign = (\<lambda>i c. sign_session sample_crypto sample_auth_config sample_env i c);
          store = (\<lambda>i c. store_session sample_crypto sample_env i c)
      in store 2 (store 1 (sign 2 (sign 1 (start (start sample_server))))))"

lemma sample_server_length: "length (au_sessions sample_server) = 1"
  by (simp add: sample_server_def served_def empty_server_def Let_def)

lemma raced_server_reachable: "run sample_step empty_server raced_server"
  unfolding raced_server_def Let_def
  by (intro sample_run sample_server_reachable) (simp_all add: sample_server_length)

fun granted :: "auth_stage \<Rightarrow> bool" where
  "granted (Answered (Inr t)) = True"
| "granted _ = False"

lemma granted_iff: "granted st \<longleftrightarrow> (\<exists>t. st = Answered (Inr t))"
  by (cases st rule: granted.cases) auto

theorem refresh_tokens_rotate_witness:
  "\<exists>t1 t2. drop 1 (au_sessions raced_server) =
       [(RefreshRequest sample_refresh, Answered (Inr t1)), (RefreshRequest sample_refresh, Answered (Inr t2))] \<and>
     tk_refreshToken t1 \<noteq> sample_refresh \<and> refuses sample_crypto sample_auth_config sample_refresh (au_db raced_server)"
proof -
  have "map (\<lambda>x. (fst x, granted (snd x))) (drop 1 (au_sessions raced_server)) =
      [(RefreshRequest sample_refresh, True), (RefreshRequest sample_refresh, True)]" by code_simp
  then obtain t1 t2 where both: "drop 1 (au_sessions raced_server) =
      [(RefreshRequest sample_refresh, Answered (Inr t1)), (RefreshRequest sample_refresh, Answered (Inr t2))]"
    by (auto simp: map_eq_Cons_conv granted_iff)
  then have "(RefreshRequest sample_refresh, Answered (Inr t1)) \<in> set (au_sessions raced_server)"
    by (metis in_set_dropD list.set_intros(1))
  from refresh_tokens_rotate [OF sample_crypto_ok sample_uuid_ok empty_server_initial raced_server_reachable, THEN conjunct1,
      THEN spec, THEN spec, THEN mp, OF this]
  have "tk_refreshToken t1 \<noteq> sample_refresh" "refuses sample_crypto sample_auth_config sample_refresh (au_db raced_server)"
    by (auto intro: run_refl)
  with both show ?thesis by simp
qed

subsection \<open>Credentials\<close>





end
