(* ===== verification/OrderFlow.thy ===== *)
theory OrderFlow
  imports OrderApi SagaTermination ProductMachine PaymentSafety AuthSafety
begin

section \<open>The services together\<close>

text \<open>
  Properties of the messages that cross services. Every row any of the four outboxes ever holds
  has a payload of the interface its topic's subscribers cast it to, redelivered replies
  included. And the amount of an order survives the way through three services, from the prices
  of the products to the charge of the wallet, to the cent, although each of them computes in
  binary64.
\<close>

subsection \<open>Topics and interfaces\<close>

definition typed_rows :: "outbox_entity list \<Rightarrow> bool" where
  "typed_rows rows \<longleftrightarrow> (\<forall>r \<in> set rows. ob_topic r = KAFKA_TOPICS (payload_topic (ob_payload r)))"

definition typed_replies :: "'a idem_db_scheme \<Rightarrow> bool" where
  "typed_replies s \<longleftrightarrow> typed_rows (outbox s) \<and>
     (\<forall>k \<in> set (idempotency_keys s). ik_replyTopic k = KAFKA_TOPICS (payload_topic (ik_replyPayload k)))"

lemma typed_replies_cong:
  "outbox s' = outbox s \<Longrightarrow> idempotency_keys s' = idempotency_keys s \<Longrightarrow> typed_replies s' = typed_replies s"
  by (simp add: typed_replies_def)

lemma typed_write:
  "typed_rows rows \<Longrightarrow> t = KAFKA_TOPICS (payload_topic p) \<Longrightarrow> typed_rows (rows @ [new_outbox_row env n a t k p])"
  by (auto simp: typed_rows_def new_outbox_row_def)

lemma typed_ident: "map ob_ident rows' = map ob_ident rows \<Longrightarrow> typed_rows rows \<Longrightarrow> typed_rows rows'"
proof -
  assume eq: "map ob_ident rows' = map ob_ident rows" and rows: "typed_rows rows"
  have "\<exists>x \<in> set rows. ob_ident x = ob_ident r" if "r \<in> set rows'" for r
    using that arg_cong [OF eq, of set] by (metis image_eqI image_iff list.set_map)
  then show "typed_rows rows'" using rows unfolding typed_rows_def by (metis ob_ident_def prod.inject)
qed

lemma typed_tick: "typed_rows rows \<Longrightarrow> typed_rows (fst (snd (abstract_processPending env b db_fault locked p (rows, bus))))"
  by (rule typed_ident [OF tick_rows]) simp

lemma typed_reply:
  assumes "typed_replies s" "t = payload_topic p"
  shows "typed_replies (reply_with env c t p s)"
  using assms
  by (auto simp: typed_replies_def reply_with_def IdempotencyService_save_def save_row_def update_where_def
      intro!: typed_write split: option.splits)

lemma typed_replay:
  assumes "typed_replies s" "IdempotencyService_find k s = Some (t, p)"
  shows "typed_replies (OutboxService_write env a t a p s)"
proof -
  obtain r where "r \<in> set (idempotency_keys s)" "t = ik_replyTopic r" "p = ik_replyPayload r"
    using assms(2) by (auto simp: IdempotencyService_find_def split: option.splits dest: row_of_in)
  then have "t = KAFKA_TOPICS (payload_topic p)" using assms(1) by (simp add: typed_replies_def)
  then show ?thesis using assms(1) by (simp add: typed_replies_def typed_write)
qed

text \<open>A transaction whose committed state is typed leaves a typed state.\<close>

lemma typed_transaction:
  assumes "typed_replies s" "\<And>a s'. m s = (Inr a, s') \<Longrightarrow> typed_replies s'"
  shows "typed_replies (snd (transaction fault m s))"
  using assms by (cases "m s"; cases "fst (m s)") (auto simp: transaction_def split: option.splits)

lemma processed_topic [simp]: "payload_topic (processed_reply c t) = PAYMENT_PROCESSED"
  by (simp add: processed_reply_def)

lemma failed_topic [simp]: "payload_topic (failed_reply c r) = PAYMENT_FAILED"
  by (simp add: failed_reply_def)

lemma payment_tx_typed:
  assumes "typed_replies s" "payment_tx env c s = (Inr u, s')"
  shows "typed_replies s'"
proof (cases "IdempotencyService_find (commandId c) s")
  case (Some reply)
  then show ?thesis using assms typed_replay [OF assms(1)] by (cases reply) (auto simp: payment_tx_def)
next
  case None
  have "payment_tx env c s = (Inr (), s')" using assms(2) by simp
  with None show ?thesis
  proof (cases rule: payment_tx_fresh)
    case (paid t v)
    from processPayment_frame [OF paid(1)] have "typed_replies v" using assms(1) typed_replies_cong by auto
    with paid(2) show ?thesis by (simp add: typed_reply)
  next
    case (refused e v)
    from processPayment_frame [OF refused(1)] refused(2) have "typed_replies v" using assms(1) typed_replies_cong by auto
    with refused(3) show ?thesis by (simp add: typed_reply)
  qed
qed

lemma payment_step_typed: "payment_step ru s s' \<Longrightarrow> typed_replies s \<Longrightarrow> typed_replies s'"
proof (induction rule: payment_step.induct)
  case (step_pay env s fault c)
  then show ?case unfolding handleProcessPayment_def using payment_tx_typed by (intro typed_transaction) blast+
next
  case (step_register env b s fault e)
  then show ?case unfolding handleUserRegistered_def
    by (intro typed_transaction)
      (auto simp: WalletService_findOrCreate_def insert_wallet_def tx_bind_def ret_def Let_def typed_replies_def
        split: option.splits if_splits)
next
  case (step_topUp env amount s fault userId roles)
  have same: "outbox s' = outbox s \<and> idempotency_keys s' = idempotency_keys s"
    if "WalletService_topUp env userId amount s = (Inr w, s')" for w s'
    using that by (auto simp: WalletService_topUp_def insert_wallet_def save_wallet_def Let_def split: option.splits if_splits)
  have "typed_replies (snd (transaction fault (WalletService_topUp env userId amount) s))"
    using step_topUp(3) same typed_replies_cong by (intro typed_transaction) blast+
  then show ?case using step_topUp(3)
    by (auto simp: WalletsController_topUp_def raise_def tx_bind_def payment_http_def ret_def split: prod.splits sum.splits)
next
  case step_tick
  then show ?case by (simp add: typed_replies_def typed_tick)
qed

lemma reserve_tx_typed:
  assumes "typed_replies s" "reserve_tx env c s = (Inr u, s')"
  shows "typed_replies s'"
proof (cases "IdempotencyService_find (commandId c) s")
  case (Some reply)
  then show ?thesis using assms typed_replay [OF assms(1)] by (cases reply) (auto simp: reserve_tx_def)
next
  case None
  have "reserve_tx env c s = (Inr (), s')" using assms(2) by simp
  with None show ?thesis
  proof (cases rule: reserve_tx_fresh)
    case (reserved rs t)
    have "typed_replies t" using reserve_loop_same [OF reserved(1)] assms(1) by (simp add: same_but_stock_def typed_replies_def)
    with reserved(2) show ?thesis by (simp add: typed_reply reserved_reply_def)
  next
    case (refused e t)
    have "typed_replies t" using reserve_loop_same [OF refused(1)] assms(1) by (simp add: same_but_stock_def typed_replies_def)
    with refused(3) show ?thesis by (simp add: typed_reply refused_reply_def)
  qed
qed

lemma release_tx_typed:
  assumes "typed_replies s" "release_tx env c s = (Inr u, s')"
  shows "typed_replies s'"
proof (cases "IdempotencyService_find (commandId c) s")
  case (Some reply)
  then show ?thesis using assms typed_replay [OF assms(1)] by (cases reply) (auto simp: release_tx_def)
next
  case None
  have "release_tx env c s = (Inr (), s')" using assms(2) by simp
  with None obtain t where t: "release_loop env (rl_items c) s = (Inr (), t)"
    "s' = reply_with env c STOCK_RELEASED (released_reply c) t" by (rule release_tx_fresh)
  have "typed_replies t" using release_loop_effect [OF t(1)] assms(1) by (simp add: same_but_stock_def typed_replies_def)
  with t(2) show ?thesis by (simp add: typed_reply released_reply_def)
qed

lemma product_http_frame:
  "outbox (ps_db (snd (ProductsController_findById env up i st))) = outbox (ps_db st)"
  "idempotency_keys (ps_db (snd (ProductsController_findById env up i st))) = idempotency_keys (ps_db st)"
  "outbox (ps_db (snd (ProductsController_create env cr roles st))) = outbox (ps_db st)"
  "idempotency_keys (ps_db (snd (ProductsController_create env cr roles st))) = idempotency_keys (ps_db st)"
  "outbox (ps_db (snd (ProductsController_update env up i dto roles st))) = outbox (ps_db st)"
  "idempotency_keys (ps_db (snd (ProductsController_update env up i dto roles st))) = idempotency_keys (ps_db st)"
  "outbox (ps_db (snd (ProductsController_remove env up i roles st))) = outbox (ps_db st)"
  "idempotency_keys (ps_db (snd (ProductsController_remove env up i roles st))) = idempotency_keys (ps_db st)"
  by (cases "requireAdmin roles";
      auto simp: ProductsController_findById_def ProductsController_create_def ProductsController_update_def
        ProductsController_remove_def with_http_def tx_bind_def lift_def ProductsService_findById_def
        ProductsService_create_def ProductsService_update_def ProductsService_remove_def find_product_def found_def
        save_product_def modify_def ret_def cacheSet_def cacheDel_def Let_def
        split: option.splits if_splits)+

lemma evict_frame [simp]: "ps_db (evict_items up items st) = ps_db st"
  by (induction items arbitrary: st) (simp_all add: evict_items_def cacheDel_def)

lemma product_step_typed: "product_step ru rel st st' \<Longrightarrow> typed_replies (ps_db st) \<Longrightarrow> typed_replies (ps_db st')"
proof (induction rule: product_step.induct)
  case (step_reserve up is_uuid items st fault env)
  have "typed_replies (snd (transaction fault (reserve_loop env items) (ps_db st)))"
    using step_reserve(3)
    by (intro typed_transaction) (auto simp: same_but_stock_def typed_replies_def dest!: reserve_loop_same)
  then show ?case
    by (auto simp: ProductsController_reserveStock_def with_http_def ProductsService_reserveStock_own_def
        split: prod.splits sum.splits)
next
  case (step_reserve_command up c st fault env)
  then have "typed_replies (snd (transaction fault (reserve_tx env c) (ps_db st)))"
    using reserve_tx_typed by (intro typed_transaction) blast+
  then show ?case by (auto simp: handleReserveStock_def Let_def split: prod.splits)
next
  case (step_release_command up d st fault env)
  then have "typed_replies (snd (transaction fault (release_tx env d) (ps_db st)))"
    using release_tx_typed by (intro typed_transaction) blast+
  then show ?case by (auto simp: handleReleaseStock_def Let_def split: prod.splits)
next
  case step_tick
  then show ?case by (simp add: typed_replies_def typed_tick)
qed (simp_all add: typed_replies_def product_http_frame)

interpretation payment_messages: transition_system "payment_step ru" "\<lambda>s. outbox s = [] \<and> idempotency_keys s = []" typed_replies for ru
  by unfold_locales (simp add: typed_replies_def typed_rows_def, rule payment_step_typed)

interpretation product_messages: transition_system "product_step ru rel"
  "\<lambda>st. outbox (ps_db st) = [] \<and> idempotency_keys (ps_db st) = []" "\<lambda>st. typed_replies (ps_db st)" for ru rel
  by unfold_locales (simp add: typed_replies_def typed_rows_def, rule product_step_typed)

lemma order_rows_typed:
  assumes "order_inv u s"
  shows "typed_rows (outbox s)"
  unfolding typed_rows_def
proof
  fix r assume "r \<in> set (outbox s)"
  let ?k = "ob_aggregateId r"
  from \<open>r \<in> set (outbox s)\<close> have mem: "r \<in> set (rowsOf ?k s)" by (simp add: rowsOf_def)
  have "view_ok (sagaOf ?k s) (orderOf ?k s) (rowsOf ?k s)" using assms by (simp add: order_inv_def)
  with mem obtain g a where "sagaOf ?k s = Some g" "orderOf ?k s = Some a"
    by (cases "sagaOf ?k s"; cases "orderOf ?k s") auto
  then have "pair_ok g a (rowsOf ?k s)" by (rule inv_pair(1) [OF assms])
  with mem have "row_ok g a r" by (simp add: pair_ok_def)
  then show "ob_topic r = KAFKA_TOPICS (payload_topic (ob_payload r))" by (simp add: row_ok_def)
qed

text \<open>
  C27. The messages are well-typed. A subscriber casts the payload of a message to the interface of
  its topic without a check, so it relies on the writers: in every reachable state of the
  order-, product-, payment- and auth-service, each row of the outbox, whatever handler, timer or
  redelivery wrote it, carries a payload of exactly the interface of its topic; and so does
  every message the order-service has published.
\<close>

theorem messages_typed:
  assumes "service_initial u os0" "run (order_step u) os0 os"
    and "outbox (ps_db ps0) = []" "idempotency_keys (ps_db ps0) = []" "run (product_step pu rel) ps0 ps"
    and "outbox ws0 = []" "idempotency_keys ws0 = []" "run (payment_step wu) ws0 ws"
    and "auth_initial as0" "uuid_ok au" "run (auth_step cr cfg au) as0 as"
  shows "typed_rows (outbox (os_db os)) \<and> typed_rows (outbox (ps_db ps)) \<and> typed_rows (outbox ws) \<and> typed_rows (outbox (au_db as)) \<and>
    (\<forall>m \<in> set (os_bus os). km_topic m = KAFKA_TOPICS (payload_topic (ke_payload (km_value m))))"
proof -
  have inv: "service_inv u os" using order_machine.reachable_inv [OF assms(1,2)] .
  have "typed_rows (outbox (ps_db ps))" "typed_rows (outbox ws)"
    using product_messages.reachable_inv [OF _ assms(5)] payment_messages.reachable_inv [OF _ assms(8)] assms(3,4,6,7)
    by (auto simp: typed_replies_def)
  moreover have "typed_rows (outbox (au_db as))"
  proof -
    have "accounts_inv au (au_db as)" using accounts_machine.reachable_inv [OF assms(9,11)] assms(10) by blast
    then have "ob_payload ` set (outbox (au_db as)) \<subseteq> registered ` set (users (au_db as))" "\<forall>r \<in> set (outbox (au_db as)). ob_topic r = KAFKA_TOPICS USER_REGISTERED"
      unfolding accounts_inv_def by (metis list.set_map order_refl, blast)
    then show ?thesis by (force simp: typed_rows_def registered_def)
  qed
  moreover have bus: "km_topic m = KAFKA_TOPICS (payload_topic (ke_payload (km_value m)))" if m: "m \<in> set (os_bus os)" for m
  proof -
    obtain r g a j where "carries r m" "row_ok g a r" by (rule bus_row [OF inv m])
    then show ?thesis by (simp add: carries_def row_ok_def)
  qed
  moreover have "typed_rows (outbox (os_db os))"
    using inv by (auto simp: service_inv_def intro: order_rows_typed)
  ultimately show ?thesis by blast
qed

theorem messages_typed_witness:
  "typed_rows (outbox (os_db paid_order)) \<and>
   typed_rows (outbox (ps_db (snd (handleReserveStock None sample_env True (sample_reserve 1) sample_products)))) \<and>
   typed_rows (outbox (snd (handleProcessPayment None sample_env (sample_payment 1) (sample_wallets 5000)))) \<and>
   typed_rows (outbox sample_registered) \<and> length (outbox sample_registered) = 1"
proof -
  let ?ps = "snd (handleReserveStock None sample_env True (sample_reserve 1) sample_products)"
  let ?ws = "snd (handleProcessPayment None sample_env (sample_payment 1) (sample_wallets 5000))"
  have "positive (rs_items (sample_reserve 1))" by code_simp
  then have ps: "run (product_step (e_uuid sample_env) True) sample_products ?ps"
    by (intro run_step [OF run_refl] step_reserve_command) simp_all
  have ws: "run (payment_step (e_uuid sample_env)) (sample_wallets 5000) ?ws"
    by (intro run_step [OF run_refl] payment_step.step_pay) simp
  have start: "outbox (ps_db sample_products) = []" "idempotency_keys (ps_db sample_products) = []"
    "outbox (sample_wallets 5000) = []" "idempotency_keys (sample_wallets 5000) = []" "auth_initial empty_server"
    by (simp_all add: sample_products_def sample_wallets_def empty_server_initial)
  have "length (outbox sample_registered) = 1" by code_simp
  then show ?thesis
    using messages_typed [OF empty_service_initial paid_order_reachable start(1,2) ps start(3,4) ws start(5) sample_uuid_ok
        sample_server_reachable] sample_server_db by simp
qed

subsection \<open>The amount of an order\<close>

lemma reserved_amount:
  assumes "IdempotencyService_find (commandId c) (ps_db ps) = None" "prices_ok (ps_db ps)" "positive (rs_items c)"
    and "length (rs_items c) \<le> 10000" "order_cents (ps_db ps) (rs_items c) \<le> 10 ^ 10"
    and "handleReserveStock fault env up c ps = (Inr (), ps')"
    and "last (written_replies (ps_db ps')) = (t, StockReserved ev)"
  shows "near_cents (order_cents (ps_db ps) (rs_items c)) (sr_total ev)"
proof -
  have "reserve_tx env c (ps_db ps) = (Inr (), ps_db ps')"
    using handleReserveStock_db [OF assms(6)] by (simp add: transaction_Inr)
  with assms(1) show ?thesis
  proof (cases rule: reserve_tx_fresh)
    case (reserved rs v)
    have "sr_total ev = reservation_total rs"
      using assms(7) by (auto simp: reserved(2) reply_with_effect reserved_reply_def)
    moreover have "\<forall>x \<in> set (rs_items c). 0 \<le> ci_quantity x" using assms(3) by (force simp: positive_def list_all_iff)
    ultimately show ?thesis using reservation_near [OF reserved(1) assms(2) _ assms(4,5)] by simp
  next
    case (refused e v)
    then show ?thesis using assms(7) by (simp add: reply_with_effect refused_reply_def)
  qed
qed

lemma order_cents_nonneg:
  assumes "prices_ok s" "positive items"
  shows "0 \<le> order_cents s items"
proof -
  have "0 \<le> price_cents i s" for i
    using assms(1) by (auto simp: price_cents_def prices_ok_def split: option.splits dest!: row_of_in)
  then have "\<forall>x \<in> set items. 0 \<le> price_cents (ci_productId x) s * ci_quantity x"
    using assms(2) by (auto simp: positive_def list_all_iff intro: mult_nonneg_nonneg less_imp_le)
  then show ?thesis unfolding order_cents_def by (intro sum_list_nonneg) auto
qed

lemma requested_payment:
  assumes "order_inv u s" "uuid_ok u" "e_uuid env = u" "orderOf (orderId ev) s = Some a"
    and "awaits s (orderId ev) SagaStep_RESERVE_STOCK" "onStockReserved fault env ev s = (Inr (), s')"
    and "ob_payload (last (outbox s')) = ProcessPayment pay"
  shows "pp_userId pay = ord_userId a \<and> pp_amount pay = sr_total ev"
proof -
  have "ids_ok (e_uuid env) s" "uuid_ok (e_uuid env)" using assms(1-3) by (simp_all add: order_inv_def)
  from this assms(6) show ?thesis
  proof (cases rule: onStockReserved_effect)
    case ignored
    then show ?thesis using assms(5) by (simp add: awaits_def)
  next
    case (moved g b)
    then have "ob_payload (last (outbox s')) = payment_command g b (sr_total ev)"
      by (simp add: effect_def rows_after_def new_outbox_row_def)
    then show ?thesis using assms(4,7) moved(3) by (auto simp: payment_command_def)
  qed
qed

text \<open>
  C5. The customer pays the price of the order, to the cent. Follow an order through the three
  services: the product-service reserves the lines and replies with a total; the
  order-service, which waits for that reply, asks for a payment; the payment-service handles
  that command. Then the user charged is the one who placed the order, and either the payment is
  confirmed and the wallet is lower by exactly the sum of price times quantity, or it is
  refused and no wallet has changed. The totals in between are binary64 numbers.
\<close>

theorem order_paid_exactly:
  assumes "IdempotencyService_find (commandId c) (ps_db ps) = None" "prices_ok (ps_db ps)" "positive (rs_items c)"
    and "length (rs_items c) \<le> 10000" "order_cents (ps_db ps) (rs_items c) \<le> 10 ^ 10"
    and "handleReserveStock pfault penv up c ps = (Inr (), ps')"
    and "last (written_replies (ps_db ps')) = (topic, StockReserved ev)"
    and "order_inv u s" "uuid_ok u" "e_uuid oenv = u" "orderOf (orderId ev) s = Some a"
    and "awaits s (orderId ev) SagaStep_RESERVE_STOCK" "onStockReserved fault oenv ev s = (Inr (), s')"
    and "ob_payload (last (outbox s')) = ProcessPayment pay"
    and "payment_inv wu w" "uuid_ok wu" "e_uuid wenv = wu" "IdempotencyService_find (commandId pay) w = None"
    and "handleProcessPayment wfault wenv pay w = (Inr (), w')"
  shows "pp_userId pay = ord_userId a \<and>
    ((\<exists>k t. last (written_replies w') = (KAFKA_TOPICS PAYMENT_PROCESSED, processed_reply pay t) \<and>
        balance_of (ord_userId a) w = Some (of_int k / 100) \<and>
        balance_of (ord_userId a) w' = Some (of_int (k - order_cents (ps_db ps) (rs_items c)) / 100)) \<or>
     (\<exists>reason. last (written_replies w') = (KAFKA_TOPICS PAYMENT_FAILED, failed_reply pay reason) \<and> wallets w' = wallets w))"
proof -
  have near: "near_cents (order_cents (ps_db ps) (rs_items c)) (pp_amount pay)" and user: "pp_userId pay = ord_userId a"
    using reserved_amount [OF assms(1-7)] requested_payment [OF assms(8-14)] by simp_all
  note pos = order_cents_nonneg [OF assms(2,3)]
  have "payment_tx wenv pay w = (Inr (), w')" using assms(19) by (simp add: handleProcessPayment_def transaction_Inr)
  with assms(18) show ?thesis
  proof (cases rule: payment_tx_fresh)
    case (paid t v)
    obtain k where "balance_of (pp_userId pay) w = Some (of_int k / 100)"
      "balance_of (pp_userId pay) v = Some (of_int (k - order_cents (ps_db ps) (rs_items c)) / 100)"
      using processPayment_charge [OF assms(15-17) pos near paid(1)] by blast
    moreover have "balance_of (pp_userId pay) w' = balance_of (pp_userId pay) v"
      by (rule balance_of_cong) (simp add: paid(2))
    ultimately show ?thesis using user paid(2) by (auto simp: reply_with_effect)
  next
    case (refused e v)
    have "wallets v = wallets w" using processPayment_refused [OF refused(1,2)] by auto
    then show ?thesis using user refused(3) by (auto simp: reply_with_effect)
  qed
qed

text \<open>Two pens at ten cents, from a wallet with fifty: \<open>one_order\<close> is the order, its saga has the id \<open>aaa\<close>.\<close>

definition flow_command :: reserve_stock_command where
  "flow_command = \<lparr>commandId = ''aaa'', orderId = ''a'', correlationId = ''c1'', rs_items = [\<lparr>ci_productId = ''p1'', ci_quantity = 2\<rparr>]\<rparr>"

definition flow_reserved :: stock_reserved_event where
  "flow_reserved = \<lparr>commandId = ''aaa'', orderId = ''a'', correlationId = ''c1'',
     sr_items = [\<lparr>oi_productId = ''p1'', oi_name = ''Pen'', oi_quantity = 2, oi_unitPrice = fl (1 / 10)\<rparr>],
     sr_total = num_mul (fl (1 / 10)) 2\<rparr>"

definition flow_payment :: process_payment_command where
  "flow_payment = \<lparr>commandId = ''aaa-pay'', orderId = ''a'', correlationId = ''c1'', pp_userId = ''u1'',
     pp_amount = num_mul (fl (1 / 10)) 2\<rparr>"

theorem order_paid_exactly_witness:
  "last (written_replies (ps_db (snd (handleReserveStock None sample_env True flow_command sample_products)))) =
     (KAFKA_TOPICS STOCK_RESERVED, StockReserved flow_reserved) \<and>
   ob_payload (last (outbox (snd (onStockReserved None sample_env flow_reserved (os_db one_order))))) = ProcessPayment flow_payment \<and>
   balance_of ''u1'' (snd (handleProcessPayment None sample_env flow_payment (sample_wallets 5000))) = Some (4980 / 100)"
proof -
  let ?p = "handleReserveStock None sample_env True flow_command sample_products"
  let ?o = "onStockReserved None sample_env flow_reserved (os_db one_order)"
  let ?w = "handleProcessPayment None sample_env flow_payment (sample_wallets 5000)"
  have reserve: "?p = (Inr (), snd ?p)" "last (written_replies (ps_db (snd ?p))) = (KAFKA_TOPICS STOCK_RESERVED, StockReserved flow_reserved)"
    "IdempotencyService_find (commandId flow_command) (ps_db sample_products) = None" "positive (rs_items flow_command)"
    "length (rs_items flow_command) \<le> 10000" "order_cents (ps_db sample_products) (rs_items flow_command) = 20"
    subgoal by (rule prod_eqI) (code_simp, simp)
    by code_simp+
  have prices: "prices_ok (ps_db sample_products)"
    by (auto simp: prices_ok_def sample_products_def intro: exI [of _ 10] exI [of _ 300])
  have inv: "order_inv (e_uuid sample_env) (os_db one_order)"
    using service_reachable(2) [OF empty_service_initial one_order_reachable] .
  have order: "?o = (Inr (), snd ?o)" "awaits (os_db one_order) (orderId flow_reserved) SagaStep_RESERVE_STOCK"
    "ob_payload (last (outbox (snd ?o))) = ProcessPayment flow_payment"
    "map_option ord_userId (orderOf (orderId flow_reserved) (os_db one_order)) = Some ''u1''"
    subgoal by (rule prod_eqI) (code_simp, simp)
    by code_simp+
  then obtain a where a: "orderOf (orderId flow_reserved) (os_db one_order) = Some a" "ord_userId a = ''u1''" by auto
  have pay: "?w = (Inr (), snd ?w)" "IdempotencyService_find (commandId flow_payment) (sample_wallets 5000) = None"
    "map fst (written_replies (snd ?w)) = [KAFKA_TOPICS PAYMENT_PROCESSED]" "balance_of ''u1'' (sample_wallets 5000) = Some (of_int 5000 / 100)"
    subgoal by (rule prod_eqI) (code_simp, simp)
    by code_simp+
  have "fst (last (written_replies (snd ?w))) = KAFKA_TOPICS PAYMENT_PROCESSED"
    using pay(3) by (metis last_map last_ConsL list.map_disc_iff list.distinct(1))
  moreover note order_paid_exactly [OF reserve(3) prices reserve(4,5) _ reserve(1,2) inv sample_uuid_ok refl a(1) order(2,1,3)
      sample_wallets_inv sample_uuid_ok refl pay(2,1)]
  ultimately have "balance_of ''u1'' (snd ?w) = Some (of_int (5000 - 20) / 100)"
    using reserve(6) a(2) pay(4) by auto
  then show ?thesis using reserve(2) order(3) by simp
qed

subsection \<open>Compensation\<close>

lemma same_lines:
  assumes "service_initial u st0" "run (order_step u) st0 st" "m1 \<in> set (os_bus st)" "m2 \<in> set (os_bus st)"
    and "ke_payload (km_value m1) = ReserveStock c" "ke_payload (km_value m2) = ReleaseStock d" "orderId c = orderId d"
  shows "rl_items d = rs_items c"
proof -
  have inv: "service_inv u st" using assms(1,2) by (rule service_reachable)
  obtain r1 g1 a1 k1 where r1: "carries r1 m1" "orderOf k1 (os_db st) = Some a1" "row_ok g1 a1 r1" "sg_orderId g1 = k1"
    by (rule bus_row [OF inv assms(3)])
  obtain r2 g2 a2 k2 where r2: "carries r2 m2" "orderOf k2 (os_db st) = Some a2" "row_ok g2 a2 r2" "sg_orderId g2 = k2"
    by (rule bus_row [OF inv assms(4)])
  have c: "payload_ok g1 a1 (ReserveStock c)" and d: "payload_ok g2 a2 (ReleaseStock d)"
    using r1(1,3) r2(1,3) assms(5,6) by (simp_all add: row_ok_def carries_def)
  then have "k1 = k2" using r1(4) r2(4) assms(7) by (simp add: command_for_def)
  with r1(2) r2(2) c d show ?thesis by simp
qed

lemma reserved_stock:
  assumes "IdempotencyService_find (commandId c) (ps_db ps) = None" "handleReserveStock fault env up c ps = (Inr (), ps')"
    and "last (written_replies (ps_db ps')) = (t, StockReserved ev)"
  shows "stock_of i (ps_db ps') = map_option (\<lambda>n. n - qty_of i (rs_items c)) (stock_of i (ps_db ps))"
proof -
  have "reserve_tx env c (ps_db ps) = (Inr (), ps_db ps')"
    using handleReserveStock_db [OF assms(2)] by (simp add: transaction_Inr)
  with assms(1) show ?thesis
  proof (cases rule: reserve_tx_fresh)
    case (reserved rs v)
    then show ?thesis using reserve_loop_stock [OF reserved(1)] by simp
  next
    case (refused e v)
    then show ?thesis using assms(3) by (simp add: reply_with_effect refused_reply_def)
  qed
qed

lemma released_stock:
  assumes "IdempotencyService_find (commandId d) (ps_db qs) = None" "handleReleaseStock fault env up d qs = (Inr (), qs')"
  shows "stock_of i (ps_db qs') = map_option (\<lambda>n. n + qty_of i (rl_items d)) (stock_of i (ps_db qs))"
proof -
  have "release_tx env d (ps_db qs) = (Inr (), ps_db qs')"
    using handleReleaseStock_db [OF assms(2)] by (simp add: transaction_Inr)
  from assms(1) this obtain v where "release_loop env (rl_items d) (ps_db qs) = (Inr (), v)"
    "ps_db qs' = reply_with env d STOCK_RELEASED (released_reply d) v" by (rule release_tx_fresh)
  then show ?thesis using release_loop_effect [of env "rl_items d" "ps_db qs" v i] by simp
qed

text \<open>
  C6. A compensation gives back exactly what the reservation took. Whatever the order-service
  has published for an order in any execution, its release command names the lines of its
  reserve command; so for every product, the handling of the one, at any later time and in any
  later state of the stock, adds the quantity the lines of the order name, which is what the
  successful handling of the other subtracted.
\<close>

theorem compensation_exact:
  assumes "service_initial u st0" "run (order_step u) st0 st" "m1 \<in> set (os_bus st)" "m2 \<in> set (os_bus st)"
    and "ke_payload (km_value m1) = ReserveStock c" "ke_payload (km_value m2) = ReleaseStock d" "orderId c = orderId d"
    and "IdempotencyService_find (commandId c) (ps_db ps) = None" "handleReserveStock fault env up c ps = (Inr (), ps')"
    and "last (written_replies (ps_db ps')) = (t, StockReserved ev)"
    and "IdempotencyService_find (commandId d) (ps_db qs) = None" "handleReleaseStock fault' env' up' d qs = (Inr (), qs')"
  shows "stock_of i (ps_db ps') = map_option (\<lambda>n. n - qty_of i (rs_items c)) (stock_of i (ps_db ps)) \<and>
    stock_of i (ps_db qs') = map_option (\<lambda>n. n + qty_of i (rs_items c)) (stock_of i (ps_db qs))"
  using reserved_stock [OF assms(8-10)] released_stock [OF assms(11,12)] same_lines [OF assms(1-7)] by auto

definition flow_release :: release_stock_command where
  "flow_release = \<lparr>commandId = ''aaa-release'', orderId = ''a'', correlationId = ''c1'', rl_items = [\<lparr>ci_productId = ''p1'', ci_quantity = 2\<rparr>]\<rparr>"

definition refused_order :: order_service where
  "refused_order = sample_tick (sample_reply (PaymentFailed \<lparr>commandId = ''aaa-pay'', orderId = ''a'', correlationId = ''c1'',
     pf_reason = ''Insufficient funds''\<rparr>) (sample_reply sample_reserved one_order))"

lemma refused_order_reachable: "run (order_step (e_uuid sample_env)) empty_service refused_order"
  unfolding refused_order_def
  by (rule run_step, rule run_step, rule run_step, rule one_order_reachable)
    (rule sample_reply_step sample_tick_step)+

theorem compensation_exact_witness:
  "stock_of ''p1'' (ps_db (snd (handleReserveStock None sample_env True flow_command sample_products))) = Some 3 \<and>
     stock_of ''p1'' (ps_db (snd (handleReleaseStock None sample_env True flow_release sample_products))) = Some 7"
proof -
  let ?p = "handleReserveStock None sample_env True flow_command sample_products"
  let ?q = "handleReleaseStock None sample_env True flow_release sample_products"
  have bus: "map (\<lambda>m. ke_payload (km_value m)) (os_bus refused_order) =
      [ReserveStock flow_command, ProcessPayment \<lparr>commandId = ''aaa-pay'', orderId = ''a'', correlationId = ''c1'',
         pp_userId = ''u1'', pp_amount = 10\<rparr>, ReleaseStock flow_release]" by code_simp
  then have "ReserveStock flow_command \<in> set (map (\<lambda>m. ke_payload (km_value m)) (os_bus refused_order))"
    "ReleaseStock flow_release \<in> set (map (\<lambda>m. ke_payload (km_value m)) (os_bus refused_order))" by (simp_all del: set_map)
  then obtain m1 m2 where m: "m1 \<in> set (os_bus refused_order)" "m2 \<in> set (os_bus refused_order)"
    "ke_payload (km_value m1) = ReserveStock flow_command" "ke_payload (km_value m2) = ReleaseStock flow_release" by auto
  have run: "fst ?p = Inr ()" "fst ?q = Inr ()"
    "last (written_replies (ps_db (snd ?p))) = (KAFKA_TOPICS STOCK_RESERVED, StockReserved flow_reserved)"
    "IdempotencyService_find (commandId flow_command) (ps_db sample_products) = None"
    "IdempotencyService_find (commandId flow_release) (ps_db sample_products) = None"
    "stock_of ''p1'' (ps_db sample_products) = Some 5" "orderId flow_command = orderId flow_release"
    "qty_of ''p1'' (rs_items flow_command) = 2"
    by code_simp+
  show ?thesis
    using compensation_exact [OF empty_service_initial refused_order_reachable m run(7,4) _ run(3,5), of None sample_env True
        None sample_env True "snd ?q" "''p1''"] run(1,2,6,8) by (auto simp: prod_eq_iff)
qed

end
