(* ===== verification/SagaEvidence.thy ===== *)
theory SagaEvidence
  imports OrderFlow
begin

section \<open>What the services know of each other\<close>

text \<open>
  The services of the saga know nothing of each other but the messages on the bus. For each of
  them, an invariant that follows the evidence: what a responder has published is in its table of
  answered commands, and every answered command was on the bus (\<open>responds\<close>, for the product- and the
  payment-service, the latter with its payments in \<open>payments_backed\<close>); an order has come as far as replies on
  the bus allow (\<open>backed\<close>). Every operation of a service keeps its invariant.
\<close>

subsection \<open>Responders\<close>

abbreviation sent :: "payload kafka_message \<Rightarrow> payload" where
  "sent m \<equiv> ke_payload (km_value m)"

text \<open>
  A service that answers commands: what is on the bus is in its outbox, what is in its outbox is
  the stored reply of a command, and \<open>R\<close> says which reply may be stored under which key.
\<close>

definition responds ::
  "(string \<Rightarrow> payload \<Rightarrow> bool) \<Rightarrow> 'a idem_db_scheme \<Rightarrow> payload kafka_message list \<Rightarrow> bool" where
  "responds R s bus \<longleftrightarrow>
     (\<forall>m \<in> set bus. sent m \<in> ob_payload ` set (outbox s)) \<and>
     (\<forall>r \<in> set (outbox s). \<exists>k t. IdempotencyService_find k s = Some (t, ob_payload r)) \<and>
     (\<forall>k t p. IdempotencyService_find k s = Some (t, p) \<longrightarrow> R k p)"

lemma responds_mono: "responds R s bus \<Longrightarrow> (\<And>k p. R k p \<Longrightarrow> R' k p) \<Longrightarrow> responds R' s bus"
  unfolding responds_def by blast

lemma responds_cong:
  assumes "responds R s bus" "outbox s' = outbox s" "idempotency_keys s' = idempotency_keys s"
  shows "responds R s' bus"
  using assms(1) unfolding responds_def assms(2) find_cong [OF assms(3)] .

lemma responds_published:
  assumes "responds R s bus" "p \<in> sent ` set bus"
  obtains k t where "IdempotencyService_find k s = Some (t, p)" "R k p"
  using assms unfolding responds_def by fastforce

text \<open>A delivery of a command: answered for the first time, or again.\<close>

lemma responds_answered:
  assumes "responds R s bus" "answered k s s'" "IdempotencyService_find k s = None"
    and new: "\<And>t p. IdempotencyService_find k s' = Some (t, p) \<Longrightarrow> R k p"
  shows "responds R s' bus"
proof -
  obtain r where r: "IdempotencyService_find k s' = Some r" "written_replies s' = written_replies s @ [r]"
    and others: "\<And>j. j \<noteq> k \<Longrightarrow> IdempotencyService_find j s' = IdempotencyService_find j s"
    using assms(2) by (auto simp: answered_def)
  have rows: "ob_payload ` set (outbox s') = insert (snd r) (ob_payload ` set (outbox s))"
    using arg_cong [OF r(2), of "\<lambda>xs. snd ` set xs"] by (simp add: written_replies_def image_image)
  have kept: "\<exists>j t. IdempotencyService_find j s' = Some (t, p)" if "p \<in> ob_payload ` set (outbox s)" for p
    using that assms(1,3) others unfolding responds_def by (metis (no_types, lifting) imageE option.distinct(1))
  have "\<exists>j t. IdempotencyService_find j s' = Some (t, p)" if "p \<in> ob_payload ` set (outbox s')" for p
    using that kept r(1) unfolding rows by (metis insertE prod.collapse)
  moreover have "R j p" if "IdempotencyService_find j s' = Some (t, p)" for j t p
    using that new others [of j] assms(1) unfolding responds_def by metis
  moreover have "\<forall>m \<in> set bus. sent m \<in> ob_payload ` set (outbox s')" using assms(1) by (simp add: responds_def rows)
  ultimately show ?thesis by (simp add: responds_def)
qed

lemma responds_again:
  assumes "responds R s bus" "IdempotencyService_find k s = Some (t, p)"
  shows "responds R (OutboxService_write env a t a p s) bus"
  using assms by (auto simp: responds_def new_outbox_row_def)

text \<open>A tick of the shared outbox processor.\<close>

lemma abstract_tick_effect:
  assumes "abstract_processPending env b db_fault locked p (rows, bus) = (p', rows', bus')"
  shows "map ob_ident rows' = map ob_ident rows \<and>
    (\<exists>ext. bus' = bus @ ext \<and> (\<forall>m \<in> set ext. \<exists>r \<in> set rows. carries r m))"
proof -
  let ?it = "abstract_process_record env b (maxRetries p)"
  let ?batch = "take 10 (sort_key ob_scheduledAt (filter (due (e_now env) locked) rows))"
  have "\<exists>ext. snd (fold ?it rs (rows, bus)) = bus @ ext \<and> (\<forall>m \<in> set ext. \<exists>r \<in> set rows. carries r m)"
    if "set rs \<subseteq> set ?batch" for rs
  proof -
    obtain ext where "snd (fold ?it rs (rows, bus)) = bus @ ext" "\<forall>m \<in> set ext. \<exists>r \<in> set rs. carries r m"
      using abstract_processor.fold_bus [of env b "maxRetries p" rs "(rows, bus)"] by auto
    moreover have "set rs \<subseteq> set rows" using that by (auto dest: batch_due)
    ultimately show ?thesis by blast
  qed
  note ext = this
  have "bus' = bus \<or> (\<exists>rs. set rs \<subseteq> set ?batch \<and> bus' = snd (fold ?it rs (rows, bus)))"
  proof (cases db_fault)
    case None
    then have "bus' = bus \<or> bus' = snd (fold ?it ?batch (rows, bus))"
      using assms by (auto simp: processPending_defs split: if_splits)
    then show ?thesis by blast
  next
    case (Some k)
    then have "bus' = bus \<or> bus' = snd (fold ?it (take (Suc k) ?batch) (rows, bus))"
      using assms by (auto simp: processPending_defs split: if_splits)
    then show ?thesis using set_take_subset [of "Suc k" ?batch] by blast
  qed
  then have "\<exists>ext. bus' = bus @ ext \<and> (\<forall>m \<in> set ext. \<exists>r \<in> set rows. carries r m)"
    using ext by (elim disjE exE conjE) auto
  moreover have "map ob_ident rows' = map ob_ident rows"
    using tick_rows [of env b db_fault locked p "(rows, bus)"] assms by simp
  ultimately show ?thesis by blast
qed

lemma responds_tick:
  assumes "responds R s bus" "abstract_processPending env b db_fault locked p (outbox s, bus) = (p', rows', bus')"
  shows "responds R (s\<lparr>outbox := rows'\<rparr>) bus'"
proof -
  obtain ext where tick: "map ob_ident rows' = map ob_ident (outbox s)" "bus' = bus @ ext"
    "\<forall>m \<in> set ext. \<exists>r \<in> set (outbox s). carries r m" using abstract_tick_effect [OF assms(2)] by blast
  have "map ob_payload rows' = map ob_payload (outbox s)"
    using tick(1) by (rule map_coarser) (simp add: ob_ident_def)
  then have rows: "ob_payload ` set rows' = ob_payload ` set (outbox s)" by (metis list.set_map)
  have find: "IdempotencyService_find k (s\<lparr>outbox := rows'\<rparr>) = IdempotencyService_find k s" for k
    by (rule find_cong) simp
  have "sent m \<in> ob_payload ` set rows'" if "m \<in> set bus'" for m
    using that tick(2,3) assms(1) unfolding rows by (auto simp: responds_def carries_def)
  moreover have "\<exists>k t. IdempotencyService_find k s = Some (t, ob_payload r)" if r: "r \<in> set rows'" for r
  proof -
    obtain q where q: "q \<in> set (outbox s)" "ob_payload q = ob_payload r" using imageI [OF r, of ob_payload] unfolding rows by auto
    from q(1) have "\<exists>k t. IdempotencyService_find k s = Some (t, ob_payload q)" using assms(1) unfolding responds_def by blast
    with q(2) show ?thesis by simp
  qed
  ultimately show ?thesis using assms(1) unfolding responds_def find by simp
qed

subsection \<open>What the payment-service has answered\<close>

text \<open>\<open>cmds\<close> are the payloads on the bus of the order-service.\<close>

definition paid_for :: "process_payment_command \<Rightarrow> payment_entity \<Rightarrow> bool" where
  "paid_for c q \<longleftrightarrow> pa_orderId q = orderId c \<and> pa_status q = PaymentStatus_COMPLETED \<and> pa_userId q = pp_userId c \<and>
     pa_amount q = dec2 (pp_amount c)"

definition pay_answer :: "payload set \<Rightarrow> payment_entity list \<Rightarrow> string \<Rightarrow> payload \<Rightarrow> bool" where
  "pay_answer cmds rows k p \<longleftrightarrow> (\<exists>c. ProcessPayment c \<in> cmds \<and> commandId c = k \<and>
     ((\<exists>t. p = processed_reply c t) \<and> (\<exists>q \<in> set rows. paid_for c q) \<or> (\<exists>reason. p = failed_reply c reason)))"

definition payments_backed :: "payload set \<Rightarrow> payment_db \<Rightarrow> payload kafka_message list \<Rightarrow> bool" where
  "payments_backed cmds w bus \<longleftrightarrow> responds (pay_answer cmds (payments w)) w bus \<and>
     (\<forall>q \<in> set (payments w). pa_status q = PaymentStatus_COMPLETED \<longrightarrow>
        (\<exists>c t t'. ProcessPayment c \<in> cmds \<and> paid_for c q \<and>
           IdempotencyService_find (commandId c) w = Some (t, processed_reply c t')))"

lemma pay_answer_mono: "pay_answer cmds rows k p \<Longrightarrow> cmds \<subseteq> cmds' \<Longrightarrow> set rows \<subseteq> set rows' \<Longrightarrow> pay_answer cmds' rows' k p"
  unfolding pay_answer_def by blast

lemma payments_backed_mono:
  assumes "payments_backed cmds w bus" "cmds \<subseteq> cmds'"
  shows "payments_backed cmds' w bus"
proof -
  have "responds (pay_answer cmds' (payments w)) w bus"
    by (rule responds_mono [of "pay_answer cmds (payments w)"]) (use assms in \<open>auto simp: payments_backed_def intro: pay_answer_mono\<close>)
  with assms show ?thesis unfolding payments_backed_def by blast
qed

lemma payments_backed_cong:
  assumes "payments_backed cmds w bus" "outbox w' = outbox w" "idempotency_keys w' = idempotency_keys w" "payments w' = payments w"
  shows "payments_backed cmds w' bus"
  using assms(1) responds_cong [OF _ assms(2,3)] unfolding payments_backed_def assms(4) find_cong [OF assms(3)] by blast

lemma payments_backed_tick:
  assumes "payments_backed cmds w bus" "abstract_processPending env b db_fault locked p (outbox w, bus) = (p', rows', bus')"
  shows "payments_backed cmds (w\<lparr>outbox := rows'\<rparr>) bus'"
proof -
  have "IdempotencyService_find k (w\<lparr>outbox := rows'\<rparr>) = IdempotencyService_find k w" for k by (rule find_cong) simp
  then show ?thesis using assms responds_tick [OF _ assms(2)] by (simp add: payments_backed_def)
qed

text \<open>A fresh command adds one payment, completed if and only if the reply says so.\<close>

lemma payments_backed_fresh:
  assumes prev: "payments_backed cmds w bus" and inv: "payment_inv ru w" "uuid_ok ru" "e_uuid env = ru"
    and c: "ProcessPayment c \<in> cmds" "IdempotencyService_find (commandId c) w = None"
    and run: "payment_tx env c w = (Inr (), w')"
  shows "payments_backed cmds w' bus"
proof -
  have ans: "answered (commandId c) w w'" using c(2) run by (rule payment_answered)
  have old: "responds (pay_answer cmds (payments w)) w bus" using prev by (simp add: payments_backed_def)
  have kept: "IdempotencyService_find j w' = Some r" if "IdempotencyService_find j w = Some r" for j r
    using ans that c(2) unfolding answered_def by (metis option.distinct(1))
  have "\<exists>q. payments w' = payments w @ [q] \<and>
      (\<exists>t. (\<exists>t'. IdempotencyService_find (commandId c) w' = Some (t, processed_reply c t')) \<and> paid_for c q \<or>
           (\<exists>reason. IdempotencyService_find (commandId c) w' = Some (t, failed_reply c reason)) \<and> pa_status q = PaymentStatus_PENDING)"
    using c(2) run
  proof (cases rule: payment_tx_fresh)
    case (paid t v)
    have "payments w' = payments v" by (simp add: paid(2) reply_with_def IdempotencyService_save_def OutboxService_write_def)
    with payment_paid_effect(2) [OF inv paid(1)] show ?thesis
      unfolding paid(2) reply_with_effect(2) by (auto simp: paid_for_def payment_row_def)
  next
    case (refused e v)
    have "payments w' = payments v" by (simp add: refused(3) reply_with_def IdempotencyService_save_def OutboxService_write_def)
    with processPayment_refused [OF refused(1,2)] show ?thesis
      unfolding refused(3) reply_with_effect(2) by (auto simp: payment_row_def)
  qed
  then obtain q t where q: "payments w' = payments w @ [q]"
    "(\<exists>t'. IdempotencyService_find (commandId c) w' = Some (t, processed_reply c t')) \<and> paid_for c q \<or>
     (\<exists>reason. IdempotencyService_find (commandId c) w' = Some (t, failed_reply c reason)) \<and> pa_status q = PaymentStatus_PENDING"
    by blast
  have "responds (pay_answer cmds (payments w')) w bus"
    using old by (rule responds_mono) (auto intro: pay_answer_mono simp: q(1))
  then have "responds (pay_answer cmds (payments w')) w' bus"
    using ans c(2) by (rule responds_answered) (use q c(1) in \<open>auto simp: pay_answer_def\<close>)
  moreover have "\<exists>c t t'. ProcessPayment c \<in> cmds \<and> paid_for c x \<and> IdempotencyService_find (commandId c) w' = Some (t, processed_reply c t')"
    if "x \<in> set (payments w')" "pa_status x = PaymentStatus_COMPLETED" for x
  proof (cases "x = q")
    case True
    with that(2) q(2) c(1) show ?thesis by auto
  next
    case False
    then have "x \<in> set (payments w)" using that(1) q(1) by simp
    with prev that(2) kept show ?thesis unfolding payments_backed_def by blast
  qed
  ultimately show ?thesis by (simp add: payments_backed_def)
qed

lemma payments_backed_delivery:
  assumes "payments_backed cmds w bus" "payment_inv ru w" "uuid_ok ru" "e_uuid env = ru" "ProcessPayment c \<in> cmds"
  shows "payments_backed cmds (snd (handleProcessPayment fault env c w)) bus"
proof (cases fault "payment_tx env c" w rule: transaction_cases)
  case (abort e)
  with assms(1) show ?thesis by (simp add: handleProcessPayment_def)
next
  case (commit x w')
  then have run: "payment_tx env c w = (Inr (), w')" by simp
  have "payments_backed cmds w' bus"
  proof (cases "IdempotencyService_find (commandId c) w")
    case None
    show ?thesis by (rule payments_backed_fresh [OF assms None run])
  next
    case (Some r)
    then have w': "w' = OutboxService_write env (orderId c) (fst r) (orderId c) (snd r) w"
      using run by (cases r) (simp add: payment_tx_def)
    have "responds (pay_answer cmds (payments w)) w' bus"
      unfolding w' using assms(1) Some by (intro responds_again) (simp_all add: payments_backed_def)
    moreover have "payments w' = payments w" by (simp add: w' OutboxService_write_def)
    moreover have "IdempotencyService_find k w' = IdempotencyService_find k w" for k by (simp add: w')
    ultimately show ?thesis using assms(1) by (simp add: payments_backed_def)
  qed
  with commit show ?thesis by (simp add: handleProcessPayment_def)
qed


subsection \<open>What the product-service has answered\<close>

definition stock_answer :: "payload set \<Rightarrow> string \<Rightarrow> payload \<Rightarrow> bool" where
  "stock_answer cmds k p \<longleftrightarrow>
     (\<exists>c. ReserveStock c \<in> cmds \<and> commandId c = k \<and> ((\<exists>rs. p = reserved_reply c rs) \<or> (\<exists>reason. p = refused_reply c reason))) \<or>
     (\<exists>d. ReleaseStock d \<in> cmds \<and> commandId d = k \<and> p = released_reply d)"

abbreviation stock_backed :: "payload set \<Rightarrow> product_service \<Rightarrow> payload kafka_message list \<Rightarrow> bool" where
  "stock_backed cmds st bus \<equiv> responds (stock_answer cmds) (ps_db st) bus"

lemma stock_backed_mono: "stock_backed cmds st bus \<Longrightarrow> cmds \<subseteq> cmds' \<Longrightarrow> stock_backed cmds' st bus"
  by (erule responds_mono) (auto simp: stock_answer_def)

text \<open>A command handler that looks up its key first, and stores what it answers.\<close>

lemma responds_delivery:
  assumes resp: "responds R s bus"
    and again: "\<And>r. IdempotencyService_find k s = Some r \<Longrightarrow> m s = (Inr (), OutboxService_write env a (fst r) a (snd r) s)"
    and fresh: "\<And>s'. IdempotencyService_find k s = None \<Longrightarrow> m s = (Inr (), s') \<Longrightarrow> answered k s s'"
    and new: "\<And>s' t p. IdempotencyService_find k s = None \<Longrightarrow> m s = (Inr (), s') \<Longrightarrow>
      IdempotencyService_find k s' = Some (t, p) \<Longrightarrow> R k p"
  shows "responds R (snd (transaction fault m s)) bus"
proof (rule transaction_keeps [of "\<lambda>s. responds R s bus", OF resp])
  fix x s' assume "m s = (Inr x, s')"
  then have run: "m s = (Inr (), s')" by simp
  show "responds R s' bus"
  proof (cases "IdempotencyService_find k s")
    case (Some r)
    with again [OF Some] run resp show ?thesis by (cases r) (auto intro: responds_again)
  next
    case None
    from resp fresh [OF None run] None show ?thesis by (rule responds_answered) (rule new [OF None run])
  qed
qed

lemma reserve_delivery:
  assumes "stock_backed cmds st bus" "ReserveStock c \<in> cmds"
  shows "stock_backed cmds (snd (handleReserveStock fault env up c st)) bus"
proof -
  have "stock_answer cmds (commandId c) p" if "IdempotencyService_find (commandId c) (ps_db st) = None"
    "reserve_tx env c (ps_db st) = (Inr (), s')" "IdempotencyService_find (commandId c) s' = Some (t, p)" for s' t p
    using that(1,2)
  proof (cases rule: reserve_tx_fresh)
    case (reserved rs v)
    with that(3) assms(2) show ?thesis by (auto simp: stock_answer_def reply_with_effect)
  next
    case (refused e v)
    with that(3) assms(2) show ?thesis by (auto simp: stock_answer_def reply_with_effect)
  qed
  note new = this
  have "responds (stock_answer cmds) (snd (transaction fault (reserve_tx env c) (ps_db st))) bus"
    by (rule responds_delivery [where m = "reserve_tx env c", OF assms(1) repeated_tx fresh_answered new])
  then show ?thesis
    using handleReserveStock_db [OF surjective_pairing, of fault env c st up] by simp
qed

lemma release_delivery:
  assumes "stock_backed cmds st bus" "ReleaseStock d \<in> cmds"
  shows "stock_backed cmds (snd (handleReleaseStock fault env up d st)) bus"
proof -
  have "stock_answer cmds (commandId d) p" if "IdempotencyService_find (commandId d) (ps_db st) = None"
    "release_tx env d (ps_db st) = (Inr (), s')" "IdempotencyService_find (commandId d) s' = Some (t, p)" for s' t p
    using that(1,2) by (rule release_tx_fresh) (use that(3) assms(2) in \<open>auto simp: stock_answer_def reply_with_effect\<close>)
  note new = this
  have "responds (stock_answer cmds) (snd (transaction fault (release_tx env d) (ps_db st))) bus"
    by (rule responds_delivery [where m = "release_tx env d", OF assms(1) repeated_release_tx fresh_release_answered new])
  then show ?thesis
    using handleReleaseStock_db [OF surjective_pairing, of fault env d st up] by simp
qed

text \<open>The requests of the HTTP interface and the expiry of a cache entry answer no command.\<close>

inductive product_request :: "product_service \<Rightarrow> product_service \<Rightarrow> bool" where
  request_find: "product_request st (snd (ProductsController_findById env up i st))"
| request_create: "product_request st (snd (ProductsController_create env dto roles st))"
| request_update: "product_request st (snd (ProductsController_update env up i dto' roles st))"
| request_remove: "product_request st (snd (ProductsController_remove env up i roles st))"
| request_reserve: "product_request st (snd (ProductsController_reserveStock fault env up items st))"
| request_expire: "product_request st (st\<lparr>ps_cache := (ps_cache st)(k := None)\<rparr>)"

lemma request_backed: "product_request st st' \<Longrightarrow> stock_backed cmds st bus \<Longrightarrow> stock_backed cmds st' bus"
proof (induction rule: product_request.induct)
  case (request_reserve st fault env up items)
  have "responds (stock_answer cmds) (snd (transaction fault (reserve_loop env items) (ps_db st))) bus"
    using request_reserve
    by (rule transaction_keeps) (auto simp: same_but_stock_def dest!: reserve_loop_same intro: responds_cong [OF request_reserve])
  then show ?case
    by (auto simp: ProductsController_reserveStock_def with_http_def ProductsService_reserveStock_own_def
        split: prod.splits sum.splits)
qed (auto intro: responds_cong simp: product_http_frame)


subsection \<open>What the order-service has been told\<close>

text \<open>\<open>pub\<close> are the payloads on the bus. How far an order has come is what a reply for it on the bus allows.\<close>

fun reply_order :: "payload \<Rightarrow> string option" where
  "reply_order (StockReserved e) = Some (orderId e)"
| "reply_order (StockReservationFailed e) = Some (orderId e)"
| "reply_order (StockReleased e) = Some (orderId e)"
| "reply_order (PaymentProcessed e) = Some (orderId e)"
| "reply_order (PaymentFailed e) = Some (orderId e)"
| "reply_order _ = None"

definition told :: "payload set \<Rightarrow> string \<Rightarrow> topic_key \<Rightarrow> bool" where
  "told pub k t \<longleftrightarrow> (\<exists>p \<in> pub. payload_topic p = t \<and> reply_order p = Some k)"

definition evidence :: "payload set \<Rightarrow> string \<Rightarrow> saga_step_name \<Rightarrow> order_status \<Rightarrow> payload set \<Rightarrow> bool" where
  "evidence pub k stp st pls \<longleftrightarrow>
     (st = OrderStatus_PENDING \<longrightarrow> PROCESS_PAYMENT \<notin> payload_topic ` pls) \<and>
     (st = OrderStatus_CONFIRMED \<longrightarrow> told pub k STOCK_RESERVED) \<and>
     (stp = SagaStep_COMPLETED \<longrightarrow> told pub k PAYMENT_PROCESSED) \<and>
     (stp = SagaStep_RELEASE_STOCK \<or> RELEASE_STOCK \<in> payload_topic ` pls \<longrightarrow> told pub k PAYMENT_FAILED) \<and>
     (st = OrderStatus_CANCELLED \<longrightarrow>
        told pub k STOCK_RESERVATION_FAILED \<and> PROCESS_PAYMENT \<notin> payload_topic ` pls \<or>
        told pub k PAYMENT_FAILED \<and> told pub k STOCK_RELEASED)"

definition backed :: "payload set \<Rightarrow> order_db \<Rightarrow> bool" where
  "backed pub s \<longleftrightarrow> (\<forall>k g a. sagaOf k s = Some g \<longrightarrow> orderOf k s = Some a \<longrightarrow>
     evidence pub k (sg_currentStep g) (ord_status a) (ob_payload ` set (rowsOf k s)))"


lemma told_mono: "told pub k t \<Longrightarrow> pub \<subseteq> pub' \<Longrightarrow> told pub' k t"
  by (auto simp: told_def)

lemma backed_mono: "backed pub s \<Longrightarrow> pub \<subseteq> pub' \<Longrightarrow> backed pub' s"
  unfolding backed_def evidence_def by (meson told_mono)

lemma backedD:
  "backed pub s \<Longrightarrow> sagaOf k s = Some g \<Longrightarrow> orderOf k s = Some a \<Longrightarrow>
     evidence pub k (sg_currentStep g) (ord_status a) (ob_payload ` set (rowsOf k s))"
  by (simp add: backed_def)

text \<open>It is enough to look at the order a handler is about.\<close>

lemma effect_backed:
  assumes inv: "order_inv u s" and prev: "backed pub s" and eff: "effect env k g g' upd pl s s'" and a: "orderOf k s = Some a"
    and fit: "evidence pub k (sg_currentStep g) (ord_status a) (ob_payload ` set (rowsOf k s)) \<Longrightarrow> pair_ok g a (rowsOf k s) \<Longrightarrow>
      evidence pub k (sg_currentStep g') (fst (written upd a)) (ob_payload ` set (rowsOf k s) \<union> set_option pl)"
  shows "backed pub s'"
  unfolding backed_def
proof (intro allI impI)
  fix j h b assume h: "sagaOf j s' = Some h" and b: "orderOf j s' = Some b"
  have g: "sagaOf k s = Some g" using eff by (simp add: effect_def)
  have view: "map_option view (orderOf j s') = map_option (if j = k then written upd else view) (orderOf j s)"
    using eff unfolding effect_def by blast
  show "evidence pub j (sg_currentStep h) (ord_status b) (ob_payload ` set (rowsOf j s'))"
  proof (cases "j = k")
    case True
    have "ord_status b = fst (written upd a)" using view b a True by (auto simp: view_def dest: arg_cong [where f = fst])
    moreover have "h = g'" using h eff True by (simp add: effect_def)
    moreover have "ob_payload ` set (rowsOf j s') = ob_payload ` set (rowsOf k s) \<union> set_option pl"
      unfolding effect_rows [OF eff] using True by (auto simp: rows_after_set new_outbox_row_def split: option.splits)
    ultimately show ?thesis using fit backedD [OF prev g a] inv_pair(1) [OF inv g a] True by simp
  next
    case False
    then obtain c where c: "orderOf j s = Some c" "ord_status b = ord_status c"
      using view b by (cases "orderOf j s") (auto simp: view_def)
    moreover have "sagaOf j s = Some h" using h eff False by (simp add: effect_def)
    moreover have "rowsOf j s' = rowsOf j s" using effect_rows [OF eff] False by simp
    ultimately show ?thesis using backedD [OF prev] by metis
  qed
qed

lemmas evidence_simps = evidence_def written_def view_def Saga_canHandle_def Saga_fail_def Saga_startCompensation_def
  Saga_scheduleRetry_def message_defs reserve_command_def Let_def

text \<open>Before the stock is reserved no payment has been asked for.\<close>

lemma unpaid_before:
  assumes "pair_ok g a rows" "sg_currentStep g = SagaStep_RESERVE_STOCK"
  shows "PROCESS_PAYMENT \<notin> payload_topic ` ob_payload ` set rows"
proof
  assume "PROCESS_PAYMENT \<in> payload_topic ` ob_payload ` set rows"
  then obtain r where r: "r \<in> set rows" "payload_topic (ob_payload r) = PROCESS_PAYMENT" by auto
  then have "payload_ok g a (ob_payload r)" using assms(1) by (simp add: pair_ok_def row_ok_def)
  with r(2) assms(2) show False by (cases "ob_payload r") auto
qed

lemma reply_backed:
  assumes inv: "order_inv (e_uuid env) s" "uuid_ok (e_uuid env)" and prev: "backed pub s" and pl: "pl \<in> pub"
  shows "backed pub (snd (saga_reply fault env pl s))"
proof -
  have ids: "ids_ok (e_uuid env) s" using inv(1) by (simp add: order_inv_def)
  have told: "told pub k (payload_topic pl)" if "reply_order pl = Some k" for k using pl that by (auto simp: told_def)
  note step = effect_backed [OF inv(1) prev]
  show ?thesis
  proof (cases pl)
    case (StockReserved e)
    have "backed pub s'" if "onStockReserved fault env e s = (Inr (), s')" for s'
      using ids inv(2) that
    proof (cases rule: onStockReserved_effect)
      case (moved g a)
      show ?thesis by (rule step [OF moved(6,3)]) (use told StockReserved moved(2) in \<open>simp add: evidence_simps\<close>)
    qed (use prev in simp)
    then show ?thesis using rolled_back [of "onStockReserved fault env e" s "backed pub", OF _ handlers_roll_back(1) prev] by (simp add: StockReserved saga_reply_def)
  next
    case (StockReservationFailed e)
    have "backed pub s'" if "onStockReservationFailed fault env e s = (Inr (), s')" for s'
      using ids inv(2) that
    proof (cases rule: onStockReservationFailed_effect)
      case (moved g a)
      show ?thesis
        by (rule step [OF moved(5,3)])
          (use told StockReservationFailed moved(2) unpaid_before [of g a] in \<open>auto simp: evidence_simps\<close>)
    qed (use prev in simp)
    then show ?thesis using rolled_back [of "onStockReservationFailed fault env e" s "backed pub", OF _ handlers_roll_back(2) prev] by (simp add: StockReservationFailed saga_reply_def)
  next
    case (PaymentProcessed e)
    have "backed pub s'" if "onPaymentProcessed fault env e s = (Inr (), s')" for s'
      using ids inv(2) that
    proof (cases rule: onPaymentProcessed_effect)
      case (moved g a)
      show ?thesis by (rule step [OF moved(4,3)]) (use told PaymentProcessed moved(2) in \<open>auto simp: evidence_simps pair_ok_def\<close>)
    qed (use prev in simp)
    then show ?thesis using rolled_back [of "onPaymentProcessed fault env e" s "backed pub", OF _ handlers_roll_back(3) prev] by (simp add: PaymentProcessed saga_reply_def)
  next
    case (PaymentFailed e)
    have "backed pub s'" if "onPaymentFailed fault env e s = (Inr (), s')" for s'
      using ids inv(2) that
    proof (cases rule: onPaymentFailed_effect)
      case (moved g a)
      show ?thesis by (rule step [OF moved(4,3)]) (use told PaymentFailed moved(2) in \<open>auto simp: evidence_simps pair_ok_def\<close>)
    qed (use prev in simp)
    then show ?thesis using rolled_back [of "onPaymentFailed fault env e" s "backed pub", OF _ handlers_roll_back(4) prev] by (simp add: PaymentFailed saga_reply_def)
  next
    case (StockReleased e)
    have "backed pub s'" if "onStockReleased fault env e s = (Inr (), s')" for s'
      using ids inv(2) that
    proof (cases rule: onStockReleased_effect)
      case (moved g a reason)
      show ?thesis by (rule step [OF moved(5,3)]) (use told StockReleased moved(2) in \<open>auto simp: evidence_simps\<close>)
    qed (use prev in simp)
    then show ?thesis using rolled_back [of "onStockReleased fault env e" s "backed pub", OF _ handlers_roll_back(5) prev] by (simp add: StockReleased saga_reply_def)
  qed (use prev in \<open>simp_all add: saga_reply_def ret_def\<close>)
qed


lemma retry_backed:
  assumes inv: "order_inv (e_uuid (rc_env rc)) s" "uuid_ok (e_uuid (rc_env rc))" and prev: "backed pub s"
  shows "backed pub (snd (retry_saga rc g0 s))"
proof -
  have ids: "ids_ok (e_uuid (rc_env rc)) s" using inv(1) by (simp add: order_inv_def)
  have "backed pub s'" if "retry_saga rc g0 s = (Inr (), s')" for s'
    using ids inv(2) that
  proof (cases rule: retry_saga_effect)
    case (exceeded g)
    obtain a where a: "orderOf (sg_orderId g) s = Some a" using inv(1) exceeded(1) by (rule inv_order)
    show ?thesis by (rule effect_backed [OF inv(1) prev exceeded(4) a]) (auto simp: evidence_simps)
  next
    case (retried g a)
    show ?thesis
    proof (rule effect_backed [OF inv(1) prev retried(5,4)])
      assume "evidence pub (sg_orderId g) (sg_currentStep g) (ord_status a) (ob_payload ` set (rowsOf (sg_orderId g) s))"
        and pair: "pair_ok g a (rowsOf (sg_orderId g) s)"
      moreover have "ord_status a \<noteq> OrderStatus_CANCELLED"
        using pair retried(2) by (cases "sg_currentStep g") (auto simp: pair_ok_def saga_wf_def)
      ultimately show "evidence pub (sg_orderId g) (sg_currentStep (Saga_scheduleRetry (e_now (rc_env rc)) g))
          (fst (written None a)) (ob_payload ` set (rowsOf (sg_orderId g) s) \<union> set_option (resent (sg_currentStep g) g a))"
        by (cases "sg_currentStep g") (auto simp: evidence_simps pair_ok_def)
    qed
  qed (use prev in simp)
  then show ?thesis using rolled_back [of "retry_saga rc g0" s "backed pub", OF _ handlers_roll_back(6) prev] by simp
qed

lemma timer_backed:
  assumes "order_inv u s" "uuid_ok u" "\<And>i. e_uuid (rc_env (rcs i)) = u" "backed pub s"
  shows "backed pub (retryStuckSagas query rcs s)"
proof -
  have "backed pub (retry_each rcs i gs s)" for i gs
    using assms(1,4)
  proof (induction gs arbitrary: i s)
    case (Cons g gs)
    have "order_inv u (snd (retry_saga (rcs i) g s))"
      using retry_saga_keeps [of "rcs i" s g] Cons.prems(1) assms(2,3) by (simp add: keeps_def)
    moreover have "backed pub (snd (retry_saga (rcs i) g s))"
      using retry_backed [of "rcs i" s pub g] Cons.prems assms(2,3) by simp
    ultimately show ?case using Cons.IH by simp
  qed simp
  then show ?thesis using assms(4) by (simp add: retryStuckSagas_def split: option.splits)
qed

lemma create_backed:
  assumes inv: "order_inv (e_uuid env) s" "uuid_ok (e_uuid env)" and prev: "backed pub s"
  shows "backed pub (snd (CreateOrderUseCase_execute fault env input s))"
proof -
  have "backed pub s'" if "CreateOrderUseCase_execute fault env input s = (Inr r, s')" for r s'
  proof -
    let ?k = "e_uuid env (seq s)"
    from that obtain email m where ords: "orders s' = orders s @ [created_order env (seq s) email input]"
      and sagas: "saga_states s' = saga_states s @ [created_saga env m ?k input]"
      and rows: "outbox s' = outbox s @ [new_outbox_row env (Suc m) ?k (KAFKA_TOPICS RESERVE_STOCK) ?k (created_command env m ?k input)]"
      and none: "row_of se_orderId ?k (saga_states s) = None"
      by (rule create_run)
    have oid: "oe_id (created_order env (seq s) email input) = ?k" and gid: "se_orderId (created_saga env m ?k input) = ?k"
      by (simp_all add: created_order_def store_order_def created_saga_def)
    show ?thesis unfolding backed_def
    proof (intro allI impI)
      fix k g a assume g: "sagaOf k s' = Some g" and a: "orderOf k s' = Some a"
      show "evidence pub k (sg_currentStep g) (ord_status a) (ob_payload ` set (rowsOf k s'))"
      proof (cases "k = ?k")
        case False
        then have "sagaOf k s = Some g" "orderOf k s = Some a" "rowsOf k s' = rowsOf k s"
          using g a ords sagas rows oid gid by (simp_all add: repo_defs rowsOf_def row_of_snoc new_outbox_row_def)
        with backedD [OF prev] show ?thesis by simp
      next
        case True
        have fresh: "row_of oe_id ?k (orders s) = None"
          using inv fresh_id [OF inv(2), of "map oe_id (orders s)" "seq s" "seq s"] by (simp add: invD row_of_None)
        have "view_ok (sagaOf ?k s) (orderOf ?k s) (rowsOf ?k s)" using inv(1) by (simp add: order_inv_def)
        then have "rowsOf ?k s = []" using fresh none by (simp add: repo_defs)
        then have "ob_payload ` set (rowsOf k s') = {created_command env m ?k input}"
          using True rows by (simp add: rowsOf_def new_outbox_row_def)
        moreover have "sg_currentStep g = SagaStep_RESERVE_STOCK" "ord_status a = OrderStatus_PENDING"
          using True g a ords sagas oid gid none fresh
          by (auto simp: repo_defs row_of_snoc created_saga_def created_order_def store_order_def SagaMapper_toDomain_def
              OrderMapper_toDomain_def)
        ultimately show ?thesis by (simp add: evidence_def created_command_def)
      qed
    qed
  qed
  then show ?thesis
    by (rule rolled_back [of "CreateOrderUseCase_execute fault env input" s "backed pub", OF _ handlers_roll_back(7) prev])
qed

lemma tick_backed:
  assumes "backed pub s" "map ob_ident rows' = map ob_ident (outbox s)"
  shows "backed pub (s\<lparr>outbox := rows'\<rparr>)"
proof -
  let ?s = "s\<lparr>outbox := rows'\<rparr>"
  have "sagaOf k ?s = sagaOf k s" "orderOf k ?s = orderOf k s" for k
    by (rule sagaOf_cong, simp, rule orderOf_cong, simp)
  moreover have "ob_payload ` set (rowsOf k ?s) = ob_payload ` set (rowsOf k s)" for k
  proof -
    have "map ob_ident (rowsOf k ?s) = map ob_ident (rowsOf k s)"
      using map_ident_filter [OF assms(2), of k] by (simp add: rowsOf_def)
    then have "map ob_payload (rowsOf k ?s) = map ob_payload (rowsOf k s)"
      by (rule map_coarser) (simp add: ob_ident_def)
    from arg_cong [OF this, of set] show ?thesis by simp
  qed
  ultimately show ?thesis using assms(1) unfolding backed_def by simp
qed

end
