(* ===== verification/Shop.thy ===== *)
theory Shop
  imports SagaEvidence
begin

section \<open>The saga across the services\<close>

text \<open>
  The order-, the product- and the payment-service as one machine. Each publishes the rows of its
  outbox on the bus; a step delivers some message of the bus to a service that subscribes to it,
  in any order and any number of times, or is a request, a timer or a tick of one service,
  with any failure. The theorem is the one the saga is there for: a confirmed order is paid and its goods
  are held, a cancelled one is not paid and holds nothing.
\<close>

subsection \<open>The shop\<close>

record shop =
  sh_orders :: order_service
  sh_products :: product_service
  sh_product_bus :: "payload kafka_message list"
  sh_product_proc :: processor
  sh_payments :: payment_db
  sh_payment_bus :: "payload kafka_message list"
  sh_payment_proc :: processor

definition shop_bus :: "shop \<Rightarrow> payload kafka_message list" where
  "shop_bus st = os_bus (sh_orders st) @ sh_product_bus st @ sh_payment_bus st"

abbreviation messages :: "shop \<Rightarrow> payload set" where
  "messages st \<equiv> sent ` set (shop_bus st)"

inductive wallet_request :: "(nat \<Rightarrow> string) \<Rightarrow> payment_db \<Rightarrow> payment_db \<Rightarrow> bool" for wu where
  request_register: "e_uuid env = wu \<Longrightarrow> 0 \<le> initialBalance \<Longrightarrow>
    wallet_request wu s (snd (handleUserRegistered fault env initialBalance e s))"
| request_topUp: "e_uuid env = wu \<Longrightarrow> TopUpWalletDto_valid amount \<Longrightarrow>
    wallet_request wu s (snd (WalletsController_topUp fault env userId amount roles s))"

text \<open>
  The order-service takes orders, receives replies, runs its timer and its outbox processor;
  the product-service receives the two stock commands and the requests of customers and
  administrators; the payment-service receives the payment command, registrations and top-ups.
\<close>

inductive shop_step :: "(nat \<Rightarrow> string) \<Rightarrow> (nat \<Rightarrow> string) \<Rightarrow> shop \<Rightarrow> shop \<Rightarrow> bool" for u wu where
  shop_create: "e_uuid env = u \<Longrightarrow> shop_step u wu st (st\<lparr>sh_orders := (sh_orders st)\<lparr>os_db :=
    snd (CreateOrderUseCase_execute fault env input (os_db (sh_orders st)))\<rparr>\<rparr>)"
| shop_reply: "e_uuid env = u \<Longrightarrow> m \<in> set (shop_bus st) \<Longrightarrow> shop_step u wu st (st\<lparr>sh_orders := (sh_orders st)\<lparr>os_db :=
    snd (saga_reply fault env (sent m) (os_db (sh_orders st)))\<rparr>\<rparr>)"
| shop_timer: "(\<And>i. e_uuid (rc_env (rcs i)) = u) \<Longrightarrow> shop_step u wu st (st\<lparr>sh_orders := (sh_orders st)\<lparr>os_db :=
    retryStuckSagas query rcs (os_db (sh_orders st))\<rparr>\<rparr>)"
| shop_order_tick: "order_processPending env b db_fault locked (os_proc (sh_orders st))
      (outbox (os_db (sh_orders st)), os_bus (sh_orders st)) = (p', rows', bus') \<Longrightarrow>
    shop_step u wu st (st\<lparr>sh_orders := (sh_orders st)\<lparr>os_db := (os_db (sh_orders st))\<lparr>outbox := rows'\<rparr>, os_bus := bus', os_proc := p'\<rparr>\<rparr>)"
| shop_reserve: "m \<in> set (shop_bus st) \<Longrightarrow> sent m = ReserveStock c \<Longrightarrow>
    shop_step u wu st (st\<lparr>sh_products := snd (handleReserveStock fault' env up c (sh_products st))\<rparr>)"
| shop_release: "m \<in> set (shop_bus st) \<Longrightarrow> sent m = ReleaseStock d \<Longrightarrow>
    shop_step u wu st (st\<lparr>sh_products := snd (handleReleaseStock fault' env up d (sh_products st))\<rparr>)"
| shop_request: "product_request (sh_products st) q \<Longrightarrow> shop_step u wu st (st\<lparr>sh_products := q\<rparr>)"
| shop_product_tick: "abstract_processPending env b db_fault locked (sh_product_proc st)
      (outbox (ps_db (sh_products st)), sh_product_bus st) = (p', rows', bus') \<Longrightarrow>
    shop_step u wu st (st\<lparr>sh_products := (sh_products st)\<lparr>ps_db := (ps_db (sh_products st))\<lparr>outbox := rows'\<rparr>\<rparr>,
      sh_product_bus := bus', sh_product_proc := p'\<rparr>)"
| shop_pay: "e_uuid env = wu \<Longrightarrow> m \<in> set (shop_bus st) \<Longrightarrow> sent m = ProcessPayment x \<Longrightarrow>
    shop_step u wu st (st\<lparr>sh_payments := snd (handleProcessPayment wfault env x (sh_payments st))\<rparr>)"
| shop_wallet: "wallet_request wu (sh_payments st) w \<Longrightarrow> shop_step u wu st (st\<lparr>sh_payments := w\<rparr>)"
| shop_payment_tick: "abstract_processPending env b db_fault locked (sh_payment_proc st)
      (outbox (sh_payments st), sh_payment_bus st) = (p', rows', bus') \<Longrightarrow>
    shop_step u wu st (st\<lparr>sh_payments := (sh_payments st)\<lparr>outbox := rows'\<rparr>, sh_payment_bus := bus', sh_payment_proc := p'\<rparr>)"

definition shop_initial :: "(nat \<Rightarrow> string) \<Rightarrow> (nat \<Rightarrow> string) \<Rightarrow> shop \<Rightarrow> bool" where
  "shop_initial u wu st \<longleftrightarrow> service_initial u (sh_orders st) \<and> uuid_ok wu \<and> payment_inv wu (sh_payments st) \<and>
     payments (sh_payments st) = [] \<and> outbox (sh_payments st) = [] \<and> idempotency_keys (sh_payments st) = [] \<and>
     outbox (ps_db (sh_products st)) = [] \<and> idempotency_keys (ps_db (sh_products st)) = [] \<and>
     sh_product_bus st = [] \<and> sh_payment_bus st = []"

definition shop_inv :: "(nat \<Rightarrow> string) \<Rightarrow> (nat \<Rightarrow> string) \<Rightarrow> shop \<Rightarrow> bool" where
  "shop_inv u wu st \<longleftrightarrow> service_inv u (sh_orders st) \<and> uuid_ok wu \<and> payment_inv wu (sh_payments st) \<and>
     backed (messages st) (os_db (sh_orders st)) \<and>
     stock_backed (messages st) (sh_products st) (sh_product_bus st) \<and>
     payments_backed (messages st) (sh_payments st) (sh_payment_bus st)"

lemma wallet_request_step: "wallet_request wu w w' \<Longrightarrow> payment_step wu w w'"
  by (erule wallet_request.cases) (auto intro: payment_step.intros)

lemma wallet_request_frame:
  "wallet_request wu w w' \<Longrightarrow> outbox w' = outbox w \<and> idempotency_keys w' = idempotency_keys w \<and> payments w' = payments w"
proof (induction rule: wallet_request.induct)
  case (request_register env b s fault e)
  show ?case unfolding handleUserRegistered_def
    by (rule transaction_keeps)
      (auto simp: WalletService_findOrCreate_def insert_wallet_def tx_bind_def ret_def Let_def split: option.splits if_splits)
next
  case (request_topUp env amount s fault userId roles)
  let ?P = "\<lambda>t. outbox t = outbox s \<and> idempotency_keys t = idempotency_keys s \<and> payments t = payments s"
  have "?P (snd (transaction fault (WalletService_topUp env userId amount) s))"
    by (rule transaction_keeps)
      (auto simp: WalletService_topUp_def insert_wallet_def save_wallet_def Let_def split: option.splits if_splits)
  then show ?case
    by (auto simp: WalletsController_topUp_def raise_def tx_bind_def payment_http_def ret_def split: prod.splits sum.splits)
qed

lemma shop_initial_inv: "shop_initial u wu st \<Longrightarrow> shop_inv u wu st"
  by (auto simp: shop_initial_def shop_inv_def shop_bus_def service_initial_def order_db_initial_def backed_def repo_defs tab_simps
      responds_def payments_backed_def IdempotencyService_find_def intro: service_initial_inv)

text \<open>Steps that leave the bus alone, and steps that add to it.\<close>

lemma shop_inv_grow:
  assumes "shop_inv u wu st" "messages st \<subseteq> pub"
  shows "backed pub (os_db (sh_orders st))" "stock_backed pub (sh_products st) (sh_product_bus st)"
    "payments_backed pub (sh_payments st) (sh_payment_bus st)"
  using assms unfolding shop_inv_def by (meson backed_mono, meson stock_backed_mono, meson payments_backed_mono)


lemma order_db_shop:
  assumes "shop_inv u wu st" "order_step u (sh_orders st) ((sh_orders st)\<lparr>os_db := s'\<rparr>)" "backed (messages st) s'"
  shows "shop_inv u wu (st\<lparr>sh_orders := (sh_orders st)\<lparr>os_db := s'\<rparr>\<rparr>)"
  using assms order_step_inv [OF assms(2)] by (simp add: shop_inv_def shop_bus_def)

text \<open>The three outbox processors.\<close>

lemma order_tick_shop:
  assumes inv: "shop_inv u wu st"
    and run: "order_processPending env b db_fault locked (os_proc (sh_orders st))
      (outbox (os_db (sh_orders st)), os_bus (sh_orders st)) = (p', rows', bus')"
  shows "shop_inv u wu (st\<lparr>sh_orders := (sh_orders st)\<lparr>os_db := (os_db (sh_orders st))\<lparr>outbox := rows'\<rparr>, os_bus := bus', os_proc := p'\<rparr>\<rparr>)"
    (is "shop_inv u wu ?st")
proof -
  have orders: "service_inv u (sh_orders st)" using inv by (simp add: shop_inv_def)
  then have dist: "distinct (map ob_id (outbox (os_db (sh_orders st))))"
    and del: "delivered_inv (outbox (os_db (sh_orders st)), os_bus (sh_orders st))"
    by (simp_all add: service_inv_def invD outbox_ids_ok_def)
  obtain ext where tick: "map ob_ident rows' = map ob_ident (outbox (os_db (sh_orders st)))" "bus' = os_bus (sh_orders st) @ ext"
    using order_tick_effect [OF dist del run] by blast
  have "messages st \<subseteq> messages ?st" by (auto simp: shop_bus_def tick(2))
  note grow = shop_inv_grow [OF inv this]
  show ?thesis using order_step_inv [OF order_step.step_tick [OF run] orders] inv grow tick_backed [OF grow(1) tick(1)]
    by (simp add: shop_inv_def)
qed

lemma product_tick_shop:
  assumes inv: "shop_inv u wu st"
    and run: "abstract_processPending env b db_fault locked (sh_product_proc st)
      (outbox (ps_db (sh_products st)), sh_product_bus st) = (p', rows', bus')"
  shows "shop_inv u wu (st\<lparr>sh_products := (sh_products st)\<lparr>ps_db := (ps_db (sh_products st))\<lparr>outbox := rows'\<rparr>\<rparr>,
      sh_product_bus := bus', sh_product_proc := p'\<rparr>)" (is "shop_inv u wu ?st")
proof -
  obtain ext where "bus' = sh_product_bus st @ ext" using abstract_tick_effect [OF run] by blast
  then have "messages st \<subseteq> messages ?st" by (auto simp: shop_bus_def)
  note grow = shop_inv_grow [OF inv this]
  show ?thesis using inv grow responds_tick [OF grow(2) run] by (simp add: shop_inv_def)
qed

lemma payment_tick_shop:
  assumes inv: "shop_inv u wu st"
    and run: "abstract_processPending env b db_fault locked (sh_payment_proc st)
      (outbox (sh_payments st), sh_payment_bus st) = (p', rows', bus')"
  shows "shop_inv u wu (st\<lparr>sh_payments := (sh_payments st)\<lparr>outbox := rows'\<rparr>, sh_payment_bus := bus', sh_payment_proc := p'\<rparr>)"
    (is "shop_inv u wu ?st")
proof -
  obtain ext where "bus' = sh_payment_bus st @ ext" using abstract_tick_effect [OF run] by blast
  then have "messages st \<subseteq> messages ?st" by (auto simp: shop_bus_def)
  note grow = shop_inv_grow [OF inv this]
  show ?thesis using inv grow payments_backed_tick [OF grow(3) run] by (simp add: shop_inv_def payment_inv_tick)
qed

lemma shop_step_inv:
  assumes "shop_step u wu st st'" "shop_inv u wu st"
  shows "shop_inv u wu st'"
proof -
  have orders: "uuid_ok u" "order_inv u (os_db (sh_orders st))" and pay: "uuid_ok wu" "payment_inv wu (sh_payments st)"
    and evi: "backed (messages st) (os_db (sh_orders st))" "stock_backed (messages st) (sh_products st) (sh_product_bus st)"
      "payments_backed (messages st) (sh_payments st) (sh_payment_bus st)"
    using assms(2) by (auto simp: shop_inv_def service_inv_def)
  have bus: "p \<in> messages st" if "m \<in> set (shop_bus st)" "sent m = p" for m p using that by auto
  from assms(1) show ?thesis
  proof cases
    case (shop_create env fault input)
    show ?thesis unfolding shop_create(1)
      by (rule order_db_shop [OF assms(2) order_step.step_create create_backed]) (use shop_create orders evi in simp_all)
  next
    case (shop_reply env m fault)
    show ?thesis unfolding shop_reply(1)
      by (rule order_db_shop [OF assms(2) order_step.step_reply reply_backed]) (use shop_reply orders evi in simp_all)
  next
    case (shop_timer rcs query)
    show ?thesis unfolding shop_timer(1)
      by (rule order_db_shop [OF assms(2) order_step.step_timer timer_backed]) (use shop_timer orders evi in simp_all)
  next
    case (shop_reserve m c fault env up)
    show ?thesis using assms(2) reserve_delivery [OF evi(2) bus [OF shop_reserve(2,3)]]
      by (simp add: shop_reserve(1) shop_inv_def shop_bus_def)
  next
    case (shop_release m d fault env up)
    show ?thesis using assms(2) release_delivery [OF evi(2) bus [OF shop_release(2,3)]]
      by (simp add: shop_release(1) shop_inv_def shop_bus_def)
  next
    case (shop_request q)
    show ?thesis using assms(2) request_backed [OF shop_request(2) evi(2)] by (simp add: shop_request(1) shop_inv_def shop_bus_def)
  next
    case (shop_pay env m x fault)
    show ?thesis
      using assms(2) payments_backed_delivery [OF evi(3) pay(2,1) shop_pay(2) bus [OF shop_pay(3,4)]]
        payment_command_inv [OF pay(2,1) shop_pay(2)] by (simp add: shop_pay(1) shop_inv_def shop_bus_def)
  next
    case (shop_wallet w)
    have "payments_backed (messages st) w (sh_payment_bus st)"
      using wallet_request_frame [OF shop_wallet(2)] by (intro payments_backed_cong [OF evi(3)]) simp_all
    then show ?thesis using assms(2) payment_step_inv [OF wallet_request_step [OF shop_wallet(2)] pay]
      by (simp add: shop_wallet(1) shop_inv_def shop_bus_def)
  next
    case shop_order_tick
    show ?thesis unfolding shop_order_tick(1) using assms(2) shop_order_tick(2) by (rule order_tick_shop)
  next
    case shop_product_tick
    show ?thesis unfolding shop_product_tick(1) using assms(2) shop_product_tick(2) by (rule product_tick_shop)
  next
    case shop_payment_tick
    show ?thesis unfolding shop_payment_tick(1) using assms(2) shop_payment_tick(2) by (rule payment_tick_shop)
  qed
qed

interpretation shop_machine: transition_system "shop_step u wu" "shop_initial u wu" "shop_inv u wu" for u wu
  by unfold_locales (auto intro: shop_initial_inv shop_step_inv)


subsection \<open>The outcome of an order\<close>

text \<open>
  \<open>answered_with t k s\<close>: the service has stored a reply of topic \<open>t\<close> for order \<open>k\<close>, in the transaction that did what the reply says.
\<close>

definition answered_with :: "topic_key \<Rightarrow> string \<Rightarrow> 'a idem_db_scheme \<Rightarrow> bool" where
  "answered_with t k s \<longleftrightarrow> (\<exists>r \<in> set (idempotency_keys s). case IdempotencyService_find (ik_key r) s of None \<Rightarrow> False
     | Some (_, p) \<Rightarrow> payload_topic p = t \<and> reply_order p = Some k)"

definition holds_stock :: "string \<Rightarrow> product_db \<Rightarrow> bool" where
  "holds_stock k s \<longleftrightarrow> answered_with STOCK_RESERVED k s \<and> \<not> answered_with STOCK_RELEASED k s"

lemma answered_with_iff:
  "answered_with t k s \<longleftrightarrow> (\<exists>key u p. IdempotencyService_find key s = Some (u, p) \<and> payload_topic p = t \<and> reply_order p = Some k)"
proof
  assume "\<exists>key u p. IdempotencyService_find key s = Some (u, p) \<and> payload_topic p = t \<and> reply_order p = Some k"
  then obtain key u p where find: "IdempotencyService_find key s = Some (u, p)" "payload_topic p = t" "reply_order p = Some k" by blast
  then obtain r where "r \<in> set (idempotency_keys s)" "ik_key r = key"
    by (auto simp: IdempotencyService_find_def split: option.splits dest: row_of_in row_of_key)
  with find show "answered_with t k s" by (force simp: answered_with_def)
next
  assume "answered_with t k s"
  then obtain r :: idempotency_key where r: "case IdempotencyService_find (ik_key r) s of None \<Rightarrow> False
     | Some (_, p) \<Rightarrow> payload_topic p = t \<and> reply_order p = Some k" unfolding answered_with_def by blast
  then obtain w where "IdempotencyService_find (ik_key r) s = Some w" by (cases "IdempotencyService_find (ik_key r) s") auto
  with r show "\<exists>key u p. IdempotencyService_find key s = Some (u, p) \<and> payload_topic p = t \<and> reply_order p = Some k"
    by (cases w) auto
qed

text \<open>Every message on the bus is a row of the order-service or a stored reply of one of the others.\<close>

lemma message_cases:
  assumes "shop_inv u wu st" "p \<in> messages st"
  obtains (order) r g a k where "r \<in> set (rowsOf k (os_db (sh_orders st)))" "ob_payload r = p"
      "sagaOf k (os_db (sh_orders st)) = Some g" "orderOf k (os_db (sh_orders st)) = Some a"
      "pair_ok g a (rowsOf k (os_db (sh_orders st)))" "payload_ok g a p" "ord_id a = k" "sg_orderId g = k"
  | (stock) key t where "IdempotencyService_find key (ps_db (sh_products st)) = Some (t, p)" "stock_answer (messages st) key p"
  | (payment) key t where "IdempotencyService_find key (sh_payments st) = Some (t, p)"
      "pay_answer (messages st) (payments (sh_payments st)) key p"
proof -
  from assms(2) consider "p \<in> sent ` set (os_bus (sh_orders st))" | "p \<in> sent ` set (sh_product_bus st)"
    | "p \<in> sent ` set (sh_payment_bus st)" by (auto simp: shop_bus_def)
  then show ?thesis
  proof cases
    case 1
    then obtain m where m: "m \<in> set (os_bus (sh_orders st))" "sent m = p" by auto
    have "service_inv u (sh_orders st)" using assms(1) by (simp add: shop_inv_def)
    then obtain r g a k where "r \<in> set (rowsOf k (os_db (sh_orders st)))" "carries r m"
      "sagaOf k (os_db (sh_orders st)) = Some g" "orderOf k (os_db (sh_orders st)) = Some a"
      "pair_ok g a (rowsOf k (os_db (sh_orders st)))" "row_ok g a r" "ord_id a = k" "sg_orderId g = k"
      using m(1) by (rule bus_row)
    with m(2) show ?thesis by (intro order) (auto simp: carries_def row_ok_def)
  next
    case 2
    have "stock_backed (messages st) (sh_products st) (sh_product_bus st)" using assms(1) by (simp add: shop_inv_def)
    from this 2 show ?thesis by (rule responds_published) (rule stock)
  next
    case 3
    have "responds (pay_answer (messages st) (payments (sh_payments st))) (sh_payments st) (sh_payment_bus st)"
      using assms(1) by (simp add: shop_inv_def payments_backed_def)
    from this 3 show ?thesis by (rule responds_published) (rule payment)
  qed
qed

lemmas answer_defs = stock_answer_def pay_answer_def reserved_reply_def refused_reply_def released_reply_def processed_reply_def
  failed_reply_def

lemma stock_answer_source:
  assumes "stock_answer cmds key p" "reply_order p = Some k"
  shows "payload_topic p \<in> {STOCK_RESERVED, STOCK_RESERVATION_FAILED} \<Longrightarrow>
      \<exists>c. ReserveStock c \<in> cmds \<and> commandId c = key \<and> orderId c = k"
    and "payload_topic p = STOCK_RELEASED \<Longrightarrow> \<exists>d. ReleaseStock d \<in> cmds \<and> commandId d = key \<and> orderId d = k"
  using assms by (auto simp: answer_defs)

lemma pay_answer_source:
  assumes "pay_answer cmds rows key p" "reply_order p = Some k"
  shows "\<exists>c. ProcessPayment c \<in> cmds \<and> commandId c = key \<and> orderId c = k \<and>
    (payload_topic p = PAYMENT_PROCESSED \<longrightarrow> (\<exists>q \<in> set rows. paid_for c q))"
  using assms by (auto simp: answer_defs)

lemma order_message:
  assumes "shop_inv u wu st" "p \<in> messages st" "reply_order p = None"
  obtains r g a k where "r \<in> set (rowsOf k (os_db (sh_orders st)))" "ob_payload r = p"
      "sagaOf k (os_db (sh_orders st)) = Some g" "orderOf k (os_db (sh_orders st)) = Some a"
      "pair_ok g a (rowsOf k (os_db (sh_orders st)))" "payload_ok g a p" "ord_id a = k" "sg_orderId g = k"
  using assms(1,2)
proof (cases rule: message_cases)
  case (stock key t)
  with assms(3) show ?thesis by (auto simp: answer_defs)
next
  case (payment key t)
  with assms(3) show ?thesis by (auto simp: answer_defs)
qed (rule that)

lemma told_stored:
  assumes "shop_inv u wu st" "told (messages st) k t"
  shows "t \<in> {STOCK_RESERVED, STOCK_RESERVATION_FAILED, STOCK_RELEASED} \<Longrightarrow> answered_with t k (ps_db (sh_products st))"
    and "t \<in> {PAYMENT_PROCESSED, PAYMENT_FAILED} \<Longrightarrow> answered_with t k (sh_payments st)"
proof -
  from assms(2) obtain p where p: "p \<in> messages st" "payload_topic p = t" "reply_order p = Some k" by (auto simp: told_def)
  show "answered_with t k (ps_db (sh_products st))" if "t \<in> {STOCK_RESERVED, STOCK_RESERVATION_FAILED, STOCK_RELEASED}"
    using assms(1) p(1)
  proof (cases rule: message_cases)
    case (order r g a k)
    with p(3) show ?thesis by (cases p) auto
  next
    case (stock key u)
    with p show ?thesis by (auto simp: answered_with_iff)
  next
    case (payment key u)
    with p(2) that show ?thesis by (auto simp: answer_defs)
  qed
  show "answered_with t k (sh_payments st)" if "t \<in> {PAYMENT_PROCESSED, PAYMENT_FAILED}"
    using assms(1) p(1)
  proof (cases rule: message_cases)
    case (order r g a k)
    with p(3) show ?thesis by (cases p) auto
  next
    case (stock key u)
    with p(2) that show ?thesis by (auto simp: answer_defs)
  next
    case (payment key u)
    with p show ?thesis by (auto simp: answered_with_iff)
  qed
qed


text \<open>The commands of an order have one key each.\<close>

lemma payment_source:
  assumes "shop_inv u wu st" "ProcessPayment c \<in> messages st"
  obtains g a where "sagaOf (orderId c) (os_db (sh_orders st)) = Some g" "orderOf (orderId c) (os_db (sh_orders st)) = Some a"
    "PROCESS_PAYMENT \<in> payload_topic ` ob_payload ` set (rowsOf (orderId c) (os_db (sh_orders st)))"
    "commandId c = sg_id g @ ''-pay''" "pp_userId c = ord_userId a" "fl (dec2 (pp_amount c)) = ord_total a"
  using assms
proof (rule order_message)
  fix r g a k
  assume "r \<in> set (rowsOf k (os_db (sh_orders st)))" "ob_payload r = ProcessPayment c"
    and "sagaOf k (os_db (sh_orders st)) = Some g" "orderOf k (os_db (sh_orders st)) = Some a"
    and "payload_ok g a (ProcessPayment c)" "sg_orderId g = k"
  then show thesis by (intro that [of g a]) (force simp: command_for_def)+
qed simp

lemma reserve_source:
  assumes "shop_inv u wu st" "ReserveStock c \<in> messages st"
  shows "\<exists>g. sagaOf (orderId c) (os_db (sh_orders st)) = Some g \<and> commandId c = sg_id g"
  using assms by (rule order_message) (auto simp: command_for_def)

lemma release_source:
  assumes "shop_inv u wu st" "ReleaseStock d \<in> messages st"
  shows "RELEASE_STOCK \<in> payload_topic ` ob_payload ` set (rowsOf (orderId d) (os_db (sh_orders st)))"
  using assms by (rule order_message) (force simp: command_for_def)+

text \<open>So a reservation is answered in one way, and so is a payment.\<close>

lemma stock_stored:
  assumes "shop_inv u wu st" "answered_with t k (ps_db (sh_products st))"
  obtains key u p where "IdempotencyService_find key (ps_db (sh_products st)) = Some (u, p)" "stock_answer (messages st) key p"
    "payload_topic p = t" "reply_order p = Some k"
  using assms by (auto simp: answered_with_iff shop_inv_def responds_def)

lemma reserved_not_refused:
  assumes inv: "shop_inv u wu st" and refused: "answered_with STOCK_RESERVATION_FAILED k (ps_db (sh_products st))"
  shows "\<not> answered_with STOCK_RESERVED k (ps_db (sh_products st))"
proof
  assume "answered_with STOCK_RESERVED k (ps_db (sh_products st))"
  with inv obtain key v p where p: "IdempotencyService_find key (ps_db (sh_products st)) = Some (v, p)" "stock_answer (messages st) key p"
    "payload_topic p = STOCK_RESERVED" "reply_order p = Some k" by (rule stock_stored)
  from inv refused obtain key' v' p' where p': "IdempotencyService_find key' (ps_db (sh_products st)) = Some (v', p')"
    "stock_answer (messages st) key' p'" "payload_topic p' = STOCK_RESERVATION_FAILED" "reply_order p' = Some k" by (rule stock_stored)
  obtain c where c: "ReserveStock c \<in> messages st" "commandId c = key" "orderId c = k"
    using stock_answer_source(1) [OF p(2,4)] p(3) by blast
  obtain c' where c': "ReserveStock c' \<in> messages st" "commandId c' = key'" "orderId c' = k"
    using stock_answer_source(1) [OF p'(2,4)] p'(3) by blast
  have "key = key'" using reserve_source [OF inv c(1)] reserve_source [OF inv c'(1)] c c' by auto
  with p(1,3) p'(1,3) show False by simp
qed

lemma completed_payment:
  assumes inv: "shop_inv u wu st" and q: "q \<in> set (payments (sh_payments st))" "pa_status q = PaymentStatus_COMPLETED"
  obtains c t t' where "ProcessPayment c \<in> messages st" "paid_for c q"
    "IdempotencyService_find (commandId c) (sh_payments st) = Some (t, processed_reply c t')"
  using assms unfolding shop_inv_def payments_backed_def by blast

lemma paid_not_refused:
  assumes inv: "shop_inv u wu st" and refused: "answered_with PAYMENT_FAILED (pa_orderId q) (sh_payments st)"
    and q: "q \<in> set (payments (sh_payments st))"
  shows "pa_status q \<noteq> PaymentStatus_COMPLETED"
proof
  assume "pa_status q = PaymentStatus_COMPLETED"
  with inv q obtain c t t' where c: "ProcessPayment c \<in> messages st" "paid_for c q"
    "IdempotencyService_find (commandId c) (sh_payments st) = Some (t, processed_reply c t')" by (rule completed_payment)
  obtain key v p where p: "IdempotencyService_find key (sh_payments st) = Some (v, p)" "payload_topic p = PAYMENT_FAILED"
    "reply_order p = Some (pa_orderId q)" using refused by (auto simp: answered_with_iff)
  have "pay_answer (messages st) (payments (sh_payments st)) key p"
    using inv p(1) by (simp add: shop_inv_def payments_backed_def responds_def)
  then obtain c' where c': "ProcessPayment c' \<in> messages st" "commandId c' = key" "orderId c' = pa_orderId q"
    using pay_answer_source p(3) by blast
  have "orderId c' = orderId c" using c(2) c'(3) by (simp add: paid_for_def)
  then have "commandId c = key" using payment_source [OF inv c(1)] payment_source [OF inv c'(1)] c'(2) by (metis option.inject)
  with c(3) p(1,2) show False by (simp add: processed_reply_def)
qed


lemma cancelled_outcome:
  assumes inv: "shop_inv u wu st" and a: "orderOf k (os_db (sh_orders st)) = Some a" "ord_status a = OrderStatus_CANCELLED"
  shows "\<not> holds_stock k (ps_db (sh_products st))"
    and "\<lbrakk>q \<in> set (payments (sh_payments st)); pa_orderId q = k\<rbrakk> \<Longrightarrow> pa_status q \<noteq> PaymentStatus_COMPLETED"
proof -
  have "order_inv u (os_db (sh_orders st))" and backed: "backed (messages st) (os_db (sh_orders st))"
    using inv by (simp_all add: shop_inv_def service_inv_def)
  then have "view_ok (sagaOf k (os_db (sh_orders st))) (orderOf k (os_db (sh_orders st))) (rowsOf k (os_db (sh_orders st)))"
    by (simp add: order_inv_def)
  then obtain g where g: "sagaOf k (os_db (sh_orders st)) = Some g"
    using a(1) by (cases "sagaOf k (os_db (sh_orders st))") auto
  from backedD [OF backed g a(1)] a(2)
  consider (refused) "told (messages st) k STOCK_RESERVATION_FAILED"
      "PROCESS_PAYMENT \<notin> payload_topic ` ob_payload ` set (rowsOf k (os_db (sh_orders st)))"
    | (released) "told (messages st) k PAYMENT_FAILED" "told (messages st) k STOCK_RELEASED"
    by (auto simp: evidence_def)
  note cases = this
  show "\<not> holds_stock k (ps_db (sh_products st))"
    using cases told_stored(1) [OF inv] reserved_not_refused [OF inv] by (cases) (simp_all add: holds_stock_def)
  assume q: "q \<in> set (payments (sh_payments st))" "pa_orderId q = k"
  show "pa_status q \<noteq> PaymentStatus_COMPLETED"
  proof (cases rule: cases)
    case refused
    show ?thesis
    proof
      assume "pa_status q = PaymentStatus_COMPLETED"
      with inv q(1) obtain c where "ProcessPayment c \<in> messages st" "paid_for c q" by (rule completed_payment)
      moreover from this(2) have "orderId c = k" using q(2) by (simp add: paid_for_def)
      ultimately show False using refused(2) payment_source [OF inv] by metis
    qed
  next
    case released
    then show ?thesis using told_stored(2) [OF inv] paid_not_refused [OF inv _ q(1)] q(2) by simp
  qed
qed

lemma paid_outcome:
  assumes inv: "shop_inv u wu st" and q: "q \<in> set (payments (sh_payments st))" "pa_status q = PaymentStatus_COMPLETED"
  obtains a where "orderOf (pa_orderId q) (os_db (sh_orders st)) = Some a" "ord_status a = OrderStatus_CONFIRMED"
    "ord_userId a = pa_userId q" "ord_total a = fl (pa_amount q)" "holds_stock (pa_orderId q) (ps_db (sh_products st))"
proof -
  let ?k = "pa_orderId q" and ?s = "os_db (sh_orders st)"
  obtain c where c: "ProcessPayment c \<in> messages st" "paid_for c q" using inv q by (rule completed_payment)
  have [simp]: "orderId c = ?k" using c(2) by (simp add: paid_for_def)
  obtain g a where ga: "sagaOf ?k ?s = Some g" "orderOf ?k ?s = Some a"
    and asked: "PROCESS_PAYMENT \<in> payload_topic ` ob_payload ` set (rowsOf ?k ?s)"
    and price: "pp_userId c = ord_userId a" "fl (dec2 (pp_amount c)) = ord_total a"
    using inv c(1) by (rule payment_source) simp
  have backed: "backed (messages st) ?s" and "order_inv u ?s" using inv by (simp_all add: shop_inv_def service_inv_def)
  note evi = backedD [OF backed ga] and pair = inv_pair(1) [OF this(2) ga]
  have "ord_status a \<noteq> OrderStatus_CANCELLED" using cancelled_outcome(2) [OF inv ga(2) _ q(1)] q(2) by auto
  moreover have "ord_status a \<noteq> OrderStatus_PENDING" using evi asked by (simp add: evidence_def)
  moreover have "ord_status a \<noteq> OrderStatus_COMPLETED" using pair by (cases "sg_currentStep g") (auto simp: pair_ok_def)
  ultimately have status: "ord_status a = OrderStatus_CONFIRMED" by (cases "ord_status a") simp_all
  then have reserved: "answered_with STOCK_RESERVED ?k (ps_db (sh_products st))"
    using evi told_stored(1) [OF inv] by (simp add: evidence_def)
  have "\<not> answered_with STOCK_RELEASED ?k (ps_db (sh_products st))"
  proof
    assume "answered_with STOCK_RELEASED ?k (ps_db (sh_products st))"
    with inv obtain key v p where p: "stock_answer (messages st) key p" "payload_topic p = STOCK_RELEASED" "reply_order p = Some ?k"
      by (rule stock_stored)
    obtain d where "ReleaseStock d \<in> messages st" "orderId d = ?k" using stock_answer_source(2) [OF p(1,3,2)] by blast
    then have "told (messages st) ?k PAYMENT_FAILED" using release_source [OF inv] evi by (fastforce simp: evidence_def)
    then show False using told_stored(2) [OF inv] paid_not_refused [OF inv _ q(1)] q(2) by simp
  qed
  with reserved show ?thesis using that ga(2) status price c(2) by (simp add: holds_stock_def paid_for_def)
qed

lemma confirmed_outcome:
  assumes inv: "shop_inv u wu st" and e: "OrderConfirmed e \<in> messages st"
  shows "\<exists>q \<in> set (payments (sh_payments st)). pa_orderId q = ev_orderId e \<and> pa_status q = PaymentStatus_COMPLETED \<and>
      pa_userId q = ev_userId e \<and> fl (pa_amount q) = oc_total e"
proof -
  let ?k = "ev_orderId e"
  obtain r g a k where ga: "sagaOf k (os_db (sh_orders st)) = Some g" "orderOf k (os_db (sh_orders st)) = Some a"
    "payload_ok g a (OrderConfirmed e)" "ord_id a = k" using inv e by (rule order_message) simp
  then have k: "k = ?k" "sg_currentStep g = SagaStep_COMPLETED" "ev_userId e = ord_userId a" "oc_total e = ord_total a"
    by (auto simp: event_for_def)
  have "backed (messages st) (os_db (sh_orders st))" using inv by (simp add: shop_inv_def)
  from backedD [OF this ga(1,2)] k have "told (messages st) ?k PAYMENT_PROCESSED" by (simp add: evidence_def)
  from told_stored(2) [OF inv this] obtain key v p where p: "IdempotencyService_find key (sh_payments st) = Some (v, p)"
    "payload_topic p = PAYMENT_PROCESSED" "reply_order p = Some ?k" by (auto simp: answered_with_iff)
  have "pay_answer (messages st) (payments (sh_payments st)) key p"
    using inv p(1) by (simp add: shop_inv_def payments_backed_def responds_def)
  then obtain c q where c: "ProcessPayment c \<in> messages st" "orderId c = ?k" and q: "q \<in> set (payments (sh_payments st))" "paid_for c q"
    using pay_answer_source [OF _ p(3)] p(2) by blast
  then have paid: "pa_status q = PaymentStatus_COMPLETED" "pa_orderId q = ?k" by (simp_all add: paid_for_def)
  obtain b where "orderOf ?k (os_db (sh_orders st)) = Some b" "ord_userId b = pa_userId q" "ord_total b = fl (pa_amount q)"
    using inv q(1) paid(1) unfolding paid(2) [symmetric] by (rule paid_outcome)
  with ga(2) k q(1) paid show ?thesis by (intro bexI [of _ q]) simp_all
qed


text \<open>
  A customer with \<open>k\<close> cents orders two pens. A round publishes what is in the three outboxes and delivers message \<open>i\<close> of the bus.
\<close>

definition product_tick :: "shop \<Rightarrow> shop" where
  "product_tick st = (case abstract_processPending sample_env (sample_broker (\<lambda>_. Stored)) None (\<lambda>_. False) (sh_product_proc st)
       (outbox (ps_db (sh_products st)), sh_product_bus st) of
     (p', rows', bus') \<Rightarrow> st\<lparr>sh_products := (sh_products st)\<lparr>ps_db := (ps_db (sh_products st))\<lparr>outbox := rows'\<rparr>\<rparr>,
       sh_product_bus := bus', sh_product_proc := p'\<rparr>)"

definition payment_tick :: "shop \<Rightarrow> shop" where
  "payment_tick st = (case abstract_processPending sample_env (sample_broker (\<lambda>_. Stored)) None (\<lambda>_. False) (sh_payment_proc st)
       (outbox (sh_payments st), sh_payment_bus st) of
     (p', rows', bus') \<Rightarrow> st\<lparr>sh_payments := (sh_payments st)\<lparr>outbox := rows'\<rparr>, sh_payment_bus := bus', sh_payment_proc := p'\<rparr>)"

definition sample_ticks :: "shop \<Rightarrow> shop" where
  "sample_ticks st = payment_tick (product_tick (st\<lparr>sh_orders := sample_tick (sh_orders st)\<rparr>))"

definition sample_deliver :: "payload kafka_message \<Rightarrow> shop \<Rightarrow> shop" where
  "sample_deliver m st =
     (case sent m of
        ReserveStock c \<Rightarrow> st\<lparr>sh_products := snd (handleReserveStock None sample_env True c (sh_products st))\<rparr>
      | ReleaseStock d \<Rightarrow> st\<lparr>sh_products := snd (handleReleaseStock None sample_env True d (sh_products st))\<rparr>
      | ProcessPayment x \<Rightarrow> st\<lparr>sh_payments := snd (handleProcessPayment None sample_env x (sh_payments st))\<rparr>
      | p \<Rightarrow> st\<lparr>sh_orders := sample_reply p (sh_orders st)\<rparr>)"

definition sample_round :: "nat \<Rightarrow> shop \<Rightarrow> shop" where
  "sample_round i st = (let st' = sample_ticks st in
     if i < length (shop_bus st') then sample_deliver (shop_bus st' ! i) st' else st')"

definition sample_shop :: "int \<Rightarrow> shop" where
  "sample_shop k = \<lparr>sh_orders = empty_service, sh_products = sample_products, sh_product_bus = [],
     sh_product_proc = \<lparr>isProcessing = False, maxRetries = 5\<rparr>, sh_payments = sample_wallets k, sh_payment_bus = [],
     sh_payment_proc = \<lparr>isProcessing = False, maxRetries = 5\<rparr>\<rparr>"

definition shop_after :: "nat list \<Rightarrow> int \<Rightarrow> shop" where
  "shop_after is k = sample_ticks (fold sample_round is ((sample_shop k)\<lparr>sh_orders := one_order\<rparr>))"

lemma sample_ticks_run: "run (shop_step u wu) st (sample_ticks st)"
proof -
  have "shop_step u wu s (s\<lparr>sh_orders := sample_tick (sh_orders s)\<rparr>)" for s
    unfolding sample_tick_def by (cases "order_processPending sample_env (sample_broker (\<lambda>_. Stored)) None (\<lambda>_. False)
       (os_proc (sh_orders s)) (outbox (os_db (sh_orders s)), os_bus (sh_orders s))") (simp add: shop_order_tick)
  moreover have "shop_step u wu s (product_tick s)" for s
    unfolding product_tick_def by (cases "abstract_processPending sample_env (sample_broker (\<lambda>_. Stored)) None (\<lambda>_. False)
       (sh_product_proc s) (outbox (ps_db (sh_products s)), sh_product_bus s)") (simp add: shop_product_tick)
  moreover have "shop_step u wu s (payment_tick s)" for s
    unfolding payment_tick_def by (cases "abstract_processPending sample_env (sample_broker (\<lambda>_. Stored)) None (\<lambda>_. False)
       (sh_payment_proc s) (outbox (sh_payments s), sh_payment_bus s)") (simp add: shop_payment_tick)
  ultimately show ?thesis unfolding sample_ticks_def by (metis run_refl run_step)
qed

lemma sample_deliver_step:
  assumes "m \<in> set (shop_bus st)"
  shows "shop_step (e_uuid sample_env) (e_uuid sample_env) st (sample_deliver m st)"
proof (cases "sent m")
  case ReserveStock
  then show ?thesis using shop_reserve [OF assms ReserveStock] by (simp add: sample_deliver_def)
next
  case ReleaseStock
  then show ?thesis using shop_release [OF assms ReleaseStock] by (simp add: sample_deliver_def)
next
  case ProcessPayment
  then show ?thesis using shop_pay [OF refl assms ProcessPayment] by (simp add: sample_deliver_def)
qed (use shop_reply [OF refl assms, where env = sample_env and fault = None] in \<open>simp_all add: sample_deliver_def sample_reply_def\<close>)

lemma sample_round_run: "run (shop_step (e_uuid sample_env) (e_uuid sample_env)) st (sample_round i st)"
  using sample_ticks_run run_step [OF sample_ticks_run sample_deliver_step] by (auto simp: sample_round_def Let_def)

lemma shop_after_reachable: "run (shop_step (e_uuid sample_env) (e_uuid sample_env)) (sample_shop k) (shop_after is k)"
proof -
  have "run (shop_step (e_uuid sample_env) (e_uuid sample_env)) st (fold sample_round is st)" for st
    by (induction "is" arbitrary: st) (auto intro: run_refl run_trans [OF sample_round_run])
  moreover have "shop_step (e_uuid sample_env) (e_uuid sample_env) (sample_shop k) ((sample_shop k)\<lparr>sh_orders := one_order\<rparr>)"
    using shop_create [where st = "sample_shop k" and env = sample_env and fault = None and input = sample_input, OF refl]
    by (simp add: one_order_def sample_shop_def)
  ultimately show ?thesis unfolding shop_after_def by (meson run_refl run_step run_trans sample_ticks_run)
qed

lemma sample_shop_initial: "0 \<le> k \<Longrightarrow> k < 10 ^ 12 \<Longrightarrow> shop_initial (e_uuid sample_env) (e_uuid sample_env) (sample_shop k)"
  using empty_service_initial sample_uuid_ok sample_wallets_inv [of k]
  by (simp add: shop_initial_def sample_shop_def) (simp add: sample_wallets_def sample_products_def)

fun announced :: "payload \<Rightarrow> (bool \<times> string \<times> string) option" where
  "announced (OrderConfirmed e) = Some (True, ev_orderId e, ev_userId e)"
| "announced (OrderCancelled e) = Some (False, ev_orderId e, ev_userId e)"
| "announced _ = None"

lemma announcement:
  assumes "Some (b, k, x) \<in> set (map (\<lambda>m. announced (sent m)) bus)"
  obtains m e where "b" "m \<in> set bus" "sent m = OrderConfirmed e" "ev_orderId e = k" "ev_userId e = x"
  | m e where "\<not> b" "m \<in> set bus" "sent m = OrderCancelled e" "ev_orderId e = k" "ev_userId e = x"
proof -
  from assms obtain m where m: "m \<in> set bus" "announced (sent m) = Some (b, k, x)" by auto
  then show ?thesis using that by (cases "sent m") auto
qed

text \<open>
  C1. The saga is all or nothing. In every execution of the three services together, with
  messages delivered late, repeatedly and out of order, steps failing and timers firing at any
  moment: an order that is announced as confirmed has exactly one payment, completed, by its user and of
  the announced total, and the product-service has answered its reservation as done and has released nothing of it; for an
  order that is announced as cancelled no payment was completed, and the product-service has refused its reservation or
  has done its release. (The lines a refused reservation leaves taken are not a reservation.)
\<close>

theorem saga_outcome:
  assumes "shop_initial u wu st0" "run (shop_step u wu) st0 st" "m \<in> set (shop_bus st)"
  shows "(\<forall>e. ke_payload (km_value m) = OrderConfirmed e \<longrightarrow>
      (\<exists>q. filter (\<lambda>q. pa_orderId q = ev_orderId e) (payments (sh_payments st)) = [q] \<and> pa_status q = PaymentStatus_COMPLETED \<and>
        pa_userId q = ev_userId e \<and> fl (pa_amount q) = oc_total e) \<and> holds_stock (ev_orderId e) (ps_db (sh_products st))) \<and>
    (\<forall>e. ke_payload (km_value m) = OrderCancelled e \<longrightarrow>
      (\<forall>q \<in> set (payments (sh_payments st)). pa_orderId q = ev_orderId e \<longrightarrow> pa_status q \<noteq> PaymentStatus_COMPLETED) \<and>
      \<not> holds_stock (ev_orderId e) (ps_db (sh_products st)))"
proof -
  have inv: "shop_inv u wu st" using shop_machine.reachable_inv [OF assms(1,2)] .
  then have dist: "distinct (map pa_orderId (payments (sh_payments st)))" by (simp add: shop_inv_def payment_inv_def)
  have bus: "p \<in> messages st" if "sent m = p" for p using assms(3) that by auto
  have "(\<exists>q. filter (\<lambda>q. pa_orderId q = ev_orderId e) (payments (sh_payments st)) = [q] \<and> pa_status q = PaymentStatus_COMPLETED \<and>
        pa_userId q = ev_userId e \<and> fl (pa_amount q) = oc_total e) \<and> holds_stock (ev_orderId e) (ps_db (sh_products st))"
    if "sent m = OrderConfirmed e" for e
  proof -
    from confirmed_outcome [OF inv bus [OF that]] obtain q where q: "q \<in> set (payments (sh_payments st))" "pa_orderId q = ev_orderId e"
      "pa_status q = PaymentStatus_COMPLETED" "pa_userId q = ev_userId e" "fl (pa_amount q) = oc_total e" by blast
    moreover have "holds_stock (ev_orderId e) (ps_db (sh_products st))"
      using paid_outcome [OF inv q(1,3)] unfolding q(2) by blast
    ultimately show ?thesis using filter_key_single [OF dist q(1)] by auto
  qed
  moreover have "(\<forall>q \<in> set (payments (sh_payments st)). pa_orderId q = ev_orderId e \<longrightarrow> pa_status q \<noteq> PaymentStatus_COMPLETED) \<and>
      \<not> holds_stock (ev_orderId e) (ps_db (sh_products st))" if e: "sent m = OrderCancelled e" for e
  proof -
    obtain r g a k where "orderOf k (os_db (sh_orders st)) = Some a" "payload_ok g a (OrderCancelled e)" "ord_id a = k"
      using inv bus [OF e] by (rule order_message) simp
    then have "orderOf (ev_orderId e) (os_db (sh_orders st)) = Some a" "ord_status a = OrderStatus_CANCELLED" by (auto simp: event_for_def)
    from cancelled_outcome [OF inv this] show ?thesis by blast
  qed
  ultimately show ?thesis by blast
qed

theorem saga_outcome_witness:
  "(\<exists>q. filter (\<lambda>q. pa_orderId q = ''a'') (payments (sh_payments (shop_after [0, 1, 1, 3] 5000))) = [q] \<and>
      pa_status q = PaymentStatus_COMPLETED \<and> pa_userId q = ''u1'') \<and>
   holds_stock ''a'' (ps_db (sh_products (shop_after [0, 1, 1, 3] 5000))) \<and>
   \<not> holds_stock ''a'' (ps_db (sh_products (shop_after [0, 1, 1, 3, 2, 4] 10)))"
proof -
  let ?paid = "shop_after [0, 1, 1, 3] 5000" and ?refused = "shop_after [0, 1, 1, 3, 2, 4] 10"
  have "map (\<lambda>m. announced (sent m)) (shop_bus ?paid) = [None, None, Some (True, ''a'', ''u1''), None, None]" by code_simp
  then have "Some (True, ''a'', ''u1'') \<in> set (map (\<lambda>m. announced (sent m)) (shop_bus ?paid))" by (simp del: set_map)
  then obtain m e where m: "m \<in> set (shop_bus ?paid)" "sent m = OrderConfirmed e" "ev_orderId e = ''a''" "ev_userId e = ''u1''"
    by (rule announcement) simp_all
  have "map (\<lambda>m. announced (sent m)) (shop_bus ?refused) = [None, None, None, Some (False, ''a'', ''u1''), None, None, None]" by code_simp
  then have "Some (False, ''a'', ''u1'') \<in> set (map (\<lambda>m. announced (sent m)) (shop_bus ?refused))" by (simp del: set_map)
  then obtain n d where n: "n \<in> set (shop_bus ?refused)" "sent n = OrderCancelled d" "ev_orderId d = ''a''"
    by (rule announcement) simp_all
  show ?thesis
    using saga_outcome [OF sample_shop_initial shop_after_reachable m(1)] m(2-)
      saga_outcome [OF sample_shop_initial shop_after_reachable n(1)] n(2-) by auto
qed

text \<open>
  C2. Nobody pays for goods that are not held. Whatever the shop has been through, a completed
  payment is for an order of the order-service that is placed by the user who was charged, is confirmed, has
  the amount of the charge as its total, and whose stock is reserved and not released. This includes an
  order whose saga has been failed by the retry timer while the reply of the payment was on its way.
\<close>

theorem paid_orders_hold_stock:
  assumes "shop_initial u wu st0" "run (shop_step u wu) st0 st" "q \<in> set (payments (sh_payments st))" "pa_status q = PaymentStatus_COMPLETED"
  shows "\<exists>a. TypeOrmOrderRepository_findById (pa_orderId q) (os_db (sh_orders st)) = Some a \<and> ord_status a = OrderStatus_CONFIRMED \<and>
    ord_userId a = pa_userId q \<and> ord_total a = fl (pa_amount q) \<and> holds_stock (pa_orderId q) (ps_db (sh_products st))"
  using paid_outcome [OF shop_machine.reachable_inv [OF assms(1,2)] assms(3,4)] by blast

theorem paid_orders_hold_stock_witness:
  "map pa_status (payments (sh_payments (shop_after [0, 1, 1] 5000))) = [PaymentStatus_COMPLETED] \<and>
   (\<exists>a. TypeOrmOrderRepository_findById ''a'' (os_db (sh_orders (shop_after [0, 1, 1] 5000))) = Some a \<and>
      ord_status a = OrderStatus_CONFIRMED \<and> ord_userId a = ''u1'') \<and>
   holds_stock ''a'' (ps_db (sh_products (shop_after [0, 1, 1] 5000)))"
proof -
  let ?st = "shop_after [0, 1, 1] 5000"
  have pay: "map (\<lambda>q. (pa_status q, pa_orderId q, pa_userId q)) (payments (sh_payments ?st)) = [(PaymentStatus_COMPLETED, ''a'', ''u1'')]"
    by code_simp
  then obtain q where q: "payments (sh_payments ?st) = [q]" "pa_status q = PaymentStatus_COMPLETED" "pa_orderId q = ''a''" "pa_userId q = ''u1''"
    by auto
  then have "q \<in> set (payments (sh_payments ?st))" by simp
  from paid_orders_hold_stock [OF sample_shop_initial shop_after_reachable this q(2)] q show ?thesis by auto
qed

end
