(* ===== verification/ProductReads.thy ===== *)
theory ProductReads
  imports ProductMachine
begin

section \<open>Overlapping requests for products\<close>

text \<open>
  Between the awaits of \<open>ProductsService.findById\<close> other requests run. This theory takes the
  requests of the product-service apart at their awaits: a read asks the cache, then joins the fetch in flight
  for its key or starts one (\<open>dedup\<close>); a fetch queries the database, fills the cache,
  settles, and its \<^verbatim>\<open>finally\<close> takes it out of the map before the readers resume;
  an update or a removal reads the product, saves the changed entity later and evicts still later; an HTTP
  reservation, one transaction, commits and evicts later; a stock command evicts
  first and commits later. Any interleaving of these actions is a run. The effects on database
  and cache are those of the operations of the theory \<open>Products\<close>; with \<open>up = False\<close>
  the eviction of a reservation or a command is left out, and follows as an action of its own.

  A command that another delivery of it overtakes is answered as a duplicate; in the service one consumer handles one
  message at a time, so this only adds runs.

  \<open>ct_versions\<close> are the states the database has had; no operation reads them.
\<close>

subsection \<open>State\<close>

datatype fetch_stage =
    Querying
  | Storing product_result
  | Settled "product_error + product_result"
  | Resolved "product_error + product_result"

record fetch =
  ft_product :: string
  ft_stage :: fetch_stage

datatype read =
    Asked string
  | Got string "product_result option"
  | Waiting string nat
  | Answered string "product_error + product_result"

record catalogue =
  ct_store :: product_service
  ct_inflight :: "string \<Rightarrow> nat option"
  ct_fetches :: "fetch list"
  ct_reads :: "read list"
  ct_saves :: "product_entity list"
  ct_evictions :: "string list list"
  ct_commands :: "products_command list"
  ct_versions :: "product_db list"

definition nth_opt :: "'a list \<Rightarrow> nat \<Rightarrow> 'a option" where
  "nth_opt xs n = (if n < length xs then Some (xs ! n) else None)"

definition set_read :: "nat \<Rightarrow> read \<Rightarrow> catalogue \<Rightarrow> catalogue" where
  "set_read n x c = c\<lparr>ct_reads := (ct_reads c)[n := x]\<rparr>"

definition set_stage :: "nat \<Rightarrow> fetch_stage \<Rightarrow> catalogue \<Rightarrow> catalogue" where
  "set_stage p x c = c\<lparr>ct_fetches := (ct_fetches c)[p := (ct_fetches c ! p)\<lparr>ft_stage := x\<rparr>]\<rparr>"

subsection \<open>Reads\<close>

text \<open>
  The function given to \<open>dedup\<close> starts with a query, so nothing of it runs before the map
  is written; the promise is its index among all fetches.
\<close>

definition dedup :: "string \<Rightarrow> string \<Rightarrow> catalogue \<Rightarrow> nat \<times> catalogue" where
  "dedup key i c =
     (case ct_inflight c key of
        Some existing \<Rightarrow> (existing, c)
      | None \<Rightarrow>
          (length (ct_fetches c),
           c\<lparr>ct_fetches := ct_fetches c @ [\<lparr>ft_product = i, ft_stage = Querying\<rparr>],
             ct_inflight := (ct_inflight c)(key := Some (length (ct_fetches c)))\<rparr>))"

definition findById_cached :: "bool \<Rightarrow> nat \<Rightarrow> catalogue \<Rightarrow> catalogue option" where
  "findById_cached up n c =
     (case nth_opt (ct_reads c) n of
        Some (Asked i) \<Rightarrow> Some (set_read n (Got i (cacheGet up (keyOne i) (ct_store c))) c)
      | _ \<Rightarrow> None)"

definition findById_continue :: "nat \<Rightarrow> catalogue \<Rightarrow> catalogue option" where
  "findById_continue n c =
     (case nth_opt (ct_reads c) n of
        Some (Got i (Some cached)) \<Rightarrow> Some (set_read n (Answered i (Inr cached)) c)
      | Some (Got i None) \<Rightarrow> (case dedup (keyOne i) i c of (p, c') \<Rightarrow> Some (set_read n (Waiting i p) c'))
      | _ \<Rightarrow> None)"

definition fetch_query :: "string option \<Rightarrow> nat \<Rightarrow> catalogue \<Rightarrow> catalogue option" where
  "fetch_query fault p c =
     (case nth_opt (ct_fetches c) p of
        Some f \<Rightarrow>
          (if ft_stage f = Querying then
             Some (set_stage p
               (case fault of
                  Some m \<Rightarrow> Settled (Inl (ProductQueryFailed m))
                | None \<Rightarrow>
                    (case find_active (ft_product f) (ps_db (ct_store c)) of
                       None \<Rightarrow> Settled (Inl (ProductNotFoundError (ft_product f)))
                     | Some product \<Rightarrow> Storing (product_toResult product))) c)
           else None)
      | None \<Rightarrow> None)"

definition fetch_store :: "bool \<Rightarrow> nat \<Rightarrow> catalogue \<Rightarrow> catalogue option" where
  "fetch_store up p c =
     (case nth_opt (ct_fetches c) p of
        Some f \<Rightarrow>
          (case ft_stage f of
             Storing result \<Rightarrow>
               Some (set_stage p (Settled (Inr result))
                 (c\<lparr>ct_store := cacheSet up (keyOne (ft_product f)) result (ct_store c)\<rparr>))
           | _ \<Rightarrow> None)
      | None \<Rightarrow> None)"

definition fetch_finally :: "nat \<Rightarrow> catalogue \<Rightarrow> catalogue option" where
  "fetch_finally p c =
     (case nth_opt (ct_fetches c) p of
        Some f \<Rightarrow>
          (case ft_stage f of
             Settled res \<Rightarrow>
               Some (set_stage p (Resolved res)
                 (c\<lparr>ct_inflight := (ct_inflight c)(keyOne (ft_product f) := None)\<rparr>))
           | _ \<Rightarrow> None)
      | None \<Rightarrow> None)"

definition findById_resume :: "nat \<Rightarrow> catalogue \<Rightarrow> catalogue option" where
  "findById_resume n c =
     (case nth_opt (ct_reads c) n of
        Some (Waiting i p) \<Rightarrow>
          (case map_option ft_stage (nth_opt (ct_fetches c) p) of
             Some (Resolved res) \<Rightarrow> Some (set_read n (Answered i res) c)
           | _ \<Rightarrow> None)
      | _ \<Rightarrow> None)"

datatype pending =
    Cached bool nat
  | Continue nat
  | Query "string option" nat
  | Store bool nat
  | Finally nat
  | Resume nat

fun proceed :: "pending \<Rightarrow> catalogue \<Rightarrow> catalogue option" where
  "proceed (Cached up n) c = findById_cached up n c"
| "proceed (Continue n) c = findById_continue n c"
| "proceed (Query fault p) c = fetch_query fault p c"
| "proceed (Store up p) c = fetch_store up p c"
| "proceed (Finally p) c = fetch_finally p c"
| "proceed (Resume n) c = findById_resume n c"

subsection \<open>Writes\<close>

definition commit :: "product_service \<Rightarrow> catalogue \<Rightarrow> catalogue" where
  "commit st c = c\<lparr>ct_store := st, ct_versions := ct_versions c @ [ps_db st]\<rparr>"

text \<open>A write that evicts once it has succeeded.\<close>

definition commit_then_evict :: "string list \<Rightarrow> ('e + 'a) \<times> product_service \<Rightarrow> catalogue \<Rightarrow> catalogue" where
  "commit_then_evict keys r c =
     (case r of
        (Inl _, st) \<Rightarrow> commit st c
      | (Inr _, st) \<Rightarrow> (commit st c)\<lparr>ct_evictions := ct_evictions c @ [keys]\<rparr>)"

text \<open>The query of an update or a removal; the changed entity waits to be saved.\<close>

definition change_found :: "(product_entity \<Rightarrow> product_entity) \<Rightarrow> string \<Rightarrow> catalogue \<Rightarrow> catalogue" where
  "change_found f i c =
     (case find_product i (ct_store c) of
        (Inl _, _) \<Rightarrow> c
      | (Inr p, _) \<Rightarrow> c\<lparr>ct_saves := ct_saves c @ [f p]\<rparr>)"

definition command_begin :: "bool \<Rightarrow> products_command \<Rightarrow> catalogue \<Rightarrow> catalogue" where
  "command_begin up cmd c =
     (let st = ct_store c; items = (case cmd of Reserve r \<Rightarrow> rs_items r | Release d \<Rightarrow> rl_items d)
      in c\<lparr>ct_store := (if IdempotencyService_find (products_commandId cmd) (ps_db st) = None then evict_items up items st else st),
           ct_commands := ct_commands c @ [cmd]\<rparr>)"

definition command_commit :: "product_error option \<Rightarrow> env \<Rightarrow> nat \<Rightarrow> catalogue \<Rightarrow> catalogue option" where
  "command_commit fault env n c =
     (case nth_opt (ct_commands c) n of
        None \<Rightarrow> None
      | Some cmd \<Rightarrow>
          Some (commit
            (snd (ProductsSagaController_handler \<lparr>pc_fault = fault, pc_env = env, pc_up = False\<rparr> cmd (ct_store c)))
            (c\<lparr>ct_commands := take n (ct_commands c) @ drop (Suc n) (ct_commands c)\<rparr>)))"

datatype request =
    Read string
  | Create env create_product_input
  | Update string update_product_input
  | Remove string
  | Save env nat
  | ReserveHttp "product_error option" env "command_item list"
  | Evict bool nat
  | Command bool products_command
  | Commit "product_error option" env nat
  | Expire string

fun request_step :: "request \<Rightarrow> catalogue \<Rightarrow> catalogue option" where
  "request_step (Read i) c = Some (c\<lparr>ct_reads := ct_reads c @ [Asked i]\<rparr>)"
| "request_step (Create env dto) c = Some (commit (snd (ProductsService_create env dto (ct_store c))) c)"
| "request_step (Update i dto) c = Some (change_found (assign_product dto) i c)"
| "request_step (Remove i) c = Some (change_found (\<lambda>p. p\<lparr>pe_isActive := False\<rparr>) i c)"
| "request_step (Save env n) c =
     (case nth_opt (ct_saves c) n of
        None \<Rightarrow> None
      | Some p \<Rightarrow> Some (commit_then_evict [keyOne (pe_id p)] (save_product env p (ct_store c))
          (c\<lparr>ct_saves := take n (ct_saves c) @ drop (Suc n) (ct_saves c)\<rparr>)))"
| "request_step (ReserveHttp fault env items) c =
     Some (commit_then_evict (map (\<lambda>x. keyOne (ci_productId x)) items)
       (ProductsService_reserveStock_own fault env False items (ct_store c)) c)"
| "request_step (Evict up n) c =
     (case nth_opt (ct_evictions c) n of
        None \<Rightarrow> None
      | Some keys \<Rightarrow> Some (c\<lparr>ct_store := cacheDel up keys (ct_store c),
          ct_evictions := take n (ct_evictions c) @ drop (Suc n) (ct_evictions c)\<rparr>))"
| "request_step (Command up cmd) c = Some (command_begin up cmd c)"
| "request_step (Commit fault env n) c = command_commit fault env n c"
| "request_step (Expire k) c = Some (c\<lparr>ct_store := (ct_store c)\<lparr>ps_cache := (ps_cache (ct_store c))(k := None)\<rparr>\<rparr>)"

inductive catalogue_step :: "catalogue \<Rightarrow> catalogue \<Rightarrow> bool" where
  pending: "proceed a c = Some c' \<Longrightarrow> catalogue_step c c'"
| requested: "request_step a c = Some c' \<Longrightarrow> catalogue_step c c'"

definition catalogue_initial :: "catalogue \<Rightarrow> bool" where
  "catalogue_initial c \<longleftrightarrow> (\<forall>k. ps_cache (ct_store c) k = None) \<and> (\<forall>k. ct_inflight c k = None) \<and> ct_fetches c = [] \<and>
     ct_reads c = [] \<and> ct_versions c = [ps_db (ct_store c)]"

subsection \<open>Invariant\<close>

text \<open>An answer for product \<open>i\<close> that one of the versions \<open>vs\<close> of the database gives.\<close>

fun was :: "product_db list \<Rightarrow> string \<Rightarrow> product_error + product_result \<Rightarrow> bool" where
  "was vs i (Inr r) \<longleftrightarrow> (\<exists>v \<in> set vs. map_option product_toResult (find_active i v) = Some r)"
| "was vs i (Inl (ProductNotFoundError j)) \<longleftrightarrow> j = i \<and> (\<exists>v \<in> set vs. find_active i v = None)"
| "was vs i (Inl (ProductQueryFailed m)) \<longleftrightarrow> True"
| "was vs i (Inl (InsufficientStockError j q s)) \<longleftrightarrow> False"

fun stage_ok :: "product_db list \<Rightarrow> string \<Rightarrow> fetch_stage \<Rightarrow> bool" where
  "stage_ok vs i Querying \<longleftrightarrow> True"
| "stage_ok vs i (Storing r) \<longleftrightarrow> was vs i (Inr r)"
| "stage_ok vs i (Settled res) \<longleftrightarrow> was vs i res"
| "stage_ok vs i (Resolved res) \<longleftrightarrow> was vs i res"

fun resolved :: "fetch_stage \<Rightarrow> bool" where
  "resolved (Resolved _) \<longleftrightarrow> True"
| "resolved _ \<longleftrightarrow> False"

fun read_ok :: "product_db list \<Rightarrow> string list \<Rightarrow> read \<Rightarrow> bool" where
  "read_ok vs fs (Asked i) \<longleftrightarrow> True"
| "read_ok vs fs (Got i None) \<longleftrightarrow> True"
| "read_ok vs fs (Got i (Some r)) \<longleftrightarrow> was vs i (Inr r)"
| "read_ok vs fs (Waiting i p) \<longleftrightarrow> p < length fs \<and> fs ! p = i"
| "read_ok vs fs (Answered i res) \<longleftrightarrow> was vs i res"

definition store_ok :: "product_db list \<Rightarrow> product_service \<Rightarrow> bool" where
  "store_ok vs st \<longleftrightarrow> ps_db st \<in> set vs \<and> (\<forall>i r. ps_cache st (keyOne i) = Some r \<longrightarrow> was vs i (Inr r))"

definition inflight_ok :: "(string \<Rightarrow> nat option) \<Rightarrow> fetch list \<Rightarrow> bool" where
  "inflight_ok m fs \<longleftrightarrow>
     (\<forall>k p. m k = Some p \<longleftrightarrow> p < length fs \<and> keyOne (ft_product (fs ! p)) = k \<and> \<not> resolved (ft_stage (fs ! p)))"

definition catalogue_inv :: "catalogue \<Rightarrow> bool" where
  "catalogue_inv c \<longleftrightarrow> store_ok (ct_versions c) (ct_store c) \<and> inflight_ok (ct_inflight c) (ct_fetches c) \<and>
     (\<forall>f \<in> set (ct_fetches c). stage_ok (ct_versions c) (ft_product f) (ft_stage f)) \<and>
     (\<forall>x \<in> set (ct_reads c). read_ok (ct_versions c) (map ft_product (ct_fetches c)) x)"

lemma was_mono: "was vs i res \<Longrightarrow> set vs \<subseteq> set ws \<Longrightarrow> was ws i res"
  by (induction vs i res rule: was.induct) auto

lemma stage_mono: "stage_ok vs i x \<Longrightarrow> set vs \<subseteq> set ws \<Longrightarrow> stage_ok ws i x"
  by (cases x) (auto intro: was_mono simp del: was.simps)

lemma read_mono: "read_ok vs fs x \<Longrightarrow> set vs \<subseteq> set ws \<Longrightarrow> read_ok ws (fs @ gs) x"
  by (induction vs fs x rule: read_ok.induct) (auto intro: was_mono simp: nth_append simp del: was.simps)

lemma nth_opt_Some [simp]: "nth_opt xs n = Some x \<longleftrightarrow> n < length xs \<and> xs ! n = x"
  by (simp add: nth_opt_def)

lemma inflight_iff:
  "inflight_ok m fs \<Longrightarrow> m k = Some p \<longleftrightarrow> p < length fs \<and> keyOne (ft_product (fs ! p)) = k \<and> \<not> resolved (ft_stage (fs ! p))"
  by (simp add: inflight_ok_def)

lemma inflight_new:
  assumes "inflight_ok m fs" "m (keyOne i) = None"
  shows "inflight_ok (m(keyOne i := Some (length fs))) (fs @ [\<lparr>ft_product = i, ft_stage = Querying\<rparr>])"
proof -
  have "resolved (ft_stage (fs ! p))" if "p < length fs" "ft_product (fs ! p) = i" for p
    using that assms inflight_iff [OF assms(1), of "keyOne i" p] by auto
  then show ?thesis using assms(1) by (auto simp: inflight_ok_def nth_append less_Suc_eq)
qed

lemma inflight_stage:
  assumes "inflight_ok m fs" "p < length fs" "\<not> resolved (ft_stage (fs ! p))" "\<not> resolved x"
  shows "inflight_ok m (fs[p := (fs ! p)\<lparr>ft_stage := x\<rparr>])"
  using assms by (auto simp: inflight_ok_def nth_list_update)

lemma inflight_gone:
  assumes "inflight_ok m fs" "p < length fs" "\<not> resolved (ft_stage (fs ! p))"
  shows "inflight_ok (m(keyOne (ft_product (fs ! p)) := None)) (fs[p := (fs ! p)\<lparr>ft_stage := Resolved res\<rparr>])"
  unfolding inflight_ok_def
proof (intro allI)
  fix k q
  have here: "m k = Some p \<longleftrightarrow> k = keyOne (ft_product (fs ! p))" for k
    using assms by (auto simp: inflight_iff [OF assms(1)])
  show "(m(keyOne (ft_product (fs ! p)) := None)) k = Some q \<longleftrightarrow>
      q < length (fs[p := (fs ! p)\<lparr>ft_stage := Resolved res\<rparr>]) \<and>
      keyOne (ft_product (fs[p := (fs ! p)\<lparr>ft_stage := Resolved res\<rparr>] ! q)) = k \<and>
      \<not> resolved (ft_stage (fs[p := (fs ! p)\<lparr>ft_stage := Resolved res\<rparr>] ! q))"
  proof (cases "q = p")
    case False
    with inflight_iff [OF assms(1), of k q] here [of "keyOne (ft_product (fs ! p))"] show ?thesis by (auto simp: nth_list_update)
  qed (use assms(2) here in \<open>auto simp: nth_list_update\<close>)
qed

lemma set_list_update: "y \<in> set (xs[n := x]) \<Longrightarrow> y = x \<or> y \<in> set xs"
  using set_update_subset_insert by fast

lemma set_stage_inv:
  assumes "catalogue_inv c" "p < length (ct_fetches c)" "stage_ok (ct_versions c) (ft_product (ct_fetches c ! p)) x"
    and "store_ok (ct_versions c) st" "inflight_ok m ((ct_fetches c)[p := (ct_fetches c ! p)\<lparr>ft_stage := x\<rparr>])"
  shows "catalogue_inv (set_stage p x (c\<lparr>ct_store := st, ct_inflight := m\<rparr>))"
proof -
  have "map ft_product ((ct_fetches c)[p := (ct_fetches c ! p)\<lparr>ft_stage := x\<rparr>]) = map ft_product (ct_fetches c)"
    using assms(2) by (auto intro: nth_equalityI simp: nth_list_update)
  then show ?thesis
    using assms by (auto simp: catalogue_inv_def set_stage_def dest!: set_list_update)
qed

lemma set_read_inv:
  assumes "catalogue_inv c" "read_ok (ct_versions c) (map ft_product (ct_fetches c)) x"
  shows "catalogue_inv (set_read n x c)"
  using assms by (auto simp: catalogue_inv_def set_read_def dest!: set_list_update)

lemma dedup_inv:
  assumes "catalogue_inv c" "dedup (keyOne i) i c = (p, c')"
  shows "catalogue_inv c' \<and> p < length (ct_fetches c') \<and> ft_product (ct_fetches c' ! p) = i"
proof (cases "ct_inflight c (keyOne i)")
  case None
  then have c': "p = length (ct_fetches c)" "c' = c\<lparr>ct_fetches := ct_fetches c @ [\<lparr>ft_product = i, ft_stage = Querying\<rparr>],
      ct_inflight := (ct_inflight c)(keyOne i := Some (length (ct_fetches c)))\<rparr>"
    using assms(2) by (auto simp: dedup_def)
  have "read_ok (ct_versions c) (map ft_product (ct_fetches c) @ [i]) x" if "x \<in> set (ct_reads c)" for x
    using that assms(1) by (intro read_mono [of "ct_versions c"]) (simp_all add: catalogue_inv_def)
  with assms(1) inflight_new [of "ct_inflight c" "ct_fetches c" i] None show ?thesis unfolding c' by (simp add: catalogue_inv_def)
next
  case (Some q)
  with assms show ?thesis by (auto simp: dedup_def catalogue_inv_def inflight_ok_def)
qed

lemma got_ok:
  "store_ok vs st \<Longrightarrow> read_ok vs fs (Got i (cacheGet up (keyOne i) st))"
  by (cases "cacheGet up (keyOne i) st") (auto simp: store_ok_def cacheGet_def split: if_splits)

lemma query_ok:
  "store_ok vs st \<Longrightarrow> stage_ok vs i (case fault of
      Some m \<Rightarrow> Settled (Inl (ProductQueryFailed m))
    | None \<Rightarrow> (case find_active i (ps_db st) of
         None \<Rightarrow> Settled (Inl (ProductNotFoundError i)) | Some product \<Rightarrow> Storing (product_toResult product)))"
  by (auto simp: store_ok_def split: option.splits)

lemma read_inv: "x \<in> set (ct_reads c) \<Longrightarrow> catalogue_inv c \<Longrightarrow> read_ok (ct_versions c) (map ft_product (ct_fetches c)) x"
  and store_inv: "catalogue_inv c \<Longrightarrow> store_ok (ct_versions c) (ct_store c)"
  and fetch_inv: "f \<in> set (ct_fetches c) \<Longrightarrow> catalogue_inv c \<Longrightarrow> stage_ok (ct_versions c) (ft_product f) (ft_stage f)"
  by (simp_all add: catalogue_inv_def)

lemma fetch_query_inv:
  assumes "fetch_query fault p c = Some c'" "catalogue_inv c"
  shows "catalogue_inv c'"
proof -
  have p: "p < length (ct_fetches c)" "ft_stage (ct_fetches c ! p) = Querying"
    using assms(1) by (auto simp: fetch_query_def split: option.splits if_splits)
  let ?i = "ft_product (ct_fetches c ! p)"
  define x where "x = (case fault of
      Some m \<Rightarrow> Settled (Inl (ProductQueryFailed m))
    | None \<Rightarrow> (case find_active ?i (ps_db (ct_store c)) of
         None \<Rightarrow> Settled (Inl (ProductNotFoundError ?i)) | Some product \<Rightarrow> Storing (product_toResult product)))"
  have c': "c' = set_stage p x (c\<lparr>ct_store := ct_store c, ct_inflight := ct_inflight c\<rparr>)"
    using assms(1) p by (simp add: fetch_query_def nth_opt_def x_def)
  have "\<not> resolved x" by (simp add: x_def split: option.splits)
  moreover have "stage_ok (ct_versions c) ?i x" unfolding x_def using store_inv [OF assms(2)] by (rule query_ok)
  ultimately show ?thesis
    unfolding c' using assms(2) p inflight_stage [of "ct_inflight c" "ct_fetches c" p x]
    by (intro set_stage_inv) (auto simp: catalogue_inv_def)
qed

lemma fetch_store_inv:
  assumes "fetch_store up p c = Some c'" "catalogue_inv c"
  shows "catalogue_inv c'"
proof -
  obtain r where p: "p < length (ct_fetches c)" "ft_stage (ct_fetches c ! p) = Storing r"
    and c': "c' = set_stage p (Settled (Inr r)) (c\<lparr>ct_store := cacheSet up (keyOne (ft_product (ct_fetches c ! p))) r (ct_store c),
      ct_inflight := ct_inflight c\<rparr>)"
    using assms(1) by (auto simp: fetch_store_def split: option.splits fetch_stage.splits)
  have r: "was (ct_versions c) (ft_product (ct_fetches c ! p)) (Inr r)"
    using fetch_inv [OF nth_mem [OF p(1)] assms(2)] p(2) by simp
  show ?thesis
    unfolding c'
    using assms(2) p r inflight_stage [of "ct_inflight c" "ct_fetches c" p "Settled (Inr r)"]
    by (intro set_stage_inv) (auto simp: catalogue_inv_def store_ok_def cacheSet_def)
qed

lemma fetch_finally_inv:
  assumes "fetch_finally p c = Some c'" "catalogue_inv c"
  shows "catalogue_inv c'"
proof -
  obtain res where p: "p < length (ct_fetches c)" "ft_stage (ct_fetches c ! p) = Settled res"
    and c': "c' = set_stage p (Resolved res) (c\<lparr>ct_store := ct_store c,
      ct_inflight := (ct_inflight c)(keyOne (ft_product (ct_fetches c ! p)) := None)\<rparr>)"
    using assms(1) by (auto simp: fetch_finally_def split: option.splits fetch_stage.splits)
  show ?thesis
    unfolding c'
    using assms(2) p fetch_inv [OF nth_mem [OF p(1)] assms(2)] inflight_gone [of "ct_inflight c" "ct_fetches c" p res]
    by (intro set_stage_inv) (auto simp: catalogue_inv_def)
qed

lemma continue_inv:
  assumes "findById_continue n c = Some c'" "catalogue_inv c"
  shows "catalogue_inv c'"
proof -
  obtain i v where n: "n < length (ct_reads c)" "ct_reads c ! n = Got i v"
    using assms(1) by (auto simp: findById_continue_def split: option.splits read.splits)
  show ?thesis
  proof (cases v)
    case None
    obtain p c1 where d: "dedup (keyOne i) i c = (p, c1)" by fastforce
    then have "c' = set_read n (Waiting i p) c1" using assms(1) n None by (simp add: findById_continue_def nth_opt_def)
    with dedup_inv [OF assms(2) d] show ?thesis by (simp add: set_read_inv)
  next
    case (Some r)
    then have "was (ct_versions c) i (Inr r)" using read_inv [OF nth_mem [OF n(1)] assms(2)] n(2) by simp
    moreover have "c' = set_read n (Answered i (Inr r)) c" using assms(1) n Some by (simp add: findById_continue_def nth_opt_def)
    ultimately show ?thesis using assms(2) by (simp add: set_read_inv)
  qed
qed

lemma proceed_inv:
  assumes "proceed a c = Some c'" "catalogue_inv c"
  shows "catalogue_inv c'"
proof (cases a)
  case (Cached up n)
  then obtain i where "c' = set_read n (Got i (cacheGet up (keyOne i) (ct_store c))) c"
    using assms(1) by (auto simp: findById_cached_def split: option.splits read.splits)
  then show ?thesis using assms(2) by (simp add: set_read_inv got_ok store_inv)
next
  case (Resume n)
  then obtain i p res where n: "n < length (ct_reads c)" "ct_reads c ! n = Waiting i p" "p < length (ct_fetches c)"
    "ft_stage (ct_fetches c ! p) = Resolved res" "c' = set_read n (Answered i res) c"
    using assms(1) by (auto simp: findById_resume_def split: option.splits read.splits fetch_stage.splits)
  have "ft_product (ct_fetches c ! p) = i" using read_inv [OF nth_mem [OF n(1)] assms(2)] n(2,3) by simp
  then have "was (ct_versions c) i res" using fetch_inv [OF nth_mem [OF n(3)] assms(2)] n(4) by auto
  with n(5) assms(2) show ?thesis by (simp add: set_read_inv)
qed (use assms in \<open>auto intro: continue_inv fetch_query_inv fetch_store_inv fetch_finally_inv\<close>)

lemma change_store_inv:
  assumes "catalogue_inv c" "set (ct_versions c) \<subseteq> set (ct_versions c')" "store_ok (ct_versions c') (ct_store c')"
    and "ct_inflight c' = ct_inflight c" "ct_fetches c' = ct_fetches c" "ct_reads c' = ct_reads c"
  shows "catalogue_inv c'"
proof -
  have "read_ok (ct_versions c') (map ft_product (ct_fetches c) @ []) x" if "x \<in> set (ct_reads c)" for x
    using read_inv [OF that assms(1)] assms(2) by (rule read_mono)
  with assms show ?thesis by (auto simp: catalogue_inv_def intro: stage_mono)
qed

lemma fewer_cached:
  assumes "store_ok vs st" "ps_db st' \<in> set ws" "set vs \<subseteq> set ws" "\<And>k. ps_cache st' k = None \<or> ps_cache st' k = ps_cache st k"
  shows "store_ok ws st'"
  using assms unfolding store_ok_def by (metis option.distinct(1) was_mono)

lemma commit_inv:
  assumes "catalogue_inv c" "ps_cache st = ps_cache (ct_store c)"
  shows "catalogue_inv (commit st c)"
  using assms(1)
  by (rule change_store_inv) (use assms in \<open>auto simp: commit_def intro!: fewer_cached [OF store_inv]\<close>)

lemma without_eviction:
  "ps_cache (snd (ProductsService_create env dto st)) = ps_cache st"
  "ps_cache (snd (save_product env p st)) = ps_cache st"
  "ps_cache (snd (ProductsService_reserveStock_own fault env False items st)) = ps_cache st"
  "ps_cache (snd (handleReserveStock pfault env False r st)) = ps_cache st"
  "ps_cache (snd (handleReleaseStock pfault env False d st)) = ps_cache st"
  by (auto simp: ProductsService_create_def save_product_def
      ProductsService_reserveStock_own_def handleReserveStock_def handleReleaseStock_def Let_def cacheDel_def evict_items_def
      split: option.splits prod.splits sum.splits)

lemma commit_then_evict_inv:
  assumes "catalogue_inv c" "ps_cache (snd r) = ps_cache (ct_store c)"
  shows "catalogue_inv (commit_then_evict keys r c)"
  using commit_inv [OF assms]
  by (auto simp: commit_then_evict_def commit_def catalogue_inv_def split: prod.splits sum.splits)

lemma request_inv:
  assumes "request_step a c = Some c'" "catalogue_inv c"
  shows "catalogue_inv c'"
proof (cases a)
  case (Read i)
  with assms show ?thesis by (auto simp: catalogue_inv_def)
next
  case (Update i dto)
  with assms show ?thesis by (auto simp: change_found_def catalogue_inv_def split: prod.splits sum.splits)
next
  case (Remove i)
  with assms show ?thesis by (auto simp: change_found_def catalogue_inv_def split: prod.splits sum.splits)
next
  case (Save env n)
  then obtain p where c': "c' = commit_then_evict [keyOne (pe_id p)] (save_product env p (ct_store c))
      (c\<lparr>ct_saves := take n (ct_saves c) @ drop (Suc n) (ct_saves c)\<rparr>)"
    using assms(1) by (auto split: option.splits)
  have "catalogue_inv (c\<lparr>ct_saves := x\<rparr>)" for x using assms(2) by (simp add: catalogue_inv_def)
  then show ?thesis unfolding c' by (rule commit_then_evict_inv) (simp add: without_eviction)
next
  case (Evict up n)
  then obtain keys where c': "c' = c\<lparr>ct_store := cacheDel up keys (ct_store c),
      ct_evictions := take n (ct_evictions c) @ drop (Suc n) (ct_evictions c)\<rparr>"
    using assms(1) by (auto split: option.splits)
  show ?thesis
    unfolding c' using assms(2)
    by (rule change_store_inv) (use store_inv [OF assms(2)] in \<open>auto simp: store_ok_def cacheDel_def intro: fewer_cached\<close>)
next
  case (Command up cmd)
  have "store_ok (ct_versions c) (ct_store c')"
    using assms(1) Command store_inv [OF assms(2)]
    by (intro fewer_cached [OF store_inv [OF assms(2)]])
      (auto simp: command_begin_def Let_def store_ok_def evict_items_def cacheDel_def split: if_splits)
  with Command assms show ?thesis
    by (intro change_store_inv [OF assms(2)]) (auto simp: command_begin_def Let_def)
next
  case (Commit fault env n)
  then obtain cmd where c': "c' = commit
    (snd (ProductsSagaController_handler \<lparr>pc_fault = fault, pc_env = env, pc_up = False\<rparr> cmd (ct_store c)))
    (c\<lparr>ct_commands := take n (ct_commands c) @ drop (Suc n) (ct_commands c)\<rparr>)"
    using assms(1) by (auto simp: command_commit_def split: option.splits)
  have "catalogue_inv (c\<lparr>ct_commands := x\<rparr>)" for x using assms(2) by (simp add: catalogue_inv_def)
  then show ?thesis
    unfolding c' by (rule commit_inv) (cases cmd; simp add: without_eviction)
next
  case (Expire k)
  with assms show ?thesis
    by (intro change_store_inv [OF assms(2)]) (auto simp: store_ok_def dest!: store_inv split: if_splits)
qed (use assms in \<open>auto intro!: commit_inv commit_then_evict_inv simp: without_eviction\<close>)

lemma catalogue_initial_inv: "catalogue_initial c \<Longrightarrow> catalogue_inv c"
  by (simp add: catalogue_initial_def catalogue_inv_def store_ok_def inflight_ok_def)

interpretation catalogue_machine: transition_system catalogue_step catalogue_initial catalogue_inv
  by unfold_locales (auto simp: catalogue_initial_inv elim!: catalogue_step.cases intro: proceed_inv request_inv)

subsection \<open>One fetch at a time\<close>

text \<open>
  C24. However requests interleave and whatever fails: a product is fetched from the database by
  one fetch at a time, a reader only ever waits for a fetch of the product it asked for, every
  answer is the product as the database held it at some moment, or its absence, or the failure of the
  query, and no entry stays behind in the map once the fetches are over, failed ones included.
\<close>

theorem reads_deduplicated:
  assumes "catalogue_initial c0" "run catalogue_step c0 c"
  shows "(\<forall>p < length (ct_fetches c). \<forall>q < length (ct_fetches c).
      ft_product (ct_fetches c ! p) = ft_product (ct_fetches c ! q) \<longrightarrow>
      \<not> resolved (ft_stage (ct_fetches c ! p)) \<longrightarrow> \<not> resolved (ft_stage (ct_fetches c ! q)) \<longrightarrow> p = q) \<and>
    (\<forall>i p. Waiting i p \<in> set (ct_reads c) \<longrightarrow> p < length (ct_fetches c) \<and> ft_product (ct_fetches c ! p) = i) \<and>
    (\<forall>i res. Answered i res \<in> set (ct_reads c) \<longrightarrow> was (ct_versions c) i res) \<and>
    ((\<forall>f \<in> set (ct_fetches c). resolved (ft_stage f)) \<longrightarrow> (\<forall>k. ct_inflight c k = None))"
proof -
  have inv: "catalogue_inv c" using catalogue_machine.reachable_inv [OF assms] .
  then have iff: "ct_inflight c k = Some p \<longleftrightarrow>
      p < length (ct_fetches c) \<and> keyOne (ft_product (ct_fetches c ! p)) = k \<and> \<not> resolved (ft_stage (ct_fetches c ! p))" for k p
    by (simp add: catalogue_inv_def inflight_ok_def)
  have "p = q" if "p < length (ct_fetches c)" "q < length (ct_fetches c)" "ft_product (ct_fetches c ! p) = ft_product (ct_fetches c ! q)"
    "\<not> resolved (ft_stage (ct_fetches c ! p))" "\<not> resolved (ft_stage (ct_fetches c ! q))" for p q
    using that iff [of "keyOne (ft_product (ct_fetches c ! p))"] by (metis option.inject)
  moreover have "ct_inflight c k = None" if "\<forall>f \<in> set (ct_fetches c). resolved (ft_stage f)" for k
    using that iff [of k] by (metis not_Some_eq nth_mem)
  ultimately show ?thesis using read_inv [OF _ inv] by fastforce
qed

subsection \<open>Every read is answered\<close>

fun read_work :: "read \<Rightarrow> nat" where
  "read_work (Asked _) = 6"
| "read_work (Got _ _) = 5"
| "read_work (Waiting _ _) = 1"
| "read_work (Answered _ _) = 0"

fun stage_work :: "fetch_stage \<Rightarrow> nat" where
  "stage_work Querying = 3"
| "stage_work (Storing _) = 2"
| "stage_work (Settled _) = 1"
| "stage_work (Resolved _) = 0"

definition work :: "catalogue \<Rightarrow> nat" where
  "work c = (\<Sum>x \<leftarrow> ct_reads c. read_work x) + (\<Sum>f \<leftarrow> ct_fetches c. stage_work (ft_stage f))"

fun read_product :: "read \<Rightarrow> string" where
  "read_product (Asked i) = i"
| "read_product (Got i _) = i"
| "read_product (Waiting i _) = i"
| "read_product (Answered i _) = i"

lemma sum_list_map_update:
  fixes h :: "'a \<Rightarrow> nat"
  assumes "n < length xs" "h x < h (xs ! n)"
  shows "(\<Sum>y \<leftarrow> xs[n := x]. h y) + h (xs ! n) = (\<Sum>y \<leftarrow> xs. h y) + h x"
  using assms
proof (induction xs arbitrary: n)
  case (Cons a xs)
  then show ?case by (cases n) auto
qed simp

lemma set_read_work:
  "n < length (ct_reads c) \<Longrightarrow> read_work x < read_work (ct_reads c ! n) \<Longrightarrow>
    work (set_read n x c) + read_work (ct_reads c ! n) = work c + read_work x"
  using sum_list_map_update [of n "ct_reads c" read_work x] by (simp add: work_def set_read_def)

lemma set_stage_work:
  assumes "p < length (ct_fetches c)" "stage_work x < stage_work (ft_stage (ct_fetches c ! p))"
  shows "work (set_stage p x c) < work c"
  using assms sum_list_map_update [of p "ct_fetches c" "\<lambda>f. stage_work (ft_stage f)" "(ct_fetches c ! p)\<lparr>ft_stage := x\<rparr>"]
  by (simp add: work_def set_stage_def)

lemma dedup_work: "dedup k i c = (p, c') \<Longrightarrow> work c' \<le> work c + 3 \<and> ct_reads c' = ct_reads c"
  by (auto simp: dedup_def work_def split: option.splits)

lemma set_read_product: "n < length (ct_reads c) \<Longrightarrow> read_product x = read_product (ct_reads c ! n) \<Longrightarrow>
    map read_product (ct_reads (set_read n x c)) = map read_product (ct_reads c)"
  by (auto simp: set_read_def nth_list_update intro: nth_equalityI)

lemma continue_work:
  assumes "findById_continue n c = Some c'"
  shows "work c' < work c \<and> map read_product (ct_reads c') = map read_product (ct_reads c)"
proof -
  obtain i v where n: "n < length (ct_reads c)" "ct_reads c ! n = Got i v"
    using assms by (auto simp: findById_continue_def split: option.splits read.splits)
  show ?thesis
  proof (cases v)
    case None
    obtain p c1 where d: "dedup (keyOne i) i c = (p, c1)" by fastforce
    then have c': "c' = set_read n (Waiting i p) c1" using assms n None by (simp add: findById_continue_def nth_opt_def)
    have c1: "n < length (ct_reads c1)" "ct_reads c1 ! n = Got i v" "work c1 \<le> work c + 3" "ct_reads c1 = ct_reads c"
      using dedup_work [OF d] n by simp_all
    have "work c' + 5 = work c1 + 1" using set_read_work [of n c1 "Waiting i p"] c1 unfolding c' by simp
    with c1 show ?thesis using set_read_product [of n c1 "Waiting i p"] unfolding c' by simp
  next
    case (Some r)
    then have "c' = set_read n (Answered i (Inr r)) c" using assms n by (simp add: findById_continue_def nth_opt_def)
    with n show ?thesis
      using set_read_work [of n c "Answered i (Inr r)"] set_read_product [of n c "Answered i (Inr r)"] by simp
  qed
qed

lemma proceed_work:
  assumes "proceed a c = Some c'"
  shows "work c' < work c \<and> map read_product (ct_reads c') = map read_product (ct_reads c)"
proof (cases a)
  case (Cached up n)
  then obtain i v where "n < length (ct_reads c)" "ct_reads c ! n = Asked i" "c' = set_read n (Got i v) c"
    using assms by (auto simp: findById_cached_def split: option.splits read.splits)
  then show ?thesis using set_read_work [of n c "Got i v"] set_read_product [of n c "Got i v"] by simp
next
  case (Resume n)
  then obtain i p res where "n < length (ct_reads c)" "ct_reads c ! n = Waiting i p" "c' = set_read n (Answered i res) c"
    using assms by (auto simp: findById_resume_def split: option.splits read.splits fetch_stage.splits)
  then show ?thesis using set_read_work [of n c "Answered i res"] set_read_product [of n c "Answered i res"] by simp
next
  case (Query fault p)
  have "stage_work (case fault of Some m \<Rightarrow> Settled (Inl (ProductQueryFailed m))
      | None \<Rightarrow> (case r of None \<Rightarrow> Settled (Inl (ProductNotFoundError i)) | Some product \<Rightarrow> Storing (product_toResult product))) < 3"
    for r i by (simp split: option.splits)
  with Query assms show ?thesis
    by (auto simp: fetch_query_def set_stage_work split: option.splits if_splits) (simp_all add: set_stage_def)
next
  case (Store up p)
  have "work (c\<lparr>ct_store := x\<rparr>) = work c" for x by (simp add: work_def)
  with Store assms set_stage_work [of p "c\<lparr>ct_store := _\<rparr>"] show ?thesis
    by (auto simp: fetch_store_def split: option.splits fetch_stage.splits) (simp_all add: set_stage_def)
next
  case (Finally p)
  have "work (c\<lparr>ct_inflight := x\<rparr>) = work c" for x by (simp add: work_def)
  with Finally assms set_stage_work [of p "c\<lparr>ct_inflight := _\<rparr>"] show ?thesis
    by (auto simp: fetch_finally_def split: option.splits fetch_stage.splits) (simp_all add: set_stage_def)
qed (use assms continue_work in auto)

lemma no_read_stuck:
  assumes "catalogue_inv c" "\<And>a. proceed a c = None" "x \<in> set (ct_reads c)"
  shows "\<exists>i res. x = Answered i res"
proof -
  obtain n where n: "n < length (ct_reads c)" "ct_reads c ! n = x" using assms(3) by (auto simp: in_set_conv_nth)
  show ?thesis
  proof (cases x)
    case (Asked i)
    with n assms(2) [of "Cached True n"] show ?thesis by (simp add: findById_cached_def nth_opt_def)
  next
    case (Got i v)
    with n assms(2) [of "Continue n"] show ?thesis
      by (cases v) (auto simp: findById_continue_def nth_opt_def split: prod.splits)
  next
    case (Waiting i p)
    then have p: "p < length (ct_fetches c)" using read_inv [OF assms(3,1)] by simp
    show ?thesis
    proof (cases "ft_stage (ct_fetches c ! p)")
      case Querying
      with p assms(2) [of "Query None p"] show ?thesis by (simp add: fetch_query_def nth_opt_def)
    next
      case (Storing r)
      with p assms(2) [of "Store True p"] show ?thesis by (simp add: fetch_store_def nth_opt_def)
    next
      case (Settled res)
      with p assms(2) [of "Finally p"] show ?thesis by (simp add: fetch_finally_def nth_opt_def)
    next
      case (Resolved res)
      with p n Waiting assms(2) [of "Resume n"] show ?thesis by (simp add: findById_resume_def nth_opt_def)
    qed
  qed simp
qed

fun proceed_all :: "pending list \<Rightarrow> catalogue \<Rightarrow> catalogue option" where
  "proceed_all [] c = Some c"
| "proceed_all (a # as) c = (case proceed a c of None \<Rightarrow> None | Some c' \<Rightarrow> proceed_all as c')"

lemma proceed_all_work:
  "proceed_all as c = Some c' \<Longrightarrow>
    length as + work c' \<le> work c \<and> map read_product (ct_reads c') = map read_product (ct_reads c)"
proof (induction as arbitrary: c)
  case (Cons a as)
  then obtain d where "proceed a c = Some d" "proceed_all as d = Some c'" by (auto split: option.splits)
  with Cons.IH [of d] proceed_work [of a c d] show ?case by auto
qed simp

lemma proceed_all_inv: "proceed_all as c = Some c' \<Longrightarrow> catalogue_inv c \<Longrightarrow> catalogue_inv c'"
  by (induction as arbitrary: c) (auto split: option.splits dest: proceed_inv)

lemma proceed_to_end: "\<exists>as c'. proceed_all as c = Some c' \<and> (\<forall>a. proceed a c' = None)"
proof (induction "work c" arbitrary: c rule: less_induct)
  case less
  show ?case
  proof (cases "\<forall>a. proceed a c = None")
    case True
    then show ?thesis by (intro exI [of _ "[]"]) simp
  next
    case False
    then obtain a d where a: "proceed a c = Some d" by auto
    with less proceed_work obtain as c' where "proceed_all as d = Some c'" "\<forall>a. proceed a c' = None" by blast
    with a show ?thesis by (intro exI [of _ "a # as"] exI [of _ c']) simp
  qed
qed

lemma work_bound: "work c \<le> 6 * length (ct_reads c) + 3 * length (ct_fetches c)"
proof -
  have "read_work x \<le> 6" for x by (cases x) simp_all
  moreover have "stage_work x \<le> 3" for x by (cases x) simp_all
  ultimately have "(\<Sum>x \<leftarrow> ct_reads c. read_work x) \<le> (\<Sum>x \<leftarrow> ct_reads c. 6)"
    "(\<Sum>f \<leftarrow> ct_fetches c. stage_work (ft_stage f)) \<le> (\<Sum>f \<leftarrow> ct_fetches c. 3)"
    by (auto intro!: sum_list_mono)
  then show ?thesis by (simp add: work_def sum_list_triv)
qed

text \<open>
  C25. Every read is answered. In any reachable state, without further requests, the pending
  reads and fetches can go on for at most six steps a read and three a fetch, in whatever order
  and with whatever failures of cache and database; when none can go on, every read has its
  answer, for the product it asked for and as some version of the database gives it; and
  they can always go on until then: no reader waits for ever.
\<close>

theorem reads_answered:
  assumes "catalogue_initial c0" "run catalogue_step c0 c"
  shows "(\<forall>as c'. proceed_all as c = Some c' \<longrightarrow>
      length as \<le> 6 * length (ct_reads c) + 3 * length (ct_fetches c) \<and>
      ((\<forall>a. proceed a c' = None) \<longrightarrow>
        list_all2 (\<lambda>i x. \<exists>res. x = Answered i res \<and> was (ct_versions c') i res) (map read_product (ct_reads c)) (ct_reads c'))) \<and>
    (\<exists>as c'. proceed_all as c = Some c' \<and> (\<forall>a. proceed a c' = None))"
proof -
  have inv: "catalogue_inv c" using catalogue_machine.reachable_inv [OF assms] .
  have "list_all2 (\<lambda>i x. \<exists>res. x = Answered i res \<and> was (ct_versions c') i res) (map read_product (ct_reads c)) (ct_reads c')"
    if run: "proceed_all as c = Some c'" and stop: "\<And>a. proceed a c' = None" for as c'
  proof -
    have inv': "catalogue_inv c'" using proceed_all_inv [OF run inv] .
    have "\<exists>res. x = Answered (read_product x) res \<and> was (ct_versions c') (read_product x) res" if x: "x \<in> set (ct_reads c')" for x
      using no_read_stuck [OF inv' stop x] read_inv [OF x inv'] by auto
    then have "list_all2 (\<lambda>i x. \<exists>res. x = Answered i res \<and> was (ct_versions c') i res) (map read_product (ct_reads c')) (ct_reads c')"
      by (simp add: list_all2_map1 list_all2_same)
    with proceed_all_work [OF run] show ?thesis by simp
  qed
  moreover have "length as \<le> 6 * length (ct_reads c) + 3 * length (ct_fetches c)" if "proceed_all as c = Some c'" for as c'
    using proceed_all_work [OF that] work_bound [of c] by simp
  ultimately show ?thesis using proceed_to_end [of c] by blast
qed

subsection \<open>A read on its own\<close>

text \<open>
  Undisturbed, and with no fetch of the product under way, the actions of a read add up to the
  operation \<open>ProductsService_findById\<close> of the sequential model.
\<close>

definition alone :: "bool \<Rightarrow> string \<Rightarrow> catalogue \<Rightarrow> pending list" where
  "alone up i c =
     (let n = length (ct_reads c); p = length (ct_fetches c)
      in [Cached up n, Continue n] @
         (if cacheGet up (keyOne i) (ct_store c) \<noteq> None then []
          else [Query None p] @ (if find_active i (ps_db (ct_store c)) = None then [] else [Store up p]) @ [Finally p, Resume n]))"

lemma read_alone:
  assumes "ct_inflight c (keyOne i) = None"
  shows "\<exists>c'. proceed_all (alone up i c) (c\<lparr>ct_reads := ct_reads c @ [Asked i]\<rparr>) = Some c' \<and>
    ct_reads c' = ct_reads c @ [Answered i (fst (ProductsService_findById up i (ct_store c)))] \<and>
    ct_store c' = snd (ProductsService_findById up i (ct_store c)) \<and> ct_inflight c' = ct_inflight c"
proof -
  have "(ct_inflight c)(keyOne i := None) = ct_inflight c" using assms by (simp add: fun_upd_idem)
  then show ?thesis
    using assms
    by (cases "cacheGet up (keyOne i) (ct_store c)"; cases "find_active i (ps_db (ct_store c))")
      (simp_all add: alone_def Let_def findById_cached_def findById_continue_def fetch_query_def fetch_store_def
        fetch_finally_def findById_resume_def nth_opt_def set_read_def set_stage_def dedup_def ProductsService_findById_def
        list_update_append)
qed

subsection \<open>Sound products, fresh reads\<close>

text \<open>
  The requests that pass validation, as \<open>ProductMachine\<close> has them: bodies the DTOs accept,
  positive quantities, ids from the generator of the service.
\<close>

fun request_ok :: "(nat \<Rightarrow> string) \<Rightarrow> request \<Rightarrow> bool" where
  "request_ok ru (Create env dto) \<longleftrightarrow> e_uuid env = ru \<and> CreateProductDto_valid dto"
| "request_ok ru (Update i dto) \<longleftrightarrow> UpdateProductDto_valid dto"
| "request_ok ru (ReserveHttp fault env items) \<longleftrightarrow> positive items"
| "request_ok ru (Command up (Reserve r)) \<longleftrightarrow> positive (rs_items r)"
| "request_ok ru (Command up (Release d)) \<longleftrightarrow> positive (rl_items d)"
| "request_ok ru _ \<longleftrightarrow> True"

inductive served_step :: "(nat \<Rightarrow> string) \<Rightarrow> catalogue \<Rightarrow> catalogue \<Rightarrow> bool" for ru where
  served_pending: "proceed a c = Some c' \<Longrightarrow> served_step ru c c'"
| served_request: "request_ok ru a \<Longrightarrow> request_step a c = Some c' \<Longrightarrow> served_step ru c c'"

lemma served_catalogue: "served_step ru c c' \<Longrightarrow> catalogue_step c c'"
  by (auto elim!: served_step.cases intro: catalogue_step.intros)

text \<open>The state of the database, of the entities waiting to be saved and of the commands under way.\<close>

fun command_items :: "products_command \<Rightarrow> command_item list" where
  "command_items (Reserve r) = rs_items r"
| "command_items (Release d) = rl_items d"

definition sound_inv :: "(nat \<Rightarrow> string) \<Rightarrow> catalogue \<Rightarrow> bool" where
  "sound_inv ru c \<longleftrightarrow> product_inv ru False (ct_store c) \<and>
     (\<forall>v \<in> set (ct_versions c). stock_ok v \<and> prices_ok v) \<and>
     (\<forall>p \<in> set (ct_saves c). sound_product p) \<and> (\<forall>cmd \<in> set (ct_commands c). positive (command_items cmd))"

definition catalogue_empty :: "catalogue \<Rightarrow> bool" where
  "catalogue_empty c \<longleftrightarrow> catalogue_initial c \<and> products (ps_db (ct_store c)) = [] \<and> ct_saves c = [] \<and> ct_commands c = []"

lemma product_inv_db: "ps_db st' = ps_db st \<Longrightarrow> product_inv ru False st \<Longrightarrow> product_inv ru False st'"
  by (simp add: product_inv_def)

lemma product_inv_cache [simp]: "product_inv ru False (st\<lparr>ps_cache := m\<rparr>) \<longleftrightarrow> product_inv ru False st"
  by (simp add: product_inv_def)

lemma sound_store: "sound_inv ru c \<Longrightarrow> product_inv ru False (ct_store c)"
  by (simp add: sound_inv_def)

lemma set_without: "set (take n xs @ drop (Suc n) xs) \<subseteq> set xs"
  by (metis Un_subset_iff set_append set_drop_subset set_take_subset)

lemma commit_sound:
  assumes "sound_inv ru c" "product_inv ru False st"
  shows "sound_inv ru (commit st c)"
  using assms by (auto simp: sound_inv_def commit_def product_inv_def)

lemma commit_then_evict_sound:
  assumes "sound_inv ru c" "product_inv ru False (snd r)"
  shows "sound_inv ru (commit_then_evict keys r c)"
  using commit_sound [OF assms]
  by (auto simp: commit_then_evict_def commit_def sound_inv_def split: prod.splits sum.splits)

lemma proceed_store: "proceed a c = Some c' \<Longrightarrow> ps_db (ct_store c') = ps_db (ct_store c) \<and>
    ct_versions c' = ct_versions c \<and> ct_saves c' = ct_saves c \<and> ct_commands c' = ct_commands c"
  by (cases a) (auto simp: findById_cached_def findById_continue_def fetch_query_def fetch_store_def fetch_finally_def
      findById_resume_def set_read_def set_stage_def dedup_def cacheSet_def
      split: option.splits read.splits fetch_stage.splits if_splits prod.splits)

lemma change_found_sound:
  assumes "sound_inv ru c" "\<And>p. sound_product p \<Longrightarrow> sound_product (f p)"
  shows "sound_inv ru (change_found f i c)"
  using assms found_sound(1) [of ru False "ct_store c" i]
  by (auto simp: sound_inv_def change_found_def find_product_def found_def split: option.splits)

lemma request_sound:
  assumes run: "request_step a c = Some c'" and ok: "request_ok ru a" and ru: "uuid_ok ru" and inv: "sound_inv ru c"
  shows "sound_inv ru c'"
proof (cases a)
  case (Create env dto)
  with ok have "product_inv ru False (snd (ProductsService_create env dto (ct_store c)))"
    by (intro product_create_inv [OF sound_store [OF inv] ru]) simp_all
  with run Create commit_sound [OF inv] show ?thesis by auto
next
  case (Update i dto)
  with assms show ?thesis by (auto intro!: change_found_sound assigned_sound)
next
  case (Remove i)
  with assms show ?thesis by (auto intro!: change_found_sound simp: sound_product_def)
next
  case (Save env n)
  then obtain p where p: "n < length (ct_saves c)" "ct_saves c ! n = p" and c': "c' = commit_then_evict [keyOne (pe_id p)]
      (save_product env p (ct_store c)) (c\<lparr>ct_saves := take n (ct_saves c) @ drop (Suc n) (ct_saves c)\<rparr>)"
    using run by (auto split: option.splits)
  have "sound_product p" using p nth_mem [OF p(1)] inv by (auto simp: sound_inv_def)
  moreover obtain r st where s: "save_product env p (ct_store c) = (r, st)" by force
  ultimately have "product_inv ru False (if isl r then st else cacheDel True [keyOne (pe_id p)] st)"
    using inv by (intro save_inv [OF _ _ _ s]) (simp_all add: sound_inv_def)
  then have "product_inv ru False st" by (rule product_inv_db [rotated]) (simp add: cacheDel_def)
  moreover have "sound_inv ru (c\<lparr>ct_saves := take n (ct_saves c) @ drop (Suc n) (ct_saves c)\<rparr>)"
    using inv set_without [of n "ct_saves c"] by (auto simp: sound_inv_def)
  ultimately show ?thesis unfolding c' by (intro commit_then_evict_sound) (simp_all add: s)
next
  case (ReserveHttp fault env items)
  with run commit_then_evict_sound [OF inv reserve_own_inv [OF sound_store [OF inv]]] show ?thesis by auto
next
  case (Evict up n)
  with run inv show ?thesis by (auto simp: sound_inv_def cacheDel_def intro: product_inv_db split: option.splits)
next
  case (Command up cmd)
  have "positive (command_items cmd)" using ok Command by (cases cmd) simp_all
  moreover have "ps_db (ct_store c') = ps_db (ct_store c)" using run Command
    by (auto simp: command_begin_def Let_def evict_items_def cacheDel_def)
  ultimately show ?thesis using run inv Command
    by (auto simp: sound_inv_def command_begin_def Let_def intro: product_inv_db)
next
  case (Commit fault env n)
  then obtain cmd where cmd: "n < length (ct_commands c)" "ct_commands c ! n = cmd" and c': "c' = commit
    (snd (ProductsSagaController_handler \<lparr>pc_fault = fault, pc_env = env, pc_up = False\<rparr> cmd (ct_store c)))
    (c\<lparr>ct_commands := take n (ct_commands c) @ drop (Suc n) (ct_commands c)\<rparr>)"
    using run by (auto simp: command_commit_def split: option.splits)
  have "positive (command_items cmd)" using cmd nth_mem [OF cmd(1)] inv by (auto simp: sound_inv_def)
  then have "product_inv ru False (snd (ProductsSagaController_handler \<lparr>pc_fault = fault, pc_env = env, pc_up = False\<rparr> cmd (ct_store c)))"
    using inv by (cases cmd) (auto simp: sound_inv_def positive_def list_all_iff intro!: handleReserveStock_inv handleReleaseStock_inv)
  moreover have "sound_inv ru (c\<lparr>ct_commands := take n (ct_commands c) @ drop (Suc n) (ct_commands c)\<rparr>)"
    using inv set_without [of n "ct_commands c"] by (auto simp: sound_inv_def)
  ultimately show ?thesis unfolding c' by (intro commit_sound) simp_all
qed (use run inv in \<open>auto simp: sound_inv_def intro: product_inv_db\<close>)

lemma served_sound:
  assumes "served_step ru c c'" "uuid_ok ru" "sound_inv ru c"
  shows "sound_inv ru c'"
  using assms(1)
proof cases
  case (served_pending a)
  with assms(3) proceed_store [OF served_pending] show ?thesis by (auto simp: sound_inv_def intro: product_inv_db)
next
  case (served_request a)
  with assms request_sound show ?thesis by blast
qed

interpretation served_machine: transition_system "served_step ru" catalogue_empty
  "\<lambda>c. catalogue_inv c \<and> (uuid_ok ru \<longrightarrow> sound_inv ru c)" for ru
proof unfold_locales
  show "catalogue_inv c \<and> (uuid_ok ru \<longrightarrow> sound_inv ru c)" if "catalogue_empty c" for ru c
    using that catalogue_initial_inv
    by (auto simp: catalogue_empty_def catalogue_initial_def sound_inv_def product_inv_def stock_ok_def prices_ok_def)
next
  show "catalogue_inv t \<and> (uuid_ok ru \<longrightarrow> sound_inv ru t)"
    if "served_step ru s t" "catalogue_inv s \<and> (uuid_ok ru \<longrightarrow> sound_inv ru s)" for ru s t
    using that served_sound catalogue_machine.step_inv [OF served_catalogue [OF that(1)]] by blast
qed

text \<open>
  What is known of product \<open>i\<close> since a moment at which neither the cache nor a fetch held anything of it: then the
  database had its version \<open>v\<close>, and there had been \<open>p\<close> fetches and \<open>n\<close> reads.
\<close>

fun read_fresh :: "product_db list \<Rightarrow> string \<Rightarrow> nat \<Rightarrow> read \<Rightarrow> bool" where
  "read_fresh vs i p (Asked j) \<longleftrightarrow> True"
| "read_fresh vs i p (Got j None) \<longleftrightarrow> True"
| "read_fresh vs i p (Got j (Some r)) \<longleftrightarrow> (j = i \<longrightarrow> was vs i (Inr r))"
| "read_fresh vs i p (Waiting j q) \<longleftrightarrow> (j = i \<longrightarrow> p \<le> q)"
| "read_fresh vs i p (Answered j res) \<longleftrightarrow> (j = i \<longrightarrow> was vs i res)"

definition fetch_fresh :: "product_db list \<Rightarrow> string \<Rightarrow> nat \<Rightarrow> nat \<Rightarrow> fetch \<Rightarrow> bool" where
  "fetch_fresh vs i p q f \<longleftrightarrow> (ft_product f = i \<longrightarrow> (if p \<le> q then stage_ok vs i (ft_stage f) else resolved (ft_stage f)))"

definition fresh :: "string \<Rightarrow> nat \<Rightarrow> nat \<Rightarrow> nat \<Rightarrow> catalogue \<Rightarrow> bool" where
  "fresh i v p n c \<longleftrightarrow> p \<le> length (ct_fetches c) \<and> n \<le> length (ct_reads c) \<and>
     ps_db (ct_store c) \<in> set (drop v (ct_versions c)) \<and>
     (\<forall>r. ps_cache (ct_store c) (keyOne i) = Some r \<longrightarrow> was (drop v (ct_versions c)) i (Inr r)) \<and>
     (\<forall>q < length (ct_fetches c). fetch_fresh (drop v (ct_versions c)) i p q (ct_fetches c ! q)) \<and>
     (\<forall>m < length (ct_reads c). n \<le> m \<longrightarrow> read_fresh (drop v (ct_versions c)) i p (ct_reads c ! m))"

lemma read_fresh_mono: "read_fresh vs i p x \<Longrightarrow> set vs \<subseteq> set ws \<Longrightarrow> read_fresh ws i p x"
  by (induction vs i p x rule: read_fresh.induct) (auto intro: was_mono simp del: was.simps)

lemma fetch_fresh_mono: "fetch_fresh vs i p q f \<Longrightarrow> set vs \<subseteq> set ws \<Longrightarrow> fetch_fresh ws i p q f"
  using stage_mono [of vs i "ft_stage f" ws] by (auto simp: fetch_fresh_def split: if_splits)

lemma nth_update: "m < length xs \<Longrightarrow> xs[k := x] ! m = (if k = m then x else xs ! m)"
  by simp

lemma fresh_set_read:
  assumes "fresh i v p n c" "n \<le> m \<Longrightarrow> read_fresh (drop v (ct_versions c)) i p x"
  shows "fresh i v p n (set_read m x c)"
  using assms by (auto simp: fresh_def set_read_def nth_update simp del: was.simps)

lemma fresh_set_stage:
  assumes "fresh i v p n c" "fetch_fresh (drop v (ct_versions c)) i p q ((ct_fetches c ! q)\<lparr>ft_stage := x\<rparr>)"
  shows "fresh i v p n (set_stage q x c)"
  using assms by (auto simp: fresh_def set_stage_def nth_update simp del: was.simps)

lemma fresh_cache_get: "fresh i v p n c \<Longrightarrow> read_fresh (drop v (ct_versions c)) i p (Got j (cacheGet up (keyOne j) (ct_store c)))"
  by (cases "cacheGet up (keyOne j) (ct_store c)") (auto simp: fresh_def cacheGet_def split: if_splits)

lemma fresh_unresolved:
  assumes "fresh i v p n c" "q < length (ct_fetches c)" "ft_product (ct_fetches c ! q) = i" "\<not> resolved (ft_stage (ct_fetches c ! q))"
  shows "p \<le> q" "stage_ok (drop v (ct_versions c)) i (ft_stage (ct_fetches c ! q))"
  using assms unfolding fresh_def fetch_fresh_def by metis+

lemma fresh_dedup:
  assumes inv: "catalogue_inv c" and fresh: "fresh i v p n c" and d: "dedup (keyOne j) j c = (q, c')"
  shows "fresh i v p n c' \<and> ct_versions c' = ct_versions c \<and> (j = i \<longrightarrow> p \<le> q)"
proof (cases "ct_inflight c (keyOne j)")
  case None
  have "fetch_fresh (drop v (ct_versions c)) i p (length (ct_fetches c)) \<lparr>ft_product = j, ft_stage = Querying\<rparr>"
    using fresh by (simp add: fetch_fresh_def fresh_def)
  with None d fresh show ?thesis
    by (auto simp: dedup_def fresh_def nth_append less_Suc_eq)
next
  case (Some e)
  then have "e < length (ct_fetches c)" "ft_product (ct_fetches c ! e) = j" "\<not> resolved (ft_stage (ct_fetches c ! e))"
    using inv by (auto simp: catalogue_inv_def inflight_ok_def)
  with Some d fresh fresh_unresolved(1) [OF fresh] show ?thesis by (auto simp: dedup_def)
qed

lemma fresh_queried:
  assumes "fresh i v p n c" "ft_product f = i"
  shows "stage_ok (drop v (ct_versions c)) i (case fault of
      Some m \<Rightarrow> Settled (Inl (ProductQueryFailed m))
    | None \<Rightarrow> (case find_active i (ps_db (ct_store c)) of
         None \<Rightarrow> Settled (Inl (ProductNotFoundError i)) | Some product \<Rightarrow> Storing (product_toResult product)))"
  using assms(1) by (auto simp: fresh_def split: option.splits)

lemma proceed_fresh:
  assumes "proceed a c = Some c'" "catalogue_inv c" "fresh i v p n c"
  shows "fresh i v p n c'"
proof (cases a)
  case (Cached up m)
  with assms(1) fresh_set_read [OF assms(3) fresh_cache_get [OF assms(3)]] show ?thesis
    by (auto simp: findById_cached_def split: option.splits read.splits)
next
  case (Continue m)
  then obtain j w where m: "m < length (ct_reads c)" "ct_reads c ! m = Got j w"
    using assms(1) by (auto simp: findById_continue_def split: option.splits read.splits)
  show ?thesis
  proof (cases w)
    case None
    obtain q c1 where d: "dedup (keyOne j) j c = (q, c1)" by fastforce
    with Continue None m assms(1) fresh_dedup [OF assms(2,3) d] show ?thesis
      by (auto simp: findById_continue_def nth_opt_def intro!: fresh_set_read)
  next
    case (Some r)
    have "read_fresh (drop v (ct_versions c)) i p (Got j w)" if "n \<le> m" using that assms(3) m unfolding fresh_def by metis
    then have "fresh i v p n (set_read m (Answered j (Inr r)) c)" using Some by (intro fresh_set_read [OF assms(3)]) simp
    with Continue Some m assms(1) show ?thesis by (simp add: findById_continue_def nth_opt_def)
  qed
next
  case (Query fault q)
  then have q: "q < length (ct_fetches c)" "ft_stage (ct_fetches c ! q) = Querying"
    using assms(1) by (auto simp: fetch_query_def split: option.splits if_splits)
  with Query assms(1,3) fresh_queried [OF assms(3), of "ct_fetches c ! q" fault] fresh_unresolved(1) [OF assms(3) q(1)]
  show ?thesis by (auto simp: fetch_query_def nth_opt_def fetch_fresh_def intro!: fresh_set_stage)
next
  case (Store up q)
  then obtain r where q: "q < length (ct_fetches c)" "ft_stage (ct_fetches c ! q) = Storing r"
    using assms(1) by (auto simp: fetch_store_def split: option.splits fetch_stage.splits)
  let ?c = "c\<lparr>ct_store := cacheSet up (keyOne (ft_product (ct_fetches c ! q))) r (ct_store c)\<rparr>"
  have new: "was (drop v (ct_versions c)) i (Inr r) \<and> p \<le> q" if "ft_product (ct_fetches c ! q) = i"
    using fresh_unresolved [OF assms(3) q(1) that] q(2) by simp
  then have "fresh i v p n ?c" using assms(3) by (auto simp: fresh_def cacheSet_def)
  then have "fresh i v p n (set_stage q (Settled (Inr r)) ?c)" using new q by (intro fresh_set_stage) (auto simp: fetch_fresh_def)
  with Store assms(1) q show ?thesis by (simp add: fetch_store_def nth_opt_def)
next
  case (Finally q)
  then obtain res where q: "q < length (ct_fetches c)" "ft_stage (ct_fetches c ! q) = Settled res"
    using assms(1) by (auto simp: fetch_finally_def split: option.splits fetch_stage.splits)
  let ?c = "c\<lparr>ct_inflight := (ct_inflight c)(keyOne (ft_product (ct_fetches c ! q)) := None)\<rparr>"
  have "fresh i v p n ?c" using assms(3) by (simp add: fresh_def)
  then have "fresh i v p n (set_stage q (Resolved res) ?c)"
    using fresh_unresolved [OF assms(3) q(1)] q by (intro fresh_set_stage) (auto simp: fetch_fresh_def)
  with Finally assms(1) q show ?thesis by (simp add: fetch_finally_def nth_opt_def)
next
  case (Resume m)
  then obtain j q res where m: "m < length (ct_reads c)" "ct_reads c ! m = Waiting j q" "q < length (ct_fetches c)"
    "ft_stage (ct_fetches c ! q) = Resolved res" "c' = set_read m (Answered j res) c"
    using assms(1) by (auto simp: findById_resume_def split: option.splits read.splits fetch_stage.splits)
  have j: "ft_product (ct_fetches c ! q) = j" using read_inv [OF nth_mem [OF m(1)] assms(2)] m(2,3) by simp
  have "fetch_fresh (drop v (ct_versions c)) i p q (ct_fetches c ! q)" using assms(3) m(3) by (simp add: fresh_def)
  moreover have "p \<le> q" if "n \<le> m" "j = i" using that assms(3) m(1,2) unfolding fresh_def by (metis read_fresh.simps(4))
  ultimately show ?thesis
    unfolding m(5) using j m(4) by (intro fresh_set_read [OF assms(3)]) (auto simp: fetch_fresh_def)
qed

text \<open>A request writes new versions, drops cache entries, and may start a read.\<close>

definition request_effect :: "catalogue \<Rightarrow> catalogue \<Rightarrow> bool" where
  "request_effect c c' \<longleftrightarrow> (\<exists>ws. ct_versions c' = ct_versions c @ ws \<and> ps_db (ct_store c') \<in> set (ps_db (ct_store c) # ws)) \<and>
     (\<forall>k. ps_cache (ct_store c') k = None \<or> ps_cache (ct_store c') k = ps_cache (ct_store c) k) \<and>
     ct_fetches c' = ct_fetches c \<and> (ct_reads c' = ct_reads c \<or> (\<exists>i. ct_reads c' = ct_reads c @ [Asked i]))"

lemma commit_effect:
  "ps_cache st = ps_cache (ct_store c) \<Longrightarrow> request_effect c (commit st c)"
  "ps_cache (snd r) = ps_cache (ct_store c) \<Longrightarrow> request_effect c (commit_then_evict keys r c)"
  by (auto simp: request_effect_def commit_then_evict_def commit_def split: prod.splits sum.splits)

lemma effect_lists: "request_effect (c\<lparr>ct_saves := xs\<rparr>) c' \<longleftrightarrow> request_effect c c'"
    "request_effect (c\<lparr>ct_commands := cs\<rparr>) c' \<longleftrightarrow> request_effect c c'"
  by (simp_all add: request_effect_def)

lemma request_step_effect:
  assumes "request_step a c = Some c'"
  shows "request_effect c c'"
proof (cases a)
  case (Save env n)
  then obtain p where c': "c' = commit_then_evict [keyOne (pe_id p)] (save_product env p (ct_store c))
      (c\<lparr>ct_saves := take n (ct_saves c) @ drop (Suc n) (ct_saves c)\<rparr>)"
    using assms by (auto split: option.splits)
  show ?thesis by (subst effect_lists(1) [symmetric]) (unfold c', rule commit_effect(2), simp add: without_eviction)
next
  case (Commit fault env n)
  then obtain cmd where c': "c' = commit
    (snd (ProductsSagaController_handler \<lparr>pc_fault = fault, pc_env = env, pc_up = False\<rparr> cmd (ct_store c)))
    (c\<lparr>ct_commands := take n (ct_commands c) @ drop (Suc n) (ct_commands c)\<rparr>)"
    using assms by (auto simp: command_commit_def split: option.splits)
  show ?thesis by (subst effect_lists(2) [symmetric]) (unfold c', rule commit_effect(1), cases cmd, simp_all add: without_eviction)
next
  case (Create env dto)
  with assms commit_effect(1) [OF without_eviction(1)] show ?thesis by auto
next
  case (ReserveHttp fault env items)
  with assms commit_effect(2) [OF without_eviction(3)] show ?thesis by auto
qed (use assms in \<open>auto simp: request_effect_def change_found_def command_begin_def Let_def evict_items_def cacheDel_def
    split: option.splits prod.splits sum.splits if_splits\<close>)

lemma request_fresh:
  assumes "request_step a c = Some c'" "fresh i v p n c" "v \<le> length (ct_versions c)"
  shows "fresh i v p n c'"
proof -
  from request_step_effect [OF assms(1)] obtain ws where ws: "ct_versions c' = ct_versions c @ ws"
    "ps_db (ct_store c') \<in> set (ps_db (ct_store c) # ws)"
    and cache: "\<And>k. ps_cache (ct_store c') k = None \<or> ps_cache (ct_store c') k = ps_cache (ct_store c) k"
    and same: "ct_fetches c' = ct_fetches c" "ct_reads c' = ct_reads c \<or> (\<exists>i. ct_reads c' = ct_reads c @ [Asked i])"
    unfolding request_effect_def by blast
  have drop: "drop v (ct_versions c') = drop v (ct_versions c) @ ws" using ws(1) assms(3) by simp
  then have sub: "set (drop v (ct_versions c)) \<subseteq> set (drop v (ct_versions c'))" by simp
  have "was (drop v (ct_versions c')) i (Inr r)" if "ps_cache (ct_store c') (keyOne i) = Some r" for r
  proof -
    have "ps_cache (ct_store c) (keyOne i) = Some r" using cache [of "keyOne i"] that by simp
    then have "was (drop v (ct_versions c)) i (Inr r)" using assms(2) unfolding fresh_def by blast
    then show ?thesis using sub by (rule was_mono)
  qed
  moreover have "read_fresh (drop v (ct_versions c')) i p (ct_reads c' ! m)" if "m < length (ct_reads c')" "n \<le> m" for m
  proof (cases "m < length (ct_reads c)")
    case True
    then have "read_fresh (drop v (ct_versions c)) i p (ct_reads c ! m)" using assms(2) that(2) by (simp add: fresh_def)
    then have "read_fresh (drop v (ct_versions c')) i p (ct_reads c ! m)" using sub by (rule read_fresh_mono)
    with same(2) True show ?thesis by (auto simp: nth_append)
  next
    case False
    with same(2) that(1) show ?thesis by (auto simp: nth_append)
  qed
  moreover have "fetch_fresh (drop v (ct_versions c')) i p q (ct_fetches c' ! q)" if "q < length (ct_fetches c')" for q
    using that assms(2) same(1) fetch_fresh_mono [OF _ sub] by (simp add: fresh_def)
  moreover have "ps_db (ct_store c') \<in> set (drop v (ct_versions c'))" using ws(2) assms(2) drop by (auto simp: fresh_def)
  ultimately show ?thesis using assms(2) same by (auto simp: fresh_def)
qed

lemma served_fresh:
  assumes "run (served_step ru) c c'" "catalogue_inv c" "fresh i v p n c" "v \<le> length (ct_versions c)"
  shows "fresh i v p n c'"
proof -
  have "catalogue_inv c' \<and> fresh i v p n c' \<and> v \<le> length (ct_versions c')"
    using assms
  proof (induction rule: run.induct)
    case (run_step s t u)
    then have t: "catalogue_inv t" "fresh i v p n t" "v \<le> length (ct_versions t)" by auto
    have inv: "catalogue_inv u" using catalogue_machine.step_inv [OF served_catalogue [OF run_step(2)] t(1)] .
    from run_step(2) show ?case
    proof cases
      case (served_pending a)
      with inv t proceed_fresh [OF served_pending t(1,2)] proceed_store [OF served_pending] show ?thesis by simp
    next
      case (served_request a)
      with inv t request_fresh [OF served_request(2) t(2,3)] request_step_effect [OF served_request(2)] show ?thesis
        by (auto simp: request_effect_def)
    qed
  qed simp
  then show ?thesis by simp
qed

text \<open>The version a machine is in is the last one, and it starts with one.\<close>

lemma versions_last:
  assumes "run (served_step ru) c0 c" "catalogue_initial c0"
  shows "ct_versions c \<noteq> [] \<and> last (ct_versions c) = ps_db (ct_store c)"
  using assms
proof (induction rule: run.induct)
  case (run_step s t u)
  then have t: "ct_versions t \<noteq> []" "last (ct_versions t) = ps_db (ct_store t)" by auto
  from run_step(2) show ?case
  proof cases
    case (served_pending a)
    with t proceed_store [OF served_pending] show ?thesis by simp
  next
    case (served_request a)
    with t show ?thesis
      by (cases a) (auto simp: commit_def commit_then_evict_def change_found_def command_begin_def command_commit_def Let_def evict_items_def cacheDel_def
          split: option.splits prod.splits sum.splits)
  qed
qed (simp add: catalogue_initial_def)

lemma starts_fresh:
  assumes "catalogue_inv c" "ct_versions c \<noteq> []" "last (ct_versions c) = ps_db (ct_store c)"
    and "ps_cache (ct_store c) (keyOne i) = None" "ct_inflight c (keyOne i) = None"
  shows "fresh i (length (ct_versions c) - 1) (length (ct_fetches c)) (length (ct_reads c)) c"
proof -
  have "drop (length (ct_versions c) - 1) (ct_versions c) = [last (ct_versions c)]"
    using assms(2) by (metis append_butlast_last_id append_eq_conv_conj length_butlast)
  moreover have "resolved (ft_stage (ct_fetches c ! q))" if "q < length (ct_fetches c)" "ft_product (ct_fetches c ! q) = i" for q
    using that assms(1,5) inflight_iff [of "ct_inflight c" "ct_fetches c" "keyOne i" q] by (auto simp: catalogue_inv_def)
  ultimately show ?thesis using assms(3,4) by (auto simp: fresh_def fetch_fresh_def)
qed

lemma versions_sound:
  assumes "sound_inv ru c"
  shows "\<forall>v \<in> set (ct_versions c). \<forall>p \<in> set (products v). 0 \<le> pe_stock p \<and> pe_stock p \<le> 2147483647 \<and>
    (\<exists>k. 0 \<le> k \<and> pe_price p = of_int k / 100)"
  using assms by (simp add: sound_inv_def stock_ok_def prices_ok_def fits_int4_def)

lemma answers_sound:
  assumes "catalogue_inv c" "sound_inv ru c" "Answered i (Inr r) \<in> set (ct_reads c)"
  shows "0 \<le> prd_stock r" "prd_stock r \<le> 2147483647" "\<exists>k. 0 \<le> k \<and> prd_price r = fl (of_int k / 100)"
proof -
  obtain v p where v: "v \<in> set (ct_versions c)" "find_active i v = Some p" "r = product_toResult p"
    using read_inv [OF assms(3,1)] by auto
  then have "p \<in> set (products v)" using find_active_id by blast
  then obtain k where "0 \<le> pe_stock p" "pe_stock p \<le> 2147483647" "0 \<le> k" "pe_price p = of_int k / 100"
    using versions_sound [OF assms(2)] v(1) by blast
  then show "0 \<le> prd_stock r" "prd_stock r \<le> 2147483647" "\<exists>k. 0 \<le> k \<and> prd_price r = fl (of_int k / 100)"
    unfolding v(3) by (auto simp only: product_toResult_def product_result.simps intro: exI [of _ k])
qed

lemma reads_fresh:
  assumes "catalogue_inv c" "ct_versions c \<noteq> [] \<and> last (ct_versions c) = ps_db (ct_store c)"
    and "ps_cache (ct_store c) (keyOne i) = None" "ct_inflight c (keyOne i) = None" "run (served_step ru) c c'"
    and "length (ct_reads c) \<le> n" "n < length (ct_reads c')" "ct_reads c' ! n = Answered i res"
  shows "was (drop (length (ct_versions c) - 1) (ct_versions c')) i res"
proof -
  let ?v = "length (ct_versions c) - 1" and ?p = "length (ct_fetches c)"
  have "fresh i ?v ?p (length (ct_reads c)) c" using starts_fresh [OF assms(1) _ _ assms(3,4)] assms(2) by blast
  then have "fresh i ?v ?p (length (ct_reads c)) c'" using served_fresh [OF assms(5,1)] by simp
  then have "read_fresh (drop ?v (ct_versions c')) i ?p (ct_reads c' ! n)" using assms(6,7) by (simp add: fresh_def)
  then show ?thesis by (simp add: assms(8))
qed

text \<open>
  C23. In every state the product-service reaches from an empty catalogue, however its requests overlap and
  whatever the cache does: no version of the database has a negative stock, one beyond the column,
  or a price that is not a whole number of cents; and what clients were answered is in these bounds. Reads are
  fresh from an eviction on: once the cache holds no entry for a product and no fetch of it is
  under way, a read that starts later is never answered with a version older than that moment, or with
  an absence from before it.
\<close>

theorem products_sound:
  assumes "uuid_ok ru" "catalogue_empty c0" "run (served_step ru) c0 c"
  shows "(\<forall>v \<in> set (ct_versions c). \<forall>p \<in> set (products v). 0 \<le> pe_stock p \<and> pe_stock p \<le> 2147483647 \<and>
      (\<exists>k. 0 \<le> k \<and> pe_price p = of_int k / 100)) \<and>
    (\<forall>i r. Answered i (Inr r) \<in> set (ct_reads c) \<longrightarrow> 0 \<le> prd_stock r \<and> prd_stock r \<le> 2147483647 \<and>
      (\<exists>k. 0 \<le> k \<and> prd_price r = fl (of_int k / 100))) \<and>
    (\<forall>i c' n res. ps_cache (ct_store c) (keyOne i) = None \<longrightarrow> ct_inflight c (keyOne i) = None \<longrightarrow>
      run (served_step ru) c c' \<longrightarrow> length (ct_reads c) \<le> n \<longrightarrow> n < length (ct_reads c') \<longrightarrow>
      ct_reads c' ! n = Answered i res \<longrightarrow> was (drop (length (ct_versions c) - 1) (ct_versions c')) i res)"
proof -
  note run = served_machine.reachable_inv [OF assms(2,3)]
  have inv: "catalogue_inv c" "sound_inv ru c" using run assms(1) by simp_all
  have "ct_versions c \<noteq> [] \<and> last (ct_versions c) = ps_db (ct_store c)"
    using versions_last [OF assms(3)] assms(2) by (simp add: catalogue_empty_def)
  note fresh = reads_fresh [OF inv(1) this]
  show ?thesis
    by (intro conjI allI impI versions_sound [OF inv(2)]; (erule answers_sound [OF inv] | erule (5) fresh))
qed

subsection \<open>Samples\<close>

fun requests :: "(request + pending) list \<Rightarrow> catalogue \<Rightarrow> catalogue option" where
  "requests [] c = Some c"
| "requests (a # as) c =
     (case (case a of Inl r \<Rightarrow> request_step r c | Inr x \<Rightarrow> proceed x c) of None \<Rightarrow> None | Some c' \<Rightarrow> requests as c')"

lemma run_front: "step c d \<Longrightarrow> run step d e \<Longrightarrow> run step c e"
  by (rule run_trans [OF run_step [OF run_refl]])

lemma requests_run: "requests as c = Some c' \<Longrightarrow> run catalogue_step c c'"
proof (induction as arbitrary: c)
  case (Cons a as)
  then obtain d where d: "(case a of Inl r \<Rightarrow> request_step r c | Inr x \<Rightarrow> proceed x c) = Some d" "requests as d = Some c'"
    by (auto split: option.splits)
  then have "catalogue_step c d" by (cases a) (auto intro: catalogue_step.intros)
  then show ?case using Cons.IH [OF d(2)] by (rule run_front)
qed (simp add: run_refl)

text \<open>
  Undisturbed, the actions of an update or of a removal add up to their operations in \<open>Products\<close>: the query alone
  if there is no such product, the save too if the database refuses it, and otherwise the eviction.
\<close>

definition change_length :: "string \<Rightarrow> catalogue \<Rightarrow> 'e + 'a \<Rightarrow> nat" where
  "change_length i c r = (if find_active i (ps_db (ct_store c)) = None then 1 else if isl r then 2 else 3)"

lemma change_requests:
  assumes "ct_saves c = []" "ct_evictions c = []" "request_step a c = Some (change_found f i c)"
    and "find_active i (ps_db (ct_store c)) = Some p" "pe_id (f p) = i" "save_product env (f p) (ct_store c) = (r, st)"
  shows "map_option ct_store (requests (take (if isl r then 2 else 3) [Inl a, Inl (Save env 0), Inl (Evict up 0)]) c) =
    Some (if isl r then st else cacheDel up [keyOne i] st)"
  using assms
  by (cases r) (simp_all add: change_found_def find_product_def found_def commit_then_evict_def commit_def nth_opt_def)

lemma update_alone:
  assumes "ct_saves c = []" "ct_evictions c = []" "ProductsService_update env up i dto (ct_store c) = (r, st)"
  shows "map_option ct_store (requests (take (change_length i c r) [Inl (Update i dto), Inl (Save env 0), Inl (Evict up 0)]) c) = Some st"
proof (cases "find_active i (ps_db (ct_store c))")
  case (Some p)
  obtain r' st' where save: "save_product env (assign_product dto p) (ct_store c) = (r', st')" by force
  have "pe_id (assign_product dto p) = i" using find_active_id [OF Some] by simp
  from change_requests [where f = "assign_product dto" and a = "Update i dto" and up = up, OF assms(1,2) _ Some this save] Some save assms(3) show ?thesis
    by (cases r') (auto simp: update_run change_length_def)
qed (use assms in \<open>simp add: update_run change_length_def change_found_def find_product_def found_def\<close>)

lemma remove_alone:
  assumes "ct_saves c = []" "ct_evictions c = []" "ProductsService_remove env up i (ct_store c) = (r, st)"
  shows "map_option ct_store (requests (take (change_length i c r) [Inl (Remove i), Inl (Save env 0), Inl (Evict up 0)]) c) = Some st"
proof (cases "find_active i (ps_db (ct_store c))")
  case (Some p)
  let ?f = "\<lambda>p. p\<lparr>pe_isActive := False\<rparr>"
  obtain r' st' where save: "save_product env (?f p) (ct_store c) = (r', st')" by force
  have "pe_id (?f p) = i" using find_active_id [OF Some] by simp
  from change_requests [where f = ?f and a = "Remove i" and up = up, OF assms(1,2) _ Some this save] Some save assms(3) show ?thesis
    by (cases r') (auto simp: remove_run change_length_def)
qed (use assms in \<open>simp add: remove_run change_length_def change_found_def find_product_def found_def\<close>)

definition sample_store :: catalogue where
  "sample_store = \<lparr>ct_store = sample_catalogue, ct_inflight = (\<lambda>_. None), ct_fetches = [], ct_reads = [], ct_saves = [], ct_evictions = [],
     ct_commands = [], ct_versions = [ps_db sample_catalogue]\<rparr>"

lemma sample_store_initial: "catalogue_initial sample_store"
proof -
  have "ps_cache sample_catalogue k = None" for k
    by (simp add: sample_catalogue_def ProductsController_create_def snd_admin without_eviction empty_products_def)
  then show ?thesis by (simp add: catalogue_initial_def sample_store_def)
qed

text \<open>Two readers, the second of which joins the fetch of the first.\<close>

definition two_readers :: "(request + pending) list" where
  "two_readers = [Inl (Read ''a''), Inl (Read ''a''), Inr (Cached True 0), Inr (Cached True 1), Inr (Continue 0), Inr (Query None 0),
     Inr (Continue 1)]"

theorem reads_deduplicated_witness:
  "\<exists>c. requests (two_readers @ [Inr (Store True 0), Inr (Finally 0), Inr (Resume 0), Inr (Resume 1)]) sample_store = Some c \<and>
     length (ct_fetches c) = 1 \<and> (\<exists>r. ct_reads c = [Answered ''a'' (Inr r), Answered ''a'' (Inr r)] \<and> was (ct_versions c) ''a'' (Inr r)) \<and>
     ct_inflight c (keyOne ''a'') = None"
proof -
  let ?as = "two_readers @ [Inr (Store True 0), Inr (Finally 0), Inr (Resume 0), Inr (Resume 1)]"
  have "case requests ?as sample_store of None \<Rightarrow> False
      | Some c \<Rightarrow> length (ct_fetches c) = 1 \<and> list_all (\<lambda>f. resolved (ft_stage f)) (ct_fetches c) \<and>
          ct_reads c = replicate 2 (Answered ''a'' (Inr (product_toResult (hd (products (ps_db sample_catalogue))))))" by code_simp
  then obtain c r where c: "requests ?as sample_store = Some c" "length (ct_fetches c) = 1" "\<forall>f \<in> set (ct_fetches c). resolved (ft_stage f)"
    "ct_reads c = [Answered ''a'' (Inr r), Answered ''a'' (Inr r)]"
    by (auto split: option.splits simp: list_all_iff numeral_2_eq_2)
  from reads_deduplicated [OF sample_store_initial requests_run [OF c(1)]] c show ?thesis by auto
qed

theorem reads_answered_witness:
  "\<exists>c as c' res. requests two_readers sample_store = Some c \<and> proceed_all as c = Some c' \<and>
     length as \<le> 15 \<and> was (ct_versions c') ''a'' res \<and> Answered ''a'' res \<in> set (ct_reads c')"
proof -
  have "case requests two_readers sample_store of None \<Rightarrow> False
      | Some c \<Rightarrow> length (ct_fetches c) = 1 \<and> map read_product (ct_reads c) = [''a'', ''a'']" by code_simp
  then obtain c where c: "requests two_readers sample_store = Some c" "length (ct_fetches c) = 1"
    "map read_product (ct_reads c) = [''a'', ''a'']" by (auto split: option.splits)
  have "length (ct_reads c) = 2" using arg_cong [OF c(3), of length] by simp
  then show ?thesis
    using reads_answered [OF sample_store_initial requests_run [OF c(1)]] c by (fastforce simp: list_all2_Cons1)
qed

lemma requests_served:
  "requests as c = Some c' \<Longrightarrow> list_all (\<lambda>a. case a of Inl r \<Rightarrow> request_ok ru r | Inr _ \<Rightarrow> True) as \<Longrightarrow> run (served_step ru) c c'"
proof (induction as arbitrary: c)
  case (Cons a as)
  then obtain d where d: "(case a of Inl r \<Rightarrow> request_step r c | Inr x \<Rightarrow> proceed x c) = Some d" "requests as d = Some c'"
    by (auto split: option.splits)
  then have "served_step ru c d" using Cons.prems(2) by (cases a) (auto intro: served_step.intros)
  moreover have "run (served_step ru) d c'" using Cons d(2) by simp
  ultimately show ?case by (rule run_front)
qed (simp add: run_refl)

definition empty_catalogue :: catalogue where
  "empty_catalogue = sample_store\<lparr>ct_store := empty_products, ct_versions := [ps_db empty_products]\<rparr>"

lemma empty_catalogue_empty: "catalogue_empty empty_catalogue"
  by (simp add: catalogue_empty_def catalogue_initial_def empty_catalogue_def sample_store_def empty_products_def)

text \<open>A product is created, read, reserved by the saga and read again.\<close>

definition before_read :: "(request + pending) list" where
  "before_read = [Inl (Create sample_env sample_create), Inl (Read ''a''), Inr (Cached True 0), Inr (Continue 0), Inr (Query None 0),
     Inr (Store True 0), Inr (Finally 0), Inr (Resume 0),
     Inl (Command True (Reserve \<lparr>commandId = ''s1'', orderId = ''o1'', correlationId = ''c1'',
       rs_items = [\<lparr>ci_productId = ''a'', ci_quantity = 2\<rparr>]\<rparr>)), Inl (Commit None sample_env 0)]"

definition one_read :: "(request + pending) list" where
  "one_read = [Inl (Read ''a''), Inr (Cached True 1), Inr (Continue 1), Inr (Query None 1), Inr (Store True 1), Inr (Finally 1), Inr (Resume 1)]"

theorem products_sound_witness:
  "\<exists>c c' r. requests before_read empty_catalogue = Some c \<and> requests one_read c = Some c' \<and>
     ct_reads c' ! 1 = Answered ''a'' (Inr r) \<and> prd_stock r = 3 \<and>
     was (drop (length (ct_versions c) - 1) (ct_versions c')) ''a'' (Inr r) \<and>
     list_all (\<lambda>v. list_all (\<lambda>p. 0 \<le> pe_stock p) (products v)) (ct_versions c)"
proof -
  have "case requests before_read empty_catalogue of None \<Rightarrow> False
      | Some c \<Rightarrow> ps_cache (ct_store c) (keyOne ''a'') = None \<and> ct_inflight c (keyOne ''a'') = None \<and> length (ct_reads c) = 1 \<and>
          (case requests one_read c of None \<Rightarrow> False
           | Some c' \<Rightarrow> length (ct_reads c') = 2 \<and>
               (case ct_reads c' ! 1 of Answered i (Inr r) \<Rightarrow> i = ''a'' \<and> prd_stock r = 3 | _ \<Rightarrow> False))" by code_simp
  then obtain c c' r where c: "requests before_read empty_catalogue = Some c" "requests one_read c = Some c'"
    "ps_cache (ct_store c) (keyOne ''a'') = None" "ct_inflight c (keyOne ''a'') = None" "length (ct_reads c) = 1"
    "length (ct_reads c') = 2" "ct_reads c' ! 1 = Answered ''a'' (Inr r)" "prd_stock r = 3"
    by (auto split: option.splits read.splits sum.splits)
  have "CreateProductDto_valid sample_create" by code_simp
  then have runs: "run (served_step (e_uuid sample_env)) empty_catalogue c" "run (served_step (e_uuid sample_env)) c c'"
    by - (rule requests_served [OF c(1)], simp add: before_read_def positive_def,
        rule requests_served [OF c(2)], simp add: one_read_def)
  note sound = products_sound [OF sample_uuid_ok empty_catalogue_empty runs(1)]
  from sound [THEN conjunct2, THEN conjunct2, rule_format, OF c(3,4) runs(2) _ _ c(7)] c(5,6)
  have "was (drop (length (ct_versions c) - 1) (ct_versions c')) ''a'' (Inr r)" by simp
  moreover from sound [THEN conjunct1]
  have "list_all (\<lambda>v. list_all (\<lambda>p. 0 \<le> pe_stock p) (products v)) (ct_versions c)" unfolding list_all_iff by blast
  ultimately show ?thesis using c by blast
qed

text \<open>
  A lost update. An administrator changes the name of a product while the saga reserves it: the save writes back the
  stock the update had read, and the reserved units are for sale again.
\<close>

definition lost_reservation :: "(request + pending) list" where
  "lost_reservation = [Inl (Update ''a'' \<lparr>up_name = Some ''Blue pen'', up_description = None, up_price = None, up_stock = None\<rparr>),
     Inl (Command True (Reserve \<lparr>commandId = ''s1'', orderId = ''o1'', correlationId = ''c1'',
       rs_items = [\<lparr>ci_productId = ''a'', ci_quantity = 2\<rparr>]\<rparr>)),
     Inl (Commit None sample_env 0), Inl (Save sample_env 0), Inl (Evict True 0)]"

lemma reservation_overwritten:
  "\<exists>c. run catalogue_step sample_store c \<and>
     map (\<lambda>v. map_option pe_stock (find_active ''a'' v)) (ct_versions c) = [Some 5, Some 3, Some 5]"
proof -
  have "case requests lost_reservation sample_store of None \<Rightarrow> False
      | Some c \<Rightarrow> map (\<lambda>v. map_option pe_stock (find_active ''a'' v)) (ct_versions c) = [Some 5, Some 3, Some 5]" by code_simp
  then obtain c where c: "requests lost_reservation sample_store = Some c"
    "map (\<lambda>v. map_option pe_stock (find_active ''a'' v)) (ct_versions c) = [Some 5, Some 3, Some 5]" by (simp split: option.splits)
  from conjI [OF requests_run [OF c(1)] c(2)] show ?thesis by (rule exI [where x = c])
qed

text \<open>
  A race. A reader has fetched a product when an administrator updates it and evicts it; the reader then
  fills the cache with what it read. With a cache that answers every time, and after
  everything is over, clients are given the old stock until the entry expires after ten minutes.
\<close>

definition late_store :: "(request + pending) list" where
  "late_store = [Inl (Read ''a''), Inr (Cached True 0), Inr (Continue 0), Inr (Query None 0),
     Inl (Update ''a'' \<lparr>up_name = None, up_description = None, up_price = None, up_stock = Some 0\<rparr>), Inl (Save sample_env 0), Inl (Evict True 0),
     Inr (Store True 0), Inr (Finally 0), Inr (Resume 0)]"

lemma stale_after_update:
  "\<exists>c. run catalogue_step sample_store c \<and> work c = 0 \<and> ct_evictions c = [] \<and> ct_commands c = [] \<and>
     map_option prd_stock (cacheGet True (keyOne ''a'') (ct_store c)) = Some 5 \<and>
     map_option pe_stock (find_active ''a'' (ps_db (ct_store c))) = Some 0"
proof -
  have "case requests late_store sample_store of None \<Rightarrow> False
      | Some c \<Rightarrow> work c = 0 \<and> ct_evictions c = [] \<and> ct_commands c = [] \<and>
     map_option prd_stock (cacheGet True (keyOne ''a'') (ct_store c)) = Some 5 \<and>
     map_option pe_stock (find_active ''a'' (ps_db (ct_store c))) = Some 0" by code_simp
  then show ?thesis using requests_run by (auto split: option.splits)
qed

text \<open>
  The same for a stock command, which evicts before its transaction commits: a reader in
  between caches the stock from before the reservation.
\<close>

definition early_eviction :: "(request + pending) list" where
  "early_eviction = [Inl (Command True (Reserve \<lparr>commandId = ''s1'', orderId = ''o1'', correlationId = ''c1'',
       rs_items = [\<lparr>ci_productId = ''a'', ci_quantity = 2\<rparr>]\<rparr>)),
     Inl (Read ''a''), Inr (Cached True 0), Inr (Continue 0), Inr (Query None 0), Inr (Store True 0), Inr (Finally 0), Inr (Resume 0),
     Inl (Commit None sample_env 0)]"

lemma stale_after_command:
  "\<exists>c. run catalogue_step sample_store c \<and> work c = 0 \<and> ct_evictions c = [] \<and> ct_commands c = [] \<and>
     map_option prd_stock (cacheGet True (keyOne ''a'') (ct_store c)) = Some 5 \<and>
     map_option pe_stock (find_active ''a'' (ps_db (ct_store c))) = Some 3"
proof -
  have "case requests early_eviction sample_store of None \<Rightarrow> False
      | Some c \<Rightarrow> work c = 0 \<and> ct_evictions c = [] \<and> ct_commands c = [] \<and>
     map_option prd_stock (cacheGet True (keyOne ''a'') (ct_store c)) = Some 5 \<and>
     map_option pe_stock (find_active ''a'' (ps_db (ct_store c))) = Some 3" by code_simp
  then show ?thesis using requests_run by (auto split: option.splits)
qed

end
