(* ===== verification/JsText.thy ===== *)
theory JsText
  imports JsNumber
begin

section \<open>JavaScript's renderings of numbers and queries\<close>

text \<open>
  Two functions of the language's library whose output the services send out: \<open>toFixed2\<close>,
  that is \<^verbatim>\<open>toFixed(2)\<close>, for the amounts of mails and receipts, and the serialisation of
  \<^verbatim>\<open>URLSearchParams\<close> for the queries the gateway forwards. Each has its inverse: what was
  printed reads back as the amount rounded to cents, what was encoded decodes to the parameters.
\<close>

subsection \<open>Fixed-point numbers\<close>

text \<open>
  The whole number of hundredths next to the exact value, the larger one of two, printed with a
  point before the last two digits.
\<close>

fun decimal_digits :: "nat \<Rightarrow> string" where
  "decimal_digits n = (if n < 10 then [char_of (48 + n)] else decimal_digits (n div 10) @ [char_of (48 + n mod 10)])"

declare decimal_digits.simps [simp del]

definition hundredths :: "nat \<Rightarrow> string" where
  "hundredths n = decimal_digits (n div 100) @ ''.'' @ [char_of (48 + n div 10 mod 10), char_of (48 + n mod 10)]"

definition toFixed2 :: "number \<Rightarrow> string" where
  "toFixed2 x =
     (if x < 0 then ''-'' @ hundredths (nat \<lfloor>100 * (- x) + 1 / 2\<rfloor>) else hundredths (nat \<lfloor>100 * x + 1 / 2\<rfloor>))"

definition digit_of :: "char \<Rightarrow> nat" where
  "digit_of c = of_char c - 48"

definition read_digits :: "string \<Rightarrow> nat" where
  "read_digits ds = foldl (\<lambda>n c. 10 * n + digit_of c) 0 ds"

definition read_fixed :: "string \<Rightarrow> rat" where
  "read_fixed s =
     (if s \<noteq> [] \<and> hd s = CHR ''-''
      then - of_nat (read_digits (filter (\<lambda>c. c \<noteq> CHR ''.'') (tl s))) / 100
      else of_nat (read_digits (filter (\<lambda>c. c \<noteq> CHR ''.'') s)) / 100)"

lemma of_char_digit: "n < (10 :: nat) \<Longrightarrow> of_char (char_of (48 + n)) = 48 + n"
  by simp

lemma digit_of_char [simp]: "n < 10 \<Longrightarrow> digit_of (char_of (48 + n)) = n"
  by (simp add: digit_of_def)

lemma digit_not_point:
  assumes "n < (10 :: nat)"
  shows "char_of (48 + n) \<noteq> CHR ''.''" "char_of (48 + n) \<noteq> CHR ''-''"
proof -
  have "c \<noteq> char_of (48 + n)" if "of_char c < (48 :: nat)" for c
    using that of_char_digit [OF assms] by auto
  from this [of "CHR ''.''"] this [of "CHR ''-''"]
  show "char_of (48 + n) \<noteq> CHR ''.''" "char_of (48 + n) \<noteq> CHR ''-''" by force+
qed

lemma read_snoc: "read_digits (ds @ [c]) = 10 * read_digits ds + digit_of c"
  by (simp add: read_digits_def)

lemma read_decimal_digits: "read_digits (decimal_digits n) = n"
proof (induction n rule: decimal_digits.induct)
  case (1 n)
  show ?case
  proof (cases "n < 10")
    case True
    then show ?thesis by (simp add: decimal_digits.simps read_digits_def)
  next
    case False
    with 1 show ?thesis by (simp add: decimal_digits.simps [of n] read_snoc)
  qed
qed

lemma decimal_digits_chars: "c \<in> set (decimal_digits n) \<Longrightarrow> c \<noteq> CHR ''.'' \<and> c \<noteq> CHR ''-''"
proof (induction n rule: decimal_digits.induct)
  case (1 n)
  show ?case
  proof (cases "n < 10")
    case True
    with 1 show ?thesis by (simp add: decimal_digits.simps [of n] digit_not_point)
  next
    case False
    with 1 show ?thesis by (auto simp: decimal_digits.simps [of n] digit_not_point)
  qed
qed

lemma read_hundredths: "read_digits (filter (\<lambda>c. c \<noteq> CHR ''.'') (hundredths n)) = n"
proof -
  have "filter (\<lambda>c. c \<noteq> CHR ''.'') (decimal_digits m) = decimal_digits m" for m
    using decimal_digits_chars by (intro filter_True) blast
  then have "filter (\<lambda>c. c \<noteq> CHR ''.'') (hundredths n) =
      (decimal_digits (n div 100) @ [char_of (48 + n div 10 mod 10)]) @ [char_of (48 + n mod 10)]"
    by (simp add: hundredths_def digit_not_point)
  then have "read_digits (filter (\<lambda>c. c \<noteq> CHR ''.'') (hundredths n)) = 10 * (10 * (n div 100) + n div 10 mod 10) + n mod 10"
    by (simp only: read_snoc read_decimal_digits digit_of_char mod_less_divisor zero_less_numeral)
  also have "10 * (n div 100) + n div 10 mod 10 = n div 10"
    using mult_div_mod_eq [of 10 "n div 10"] by (simp add: div_mult2_eq [of n 10 10, simplified])
  also have "10 * (n div 10) + n mod 10 = n" by simp
  finally show ?thesis .
qed

lemma hundredths_sign: "hundredths n \<noteq> []" "hd (hundredths n) \<noteq> CHR ''-''"
proof -
  have ne: "decimal_digits m \<noteq> []" for m by (subst decimal_digits.simps) simp
  then show "hundredths n \<noteq> []" by (simp add: hundredths_def)
  show "hd (hundredths n) \<noteq> CHR ''-''"
    using decimal_digits_chars [OF hd_in_set [OF ne]] by (simp add: hundredths_def ne)
qed

lemma read_toFixed2: "read_fixed (toFixed2 x) = dec2 x"
proof (cases "x < 0")
  case True
  then show ?thesis by (simp add: toFixed2_def read_fixed_def read_hundredths dec2_def)
next
  case False
  then have "read_fixed (toFixed2 x) = of_nat (nat \<lfloor>100 * x + 1 / 2\<rfloor>) / 100"
    using hundredths_sign by (simp add: toFixed2_def read_fixed_def read_hundredths)
  also have "\<dots> = dec2 x"
    using False by (cases "x = 0") (simp_all add: dec2_def sgn_if)
  finally show ?thesis .
qed

subsection \<open>URL search parameters\<close>

text \<open>
  The serialisation of \<^verbatim>\<open>URLSearchParams\<close> (application/x-www-form-urlencoded): letters,
  digits and four signs stand for themselves, a space is a plus, every other byte is a percent
  sign and two hexadecimal digits. Strings are their bytes.
\<close>

definition hex_digit :: "nat \<Rightarrow> char" where
  "hex_digit n = ''0123456789ABCDEF'' ! n"

definition url_safe :: "char \<Rightarrow> bool" where
  "url_safe c \<longleftrightarrow> c \<in> set ''ABCDEFGHIJKLMNOPQRSTUVWXYZabcdefghijklmnopqrstuvwxyz0123456789*-._''"

definition url_byte :: "char \<Rightarrow> string" where
  "url_byte c =
     (if url_safe c then [c] else if c = CHR '' '' then ''+''
      else let n = of_char c in [CHR ''%'', hex_digit (n div 16), hex_digit (n mod 16)])"

definition url_encode :: "string \<Rightarrow> string" where
  "url_encode s = concat (map url_byte s)"

definition hex_value :: "char \<Rightarrow> nat" where
  "hex_value c = length (takeWhile (\<lambda>d. d \<noteq> c) ''0123456789ABCDEF'')"

fun url_decode :: "string \<Rightarrow> string" where
  "url_decode [] = []"
| "url_decode (c # cs) =
     (if c = CHR ''+'' then CHR '' '' # url_decode cs
      else if c = CHR ''%'' then
        (case cs of h # l # rest \<Rightarrow> char_of (16 * hex_value h + hex_value l) # url_decode rest | _ \<Rightarrow> [])
      else c # url_decode cs)"

lemma hex_value_digit: "n < 16 \<Longrightarrow> hex_value (hex_digit n) = n"
proof -
  have "list_all (\<lambda>n. hex_value (hex_digit n) = n) [0..<16]" by code_simp
  then show "n < 16 \<Longrightarrow> ?thesis" by (simp add: list_all_iff)
qed

lemma url_decode_byte: "url_decode (url_byte c @ rest) = c # url_decode rest"
proof (cases "url_safe c \<or> c = CHR '' ''")
  case True
  have "\<not> url_safe (CHR ''+'')" "\<not> url_safe (CHR ''%'')" by code_simp+
  with True show ?thesis by (auto simp: url_byte_def)
next
  case False
  have "(of_char c :: nat) < 256" by simp
  then have "(of_char c :: nat) div 16 < 16" by (intro div_less_iff_less_mult [THEN iffD2]) simp_all
  moreover have "16 * ((of_char c :: nat) div 16) + of_char c mod 16 = of_char c" by simp
  ultimately show ?thesis using False by (simp add: url_byte_def hex_value_digit Let_def)
qed

lemma url_decode_encode: "url_decode (url_encode s) = s"
  by (induction s) (simp_all add: url_encode_def url_decode_byte)

end
