(* ===== verification/Notifications.thy ===== *)
theory Notifications
  imports Outbox JsText
begin

section \<open>The notification-service and the pdf-service\<close>

text \<open>
  The two consumers of the final events. The notification-service inserts a row with a unique key
  of order and event type before it mails (the mail is a log line), so that a redelivery is
  recognised; the pdf-service writes a receipt unless the file exists and announces it. The
  database's answer to an insert, the outcome of a file write and of a publish, and the
  rendering of a date in the server's locale are arguments.
\<close>

subsection \<open>notification-log.entity.ts and notification.service.ts\<close>

record notification_log_entity =
  nl_id :: string
  nl_orderId :: string
  nl_eventType :: string
  nl_correlationId :: string
  nl_createdAt :: date

record notification_service =
  nt_seq :: nat
  nt_log :: "notification_log_entity list"
  nt_mails :: "string list"

text \<open>\<open>fault\<close> is a database error other than the unique violation.\<close>

definition markSent ::
  "string option \<Rightarrow> env \<Rightarrow> string \<Rightarrow> string \<Rightarrow> string \<Rightarrow> (notification_service, string, bool) tx" where
  "markSent fault env order eventType correlation s =
     (case fault of
        Some e \<Rightarrow> (Inl e, s)
      | None \<Rightarrow>
          if \<exists>r \<in> set (nt_log s). nl_orderId r = order \<and> nl_eventType r = eventType then (Inr False, s)
          else (Inr True, s\<lparr>nt_seq := Suc (nt_seq s),
                 nt_log := nt_log s @ [\<lparr>nl_id = e_uuid env (nt_seq s), nl_orderId = order, nl_eventType = eventType,
                   nl_correlationId = correlation, nl_createdAt = e_now env\<rparr>]\<rparr>))"

definition send_mail :: "string \<Rightarrow> notification_service \<Rightarrow> notification_service" where
  "send_mail text' s = s\<lparr>nt_mails := nt_mails s @ [text']\<rparr>"

definition confirmed_mail :: "env \<Rightarrow> order_confirmed_event \<Rightarrow> string" where
  "confirmed_mail env e =
     ''['' @ ev_correlationId e @ ''] [EMAIL] To: '' @ ev_userEmail e @ '' | Subject: Order Confirmed #'' @ ev_orderId e @
     '' | Items: '' @ e_str env (of_nat (length (oc_items e))) @ '' | Total: $'' @ toFixed2 (oc_total e)"

definition cancelled_mail :: "order_cancelled_event \<Rightarrow> string" where
  "cancelled_mail e =
     ''['' @ ev_correlationId e @ ''] [EMAIL] To: '' @ ev_userEmail e @ '' | Subject: Order Cancelled #'' @ ev_orderId e @
     '' | Reason: '' @ ox_reason e"

definition pdf_mail :: "pdf_generated_event \<Rightarrow> string" where
  "pdf_mail e =
     ''['' @ ev_correlationId e @ ''] [EMAIL] To: '' @ ev_userEmail e @
     '' | Subject: Your Order Receipt is Ready | Order: #'' @ ev_orderId e @ '' | PDF: '' @ pg_pdfPath e"

definition notifyOrderConfirmed ::
  "string option \<Rightarrow> env \<Rightarrow> order_confirmed_event \<Rightarrow> (notification_service, string, unit) tx" where
  "notifyOrderConfirmed fault env e =
     tx_bind (markSent fault env (ev_orderId e) (KAFKA_TOPICS ORDER_CONFIRMED) (ev_correlationId e)) (\<lambda>first.
       if \<not> first then ret () else modify (send_mail (confirmed_mail env e)))"

definition notifyOrderCancelled ::
  "string option \<Rightarrow> env \<Rightarrow> order_cancelled_event \<Rightarrow> (notification_service, string, unit) tx" where
  "notifyOrderCancelled fault env e =
     tx_bind (markSent fault env (ev_orderId e) (KAFKA_TOPICS ORDER_CANCELLED) (ev_correlationId e)) (\<lambda>first.
       if \<not> first then ret () else modify (send_mail (cancelled_mail e)))"

definition notifyPdfReady ::
  "string option \<Rightarrow> env \<Rightarrow> pdf_generated_event \<Rightarrow> (notification_service, string, unit) tx" where
  "notifyPdfReady fault env e =
     tx_bind (markSent fault env (ev_orderId e) (KAFKA_TOPICS PDF_GENERATED) (ev_correlationId e)) (\<lambda>first.
       if \<not> first then ret () else modify (send_mail (pdf_mail e)))"

subsection \<open>notification.controller.ts\<close>

text \<open>The three subscriptions; other payloads do not reach the service.\<close>

fun NotificationController_handler ::
  "string option \<Rightarrow> env \<Rightarrow> payload \<Rightarrow> (notification_service, string, unit) tx" where
  "NotificationController_handler fault env (OrderConfirmed e) = notifyOrderConfirmed fault env e"
| "NotificationController_handler fault env (OrderCancelled e) = notifyOrderCancelled fault env e"
| "NotificationController_handler fault env (PdfGenerated e) = notifyPdfReady fault env e"
| "NotificationController_handler fault env _ = ret ()"

subsection \<open>pdf.service.ts\<close>

text \<open>
  The lines \<open>writePdf\<close> puts on the page. A write stream creates the file when it opens; if it
  cannot be opened there is no file, and if it fails later, what was flushed stays on disk. Both reject.
\<close>

datatype write_outcome = Finished | NotOpened string | Broken "string list" string

record pdf_service =
  pf_files :: "(string \<times> string list) list"
  pf_bus :: "payload kafka_message list"

record pdf_env =
  pv_dir :: string
  pv_locale_date :: "string \<Rightarrow> string"
  pv_source :: string
  pv_carrier :: trace_carrier
  pv_uuid :: string

definition receipt_line :: "env \<Rightarrow> order_created_event_item \<Rightarrow> string" where
  "receipt_line env i =
     oi_name i @ ''  x'' @ e_str env (of_int (oi_quantity i)) @ ''  @ $'' @ toFixed2 (oi_unitPrice i) @ ''  =  $'' @
     toFixed2 (num_mul (oi_unitPrice i) (of_int (oi_quantity i)))"

definition receipt :: "env \<Rightarrow> pdf_env \<Rightarrow> order_confirmed_event \<Rightarrow> string list" where
  "receipt env pv e =
     [''Order Receipt'', ''Order ID: '' @ ev_orderId e, ''Customer: '' @ ev_userEmail e,
      ''Date: '' @ pv_locale_date pv (oc_confirmedAt e), ''Items:''] @
     map (receipt_line env) (oc_items e) @ [''Total: $'' @ toFixed2 (oc_total e)]"

definition pdf_path :: "pdf_env \<Rightarrow> string \<Rightarrow> string" where
  "pdf_path pv order = pv_dir pv @ ''/order-'' @ order @ ''.pdf''"

definition writePdf ::
  "write_outcome \<Rightarrow> env \<Rightarrow> pdf_env \<Rightarrow> string \<Rightarrow> order_confirmed_event \<Rightarrow> (pdf_service, string, unit) tx" where
  "writePdf outcome env pv path e s =
     (case outcome of
        Finished \<Rightarrow> (Inr (), s\<lparr>pf_files := (path, receipt env pv e) # pf_files s\<rparr>)
      | NotOpened err \<Rightarrow> (Inl err, s)
      | Broken flushed err \<Rightarrow> (Inl err, s\<lparr>pf_files := (path, flushed) # pf_files s\<rparr>))"

definition PdfService_generateOrderPdf ::
  "write_outcome \<Rightarrow> send_outcome \<Rightarrow> env \<Rightarrow> pdf_env \<Rightarrow> order_confirmed_event \<Rightarrow> (pdf_service, string, unit) tx" where
  "PdfService_generateOrderPdf outcome sent env pv e =
     (let path = pdf_path pv (ev_orderId e);
          pdfEvent = \<lparr>ev_orderId = ev_orderId e, ev_userId = ev_userId e, ev_userEmail = ev_userEmail e,
            ev_correlationId = ev_correlationId e, pg_pdfPath = path, pg_createdAt = e_iso env (e_now env)\<rparr>
      in tx_bind (\<lambda>s. if map_of (pf_files s) path \<noteq> None then (Inr (), s) else writePdf outcome env pv path e s) (\<lambda>_ s.
           case KafkaProducerService_publish env (pv_source pv) (pv_carrier pv) (pv_uuid pv) sent
                  (KAFKA_TOPICS PDF_GENERATED) (PdfGenerated pdfEvent) (Some (ev_correlationId e)) None (pf_bus s) of
             (r, bus) \<Rightarrow> (r, s\<lparr>pf_bus := bus\<rparr>)))"

subsection \<open>pdf.controller.ts\<close>

text \<open>
  The subscription of \<^verbatim>\<open>onModuleInit\<close>; \<open>attempts\<close> says what disk, broker and clock do in
  every attempt of the dispatch loop.
\<close>

definition PdfController_subscription ::
  "(nat \<Rightarrow> write_outcome \<times> send_outcome \<times> env) \<Rightarrow> pdf_env \<Rightarrow> (payload, pdf_service) subscribe_options" where
  "PdfController_subscription attempts pv =
     \<lparr>so_topic = KAFKA_TOPICS ORDER_CONFIRMED,
      so_handler = (\<lambda>e k. case (ke_payload e, attempts k) of
          (OrderConfirmed payload, outcome, sent, env) \<Rightarrow> PdfService_generateOrderPdf outcome sent env pv payload
        | _ \<Rightarrow> ret ()),
      so_maxRetries = None\<rparr>"

subsection \<open>One mail per order and event\<close>

fun mail_key :: "payload \<Rightarrow> (string \<times> string) option" where
  "mail_key (OrderConfirmed e) = Some (ev_orderId e, KAFKA_TOPICS ORDER_CONFIRMED)"
| "mail_key (OrderCancelled e) = Some (ev_orderId e, KAFKA_TOPICS ORDER_CANCELLED)"
| "mail_key (PdfGenerated e) = Some (ev_orderId e, KAFKA_TOPICS PDF_GENERATED)"
| "mail_key _ = None"

fun mail_text :: "env \<Rightarrow> payload \<Rightarrow> string" where
  "mail_text env (OrderConfirmed e) = confirmed_mail env e"
| "mail_text env (OrderCancelled e) = cancelled_mail e"
| "mail_text env (PdfGenerated e) = pdf_mail e"
| "mail_text env _ = []"

definition logged :: "notification_service \<Rightarrow> (string \<times> string) list" where
  "logged s = map (\<lambda>r. (nl_orderId r, nl_eventType r)) (nt_log s)"

fun mail_corr :: "payload \<Rightarrow> string" where
  "mail_corr (OrderConfirmed e) = ev_correlationId e"
| "mail_corr (OrderCancelled e) = ev_correlationId e"
| "mail_corr (PdfGenerated e) = ev_correlationId e"
| "mail_corr _ = []"

lemma handler_shape:
  "mail_key p = Some k \<Longrightarrow> NotificationController_handler fault env p =
    tx_bind (markSent fault env (fst k) (snd k) (mail_corr p))
      (\<lambda>first. if \<not> first then ret () else modify (send_mail (mail_text env p)))"
  by (cases p) (auto simp: notifyOrderConfirmed_def notifyOrderCancelled_def notifyPdfReady_def cong: if_cong)

lemma in_logged: "k \<in> set (logged s) \<longleftrightarrow> (\<exists>r \<in> set (nt_log s). nl_orderId r = fst k \<and> nl_eventType r = snd k)"
  by (cases k) (auto simp: logged_def)

lemma handler_effect:
  assumes "mail_key p = Some k"
  shows "NotificationController_handler (Some e) env p s = (Inl e, s)"
    "k \<in> set (logged s) \<Longrightarrow> NotificationController_handler None env p s = (Inr (), s)"
    "k \<notin> set (logged s) \<Longrightarrow> \<exists>s'. NotificationController_handler None env p s = (Inr (), s') \<and>
       logged s' = logged s @ [k] \<and> nt_mails s' = nt_mails s @ [mail_text env p]"
proof -
  note shape = handler_shape [OF assms]
  show "NotificationController_handler (Some e) env p s = (Inl e, s)"
    unfolding shape by (simp add: tx_bind_def markSent_def)
  show "NotificationController_handler None env p s = (Inr (), s)" if "k \<in> set (logged s)"
    using that unfolding shape in_logged by (simp add: tx_bind_def markSent_def ret_def)
  assume "k \<notin> set (logged s)"
  then have "\<not> (\<exists>r \<in> set (nt_log s). nl_orderId r = fst k \<and> nl_eventType r = snd k)" by (simp only: in_logged not_False_eq_True)
  then show "\<exists>s'. NotificationController_handler None env p s = (Inr (), s') \<and>
      logged s' = logged s @ [k] \<and> nt_mails s' = nt_mails s @ [mail_text env p]"
    unfolding shape by (auto simp: tx_bind_def markSent_def modify_def send_mail_def logged_def)
qed

lemma handler_other: "mail_key p = None \<Longrightarrow> NotificationController_handler fault env p s = (Inr (), s)"
  by (cases p) (simp_all add: ret_def)

fun notify_all ::
  "(string option \<times> env \<times> payload) list \<Rightarrow> notification_service \<Rightarrow> notification_service" where
  "notify_all [] s = s"
| "notify_all ((fault, env, p) # ds) s = notify_all ds (snd (NotificationController_handler fault env p s))"

text \<open>The texts of the mails, each with the key it was sent for.\<close>

definition mailed :: "notification_service \<Rightarrow> notification_service \<Rightarrow> (string option \<times> env \<times> payload) list \<Rightarrow> bool" where
  "mailed s s' ds \<longleftrightarrow> (\<exists>ps. set ps \<subseteq> {(env, p). (None, env, p) \<in> set ds} \<and>
     map Some (logged s') = map Some (logged s) @ map (mail_key \<circ> snd) ps \<and>
     nt_mails s' = nt_mails s @ map (\<lambda>(env, p). mail_text env p) ps)"

lemma mailed_keys: "mailed s (notify_all ds s) ds"
proof (induction ds arbitrary: s)
  case Nil
  show ?case by (simp add: mailed_def)
next
  case (Cons d ds)
  obtain fault env p where d: "d = (fault, env, p)" by (cases d)
  let ?t = "snd (NotificationController_handler fault env p s)"
  obtain ps where ps: "set ps \<subseteq> {(env, p). (None, env, p) \<in> set ds}"
    "map Some (logged (notify_all ds ?t)) = map Some (logged ?t) @ map (mail_key \<circ> snd) ps"
    "nt_mails (notify_all ds ?t) = nt_mails ?t @ map (\<lambda>(env, p). mail_text env p) ps"
    using Cons.IH [of ?t] by (auto simp: mailed_def)
  show ?case
  proof (cases "\<exists>k. mail_key p = Some k \<and> fault = None \<and> k \<notin> set (logged s)")
    case True
    then obtain k where k: "mail_key p = Some k" "fault = None" "k \<notin> set (logged s)" by blast
    then have "logged ?t = logged s @ [k]" "nt_mails ?t = nt_mails s @ [mail_text env p]"
      using handler_effect(3) [OF k(1,3), of env] by auto
    with ps k d show ?thesis unfolding mailed_def by (intro exI [of _ "(env, p) # ps"]) auto
  next
    case False
    then have "?t = s"
      using handler_effect(1,2) [of p] handler_other [of p fault env s] by (cases "mail_key p"; cases fault) auto
    with ps d show ?thesis unfolding mailed_def by (intro exI [of _ ps]) auto
  qed
qed

lemma logged_distinct: "distinct (logged s) \<Longrightarrow> distinct (logged (notify_all ds s))"
proof (induction ds arbitrary: s)
  case (Cons d ds)
  obtain fault env p where d: "d = (fault, env, p)" by (cases d)
  have "distinct (logged (snd (NotificationController_handler fault env p s)))"
  proof (cases "mail_key p")
    case None
    then show ?thesis using Cons.prems by (simp add: handler_other)
  next
    case (Some k)
    note effect = handler_effect [OF Some]
    show ?thesis
    proof (cases fault)
      case None
      with effect(2,3) [of s env] Cons.prems show ?thesis by (cases "k \<in> set (logged s)") auto
    qed (use effect(1) Cons.prems in simp)
  qed
  with Cons.IH d show ?case by simp
qed simp

text \<open>
  C33. However often the final events and receipts are delivered, in any order and with any
  database failures between: at most one mail is sent per order and event type, every mail is
  for a delivered event, and an event whose delivery succeeded has been mailed.
\<close>

theorem mailed_once:
  assumes "nt_log s = []" "nt_mails s = []"
  shows "distinct (logged (notify_all ds s)) \<and> length (nt_mails (notify_all ds s)) = length (logged (notify_all ds s)) \<and>
    mailed s (notify_all ds s) ds \<and>
    (\<forall>env p k. (None, env, p) \<in> set ds \<longrightarrow> mail_key p = Some k \<longrightarrow> k \<in> set (logged (notify_all ds s)))"
proof -
  have grows: "set (logged s) \<subseteq> set (logged (notify_all ds s))" for s ds
  proof -
    obtain ps :: "(env \<times> payload) list" where "map Some (logged (notify_all ds s)) = map Some (logged s) @ map (mail_key \<circ> snd) ps"
      using mailed_keys [of s ds] unfolding mailed_def by blast
    from arg_cong [OF this, of set] show ?thesis by auto
  qed
  have sent: "(None, env, p) \<in> set ds \<Longrightarrow> mail_key p = Some k \<Longrightarrow> k \<in> set (logged (notify_all ds s))" for env p k s ds
  proof (induction ds arbitrary: s)
    case (Cons d ds)
    obtain f e q where d: "d = (f, e, q)" by (cases d)
    let ?t = "snd (NotificationController_handler f e q s)"
    have "k \<in> set (logged ?t)" if "d = (None, env, p)"
      using that d Cons.prems(2) handler_effect(2,3) [OF Cons.prems(2), of s env] by (cases "k \<in> set (logged s)") auto
    with Cons d grows [of ?t ds] show ?case by (cases "d = (None, env, p)") auto
  qed simp
  obtain ps :: "(env \<times> payload) list" where "map Some (logged (notify_all ds s)) = map (mail_key \<circ> snd) ps"
    "nt_mails (notify_all ds s) = map (\<lambda>(env, p). mail_text env p) ps"
    using mailed_keys [of s ds] assms unfolding mailed_def logged_def by auto
  then have "length (nt_mails (notify_all ds s)) = length (logged (notify_all ds s))" by (metis length_map)
  moreover have "distinct (logged (notify_all ds s))" using assms by (intro logged_distinct) (simp add: logged_def)
  ultimately show ?thesis using mailed_keys sent by blast
qed

definition sample_cancelled :: payload where
  "sample_cancelled = OrderCancelled \<lparr>ev_orderId = ''o1'', ev_userId = ''u1'', ev_userEmail = ''u@x'', ev_correlationId = ''c1'',
     ox_reason = ''no funds'', ox_cancelledAt = ''now''\<rparr>"

definition no_mails :: notification_service where
  "no_mails = \<lparr>nt_seq = 0, nt_log = [], nt_mails = []\<rparr>"

theorem mailed_once_witness:
  "length (nt_mails (notify_all [(Some ''down'', sample_env, sample_cancelled), (None, sample_env, sample_cancelled),
     (None, sample_env, sample_cancelled)] no_mails)) = 1 \<and>
   distinct (logged (notify_all [(Some ''down'', sample_env, sample_cancelled), (None, sample_env, sample_cancelled),
     (None, sample_env, sample_cancelled)] no_mails))"
proof -
  let ?ds = "[(Some ''down'', sample_env, sample_cancelled), (None, sample_env, sample_cancelled), (None, sample_env, sample_cancelled)]"
  have "length (nt_mails (notify_all ?ds no_mails)) = 1" by code_simp
  then show ?thesis using mailed_once [of no_mails ?ds] by (simp add: no_mails_def)
qed

subsection \<open>Receipts\<close>

text \<open>
  The receipt prints the order's total to the cent: the amount on its last line reads back as
  the total rounded half away from zero, which is the total the order's column holds.
\<close>

theorem receipt_total_round_trip:
  "read_fixed (drop (length ''Total: $'') (last (receipt env pv e))) = dec2 (oc_total e)"
  by (simp add: receipt_def read_toFixed2)

definition pdf_event :: "env \<Rightarrow> pdf_env \<Rightarrow> order_confirmed_event \<Rightarrow> payload" where
  "pdf_event env pv e = PdfGenerated \<lparr>ev_orderId = ev_orderId e, ev_userId = ev_userId e, ev_userEmail = ev_userEmail e,
     ev_correlationId = ev_correlationId e, pg_pdfPath = pdf_path pv (ev_orderId e), pg_createdAt = e_iso env (e_now env)\<rparr>"

definition announced :: "env \<Rightarrow> pdf_env \<Rightarrow> order_confirmed_event \<Rightarrow> payload kafka_message list \<Rightarrow> payload kafka_message list \<Rightarrow> bool" where
  "announced env pv e bus bus' \<longleftrightarrow> (\<exists>m. bus' = bus @ [m] \<and> km_topic m = KAFKA_TOPICS PDF_GENERATED \<and>
     ke_payload (km_value m) = pdf_event env pv e)"

lemma generate_existing:
  assumes "map_of (pf_files s) (pdf_path pv (ev_orderId e)) \<noteq> None"
  shows "\<exists>s'. PdfService_generateOrderPdf outcome Stored env pv e s = (Inr (), s') \<and> pf_files s' = pf_files s \<and>
    announced env pv e (pf_bus s) (pf_bus s')"
  using assms by (auto simp: PdfService_generateOrderPdf_def tx_bind_def KafkaProducerService_publish_def
      announced_def pdf_event_def make_message_def make_envelope_def Let_def)

lemma generate_new:
  assumes "map_of (pf_files s) (pdf_path pv (ev_orderId e)) = None"
  shows "\<exists>s'. PdfService_generateOrderPdf Finished Stored env pv e s = (Inr (), s') \<and>
      map_of (pf_files s') (pdf_path pv (ev_orderId e)) = Some (receipt env pv e) \<and> announced env pv e (pf_bus s) (pf_bus s')"
    "PdfService_generateOrderPdf (Broken flushed err) sent env pv e s =
      (Inl err, s\<lparr>pf_files := (pdf_path pv (ev_orderId e), flushed) # pf_files s\<rparr>)"
    "PdfService_generateOrderPdf (NotOpened err) sent env pv e s = (Inl err, s)"
  using assms by (auto simp: PdfService_generateOrderPdf_def tx_bind_def writePdf_def KafkaProducerService_publish_def
      announced_def pdf_event_def make_message_def make_envelope_def Let_def)

text \<open>A handler that succeeds at once, or at the second attempt.\<close>

lemma dispatch_soon:
  "h 1 s = (Inr (), s') \<Longrightarrow> dispatch_loop h 3 1 s = (Handled 1, [], s')"
  "h 1 s = (Inl err, s1) \<Longrightarrow> h 2 s1 = (Inr (), s') \<Longrightarrow> dispatch_loop h 3 1 s = (Handled 2, [300], s')"
  by (simp_all add: dispatch_loop.simps [of h 3 "Suc 0"] dispatch_loop.simps [of h 3 "Suc (Suc 0)"] numeral_2_eq_2)

text \<open>
  C34. What becomes of a receipt. An order-confirmed message that reaches the pdf-service for the
  first time, with a disk that works, leaves the receipt of the event in the file and exactly one
  announcement of its path on the bus. If the write breaks off, the attempt fails without an
  announcement; but the file it left makes the next attempt skip the writing and announce the
  broken file, and nothing goes to the dead-letter topic. If the file cannot even be opened, nothing is left behind, and the
  next attempt, with a disk that works, writes and announces the receipt.
\<close>

theorem receipt_announced:
  assumes "txt \<noteq> ''''" "JSON_parse txt = Some envelope" "ke_payload envelope = OrderConfirmed e"
    and "map_of (pf_files (cs_service st)) (pdf_path pv (ev_orderId e)) = None"
    and "st' = KafkaConsumerService_dispatch env0 src carrier rnd dlq_sent JSON_parse [PdfController_subscription attempts pv]
      (KAFKA_TOPICS ORDER_CONFIRMED) (Some txt) st"
  shows "(attempts 1 = (Finished, Stored, env) \<longrightarrow>
      map_of (pf_files (cs_service st')) (pdf_path pv (ev_orderId e)) = Some (receipt env pv e) \<and>
      announced env pv e (pf_bus (cs_service st)) (pf_bus (cs_service st')) \<and> cs_dlq st' = cs_dlq st) \<and>
    (attempts 1 = (Broken flushed err, sent, env) \<longrightarrow> attempts 2 = (outcome, Stored, env2) \<longrightarrow>
      map_of (pf_files (cs_service st')) (pdf_path pv (ev_orderId e)) = Some flushed \<and>
      announced env2 pv e (pf_bus (cs_service st)) (pf_bus (cs_service st')) \<and> cs_dlq st' = cs_dlq st) \<and>
    (attempts 1 = (NotOpened err, sent, env) \<longrightarrow> attempts 2 = (Finished, Stored, env2) \<longrightarrow>
      map_of (pf_files (cs_service st')) (pdf_path pv (ev_orderId e)) = Some (receipt env2 pv e) \<and>
      announced env2 pv e (pf_bus (cs_service st)) (pf_bus (cs_service st')) \<and> cs_dlq st' = cs_dlq st)"
proof -
  let ?h = "so_handler (PdfController_subscription attempts pv) envelope" and ?s = "cs_service st"
  have handler: "?h k = (case attempts k of (out, sent, env) \<Rightarrow> PdfService_generateOrderPdf out sent env pv e)" for k
    using assms(3) by (simp add: PdfController_subscription_def split: prod.splits)
  have st': "st' = st\<lparr>cs_service := s'\<rparr>" if "dispatch_loop ?h 3 1 ?s = (Handled k, ws, s')" for k ws s'
    using that assms(1,2,5) by (simp add: KafkaConsumerService_dispatch_def PdfController_subscription_def)
  have "map_of (pf_files (cs_service st')) (pdf_path pv (ev_orderId e)) = Some (receipt env pv e) \<and>
      announced env pv e (pf_bus ?s) (pf_bus (cs_service st')) \<and> cs_dlq st' = cs_dlq st"
    if "attempts 1 = (Finished, Stored, env)"
    using generate_new(1) [OF assms(4), of env] dispatch_soon(1) [of ?h ?s] handler [of 1] that st' by auto
  moreover have "map_of (pf_files (cs_service st')) (pdf_path pv (ev_orderId e)) = Some flushed \<and>
      announced env2 pv e (pf_bus ?s) (pf_bus (cs_service st')) \<and> cs_dlq st' = cs_dlq st"
    if a: "attempts 1 = (Broken flushed err, sent, env)" "attempts 2 = (outcome, Stored, env2)"
  proof -
    let ?s1 = "?s\<lparr>pf_files := (pdf_path pv (ev_orderId e), flushed) # pf_files ?s\<rparr>"
    obtain s' where s': "?h 2 ?s1 = (Inr (), s')" "pf_files s' = pf_files ?s1" "announced env2 pv e (pf_bus ?s1) (pf_bus s')"
      using generate_existing [of ?s1 pv e outcome env2] handler [of 2] a(2) by auto
    moreover have "?h 1 ?s = (Inl err, ?s1)" using generate_new(2) [OF assms(4)] handler [of 1] a(1) by simp
    ultimately show ?thesis using st' dispatch_soon(2) [of ?h ?s err ?s1 s'] by auto
  qed
  moreover have "map_of (pf_files (cs_service st')) (pdf_path pv (ev_orderId e)) = Some (receipt env2 pv e) \<and>
      announced env2 pv e (pf_bus ?s) (pf_bus (cs_service st')) \<and> cs_dlq st' = cs_dlq st"
    if a: "attempts 1 = (NotOpened err, sent, env)" "attempts 2 = (Finished, Stored, env2)"
  proof -
    have "?h 1 ?s = (Inl err, ?s)" using generate_new(3) [OF assms(4)] handler [of 1] a(1) by simp
    moreover obtain s' where "?h 2 ?s = (Inr (), s')" "map_of (pf_files s') (pdf_path pv (ev_orderId e)) = Some (receipt env2 pv e)"
      "announced env2 pv e (pf_bus ?s) (pf_bus s')"
      using generate_new(1) [OF assms(4), of env2] handler [of 2] a(2) by auto
    ultimately show ?thesis using st' dispatch_soon(2) [of ?h ?s err ?s s'] by auto
  qed
  ultimately show ?thesis by blast
qed

definition sample_confirmed :: order_confirmed_event where
  "sample_confirmed = \<lparr>ev_orderId = ''o1'', ev_userId = ''u1'', ev_userEmail = ''u@x'', ev_correlationId = ''c1'',
     oc_items = [\<lparr>oi_productId = ''p1'', oi_name = ''Pen'', oi_quantity = 3, oi_unitPrice = fl (1 / 10)\<rparr>],
     oc_total = num_mul (fl (1 / 10)) 3, oc_confirmedAt = ''now''\<rparr>"

definition sample_pdf_env :: pdf_env where
  "sample_pdf_env = \<lparr>pv_dir = ''pdfs'', pv_locale_date = id, pv_source = ''pdf-service'',
     pv_carrier = \<lparr>tc_traceparent = None, tc_tracestate = None\<rparr>, pv_uuid = ''m1''\<rparr>"

definition sample_confirmation :: "payload kafka_envelope" where
  "sample_confirmation = make_envelope sample_env ''order-service'' \<lparr>tc_traceparent = None, tc_tracestate = None\<rparr> ''m0''
     (OrderConfirmed sample_confirmed) (Some ''c1'') None"

definition full_disk :: "nat \<Rightarrow> write_outcome \<times> send_outcome \<times> env" where
  "full_disk k = (if k = 1 then Broken [''Order Receipt''] ''ENOSPC'' else Finished, Stored, sample_env)"

theorem receipt_announced_witness:
  "last (receipt sample_env sample_pdf_env sample_confirmed) = ''Total: $0.30'' \<and>
   (\<exists>st'. st' = KafkaConsumerService_dispatch sample_env ''pdf-service'' \<lparr>tc_traceparent = None, tc_tracestate = None\<rparr> ''m1'' Stored
       (\<lambda>_. Some sample_confirmation) [PdfController_subscription full_disk sample_pdf_env]
       (KAFKA_TOPICS ORDER_CONFIRMED) (Some ''{}'') \<lparr>cs_service = \<lparr>pf_files = [], pf_bus = []\<rparr>, cs_dlq = []\<rparr> \<and>
     map_of (pf_files (cs_service st')) ''pdfs/order-o1.pdf'' = Some [''Order Receipt''] \<and>
     length (pf_bus (cs_service st')) = 1 \<and> cs_dlq st' = [])"
proof -
  let ?st = "\<lparr>cs_service = \<lparr>pf_files = [], pf_bus = []\<rparr>, cs_dlq = []\<rparr>"
  let ?st' = "KafkaConsumerService_dispatch sample_env ''pdf-service'' \<lparr>tc_traceparent = None, tc_tracestate = None\<rparr> ''m1'' Stored
       (\<lambda>_. Some sample_confirmation) [PdfController_subscription full_disk sample_pdf_env]
       (KAFKA_TOPICS ORDER_CONFIRMED) (Some ''{}'') ?st"
  have total: "last (receipt sample_env sample_pdf_env sample_confirmed) = ''Total: $0.30''" by code_simp
  have path: "pdf_path sample_pdf_env (ev_orderId sample_confirmed) = ''pdfs/order-o1.pdf''" by code_simp
  have payload: "ke_payload sample_confirmation = OrderConfirmed sample_confirmed"
    by (simp add: sample_confirmation_def make_envelope_def)
  have "full_disk 1 = (Broken [''Order Receipt''] ''ENOSPC'', Stored, sample_env)" "full_disk 2 = (Finished, Stored, sample_env)"
    by (simp_all add: full_disk_def)
  moreover have none: "map_of (pf_files (cs_service ?st)) (pdf_path sample_pdf_env (ev_orderId sample_confirmed)) = None" by simp
  have "''{}'' \<noteq> ''''" by simp
  ultimately have "map_of (pf_files (cs_service ?st')) ''pdfs/order-o1.pdf'' = Some [''Order Receipt''] \<and>
      announced sample_env sample_pdf_env sample_confirmed (pf_bus (cs_service ?st)) (pf_bus (cs_service ?st')) \<and> cs_dlq ?st' = cs_dlq ?st"
    using receipt_announced [OF \<open>''{}'' \<noteq> ''''\<close> refl payload none refl,
        where env0 = sample_env and src = "''pdf-service''" and carrier = "\<lparr>tc_traceparent = None, tc_tracestate = None\<rparr>"
          and rnd = "''m1''" and dlq_sent = Stored and attempts = full_disk] path by fastforce
  with total show ?thesis by (auto simp: announced_def)
qed

end
