(* ===== verification/Gateway.thy ===== *)
theory Gateway
  imports Auth JsText
begin

section \<open>The API gateway\<close>

text \<open>
  \<^verbatim>\<open>services/gateway\<close>: the guards, the token strategy with its cache, the interceptors,
  the proxy service and the proxy controllers, one definition per route, and the exception
  filter, composed in the order of \<^verbatim>\<open>app.module.ts\<close>: \<open>JwtAuthGuard\<close>, \<open>RolesGuard\<close>,
  the interceptors, the pipes, the handler, and around all of it the filter. The circuit breaker and
  \<^verbatim>\<open>fetch\<close>, the verification of tokens and the availability of Redis are arguments, in
  the record \<open>gateway_io\<close>. The state is the cache of users and the requests handed to the
  circuit breakers.
\<close>

subsection \<open>Values\<close>

datatype json =
    JNull
  | JBool bool
  | JNum number
  | JStr string
  | JArr "json list"
  | JObj "(string \<times> json) list"

text \<open>What a condition of the language takes for true.\<close>

fun truthy :: "json \<Rightarrow> bool" where
  "truthy JNull = False"
| "truthy (JBool b) = b"
| "truthy (JNum n) = (n \<noteq> 0)"
| "truthy (JStr s) = (s \<noteq> '''')"
| "truthy (JArr _) = True"
| "truthy (JObj _) = True"

definition present :: "string option \<Rightarrow> bool" where
  "present v \<longleftrightarrow> v \<noteq> None \<and> v \<noteq> Some ''''"

fun js_includes :: "string \<Rightarrow> string \<Rightarrow> bool" where
  "js_includes pat [] \<longleftrightarrow> pat = []"
| "js_includes pat (c # cs) \<longleftrightarrow> take (length pat) (c # cs) = pat \<or> js_includes pat cs"

text \<open>\<^verbatim>\<open>replace\<close> with a string pattern and an empty replacement: the first occurrence.\<close>

fun js_remove :: "string \<Rightarrow> string \<Rightarrow> string" where
  "js_remove pat [] = []"
| "js_remove pat (c # cs) =
     (if take (length pat) (c # cs) = pat then drop (length pat) (c # cs) else c # js_remove pat cs)"

text \<open>The elements of an array as \<^verbatim>\<open>join\<close> renders them.\<close>

fun js_element :: "env \<Rightarrow> json \<Rightarrow> string" where
  "js_element env JNull = ''''"
| "js_element env (JBool b) = (if b then ''true'' else ''false'')"
| "js_element env (JNum n) = e_str env n"
| "js_element env (JStr s) = s"
| "js_element env (JArr xs) = js_join '','' (map (js_element env) xs)"
| "js_element env (JObj _) = ''[object Object]''"

subsection \<open>Users, tokens, requests\<close>

record request_user =
  ru_id :: string
  ru_email :: string
  ru_roles :: "role list"

text \<open>A payload as it comes out of the verification: with the times the signing added, in seconds.\<close>

record verified_payload = jwt_payload +
  vp_iat :: "nat option"
  vp_exp :: "int option"

datatype service_name = AuthServiceName | UserServiceName | ProductServiceName | OrderServiceName | PaymentServiceName

fun service_value :: "service_name \<Rightarrow> string" where
  "service_value AuthServiceName = ''authService''"
| "service_value UserServiceName = ''userService''"
| "service_value ProductServiceName = ''productService''"
| "service_value OrderServiceName = ''orderService''"
| "service_value PaymentServiceName = ''paymentService''"

record proxy_options =
  po_method :: string
  po_path :: string
  po_body :: "json option"
  po_user :: "request_user option"
  po_correlationId :: "string option"
  po_headers :: "(string \<times> string) list"

text \<open>
  A request to a service. The body travels as its JSON text; it is represented by the value.
\<close>

record outgoing =
  og_method :: string
  og_url :: string
  og_headers :: "string \<Rightarrow> string option"
  og_body :: "json option"

record fetch_response =
  fr_status :: int
  fr_statusText :: string
  fr_contentLength :: "string option"
  fr_json :: "json option"

text \<open>
  \<open>breaker.fire\<close> rejects (the circuit is open, the call took longer than the breaker's timeout,
  or \<^verbatim>\<open>fetch\<close> failed) with an error that may have a code and a message, or resolves to a
  response, whose body may not be JSON (\<open>fr_json = None\<close>).
\<close>

datatype fire_outcome = Threw "string option" "string option" | Responded fetch_response

text \<open>
  An \<^verbatim>\<open>HttpException\<close> has a response and a status; \<open>builtin\<close> is the response of the
  framework's subclasses, made of the message and the name of the error.
\<close>

datatype gw_exception = HttpException json int | OtherError string

definition builtin :: "int \<Rightarrow> string \<Rightarrow> string \<Rightarrow> gw_exception" where
  "builtin status description msg =
     HttpException (JObj [(''message'', JStr msg), (''error'', JStr description), (''statusCode'', JNum (of_int status))]) status"

record gateway_io =
  gi_secret :: "string option"
  gi_url :: "service_name \<Rightarrow> string"
  gi_fire :: "service_name \<Rightarrow> outgoing \<Rightarrow> fire_outcome"
  gi_bearer :: "string option \<Rightarrow> verified_payload option"
  gi_decode :: "string \<Rightarrow> verified_payload option"
  gi_reads :: bool
  gi_writes :: bool
  gi_deletes :: bool
  gi_late :: bool

record gateway =
  gw_cache :: "(string \<times> request_user \<times> date) list"
  gw_sent :: "(service_name \<times> outgoing) list"
  gw_seq :: nat

record gateway_request =
  gq_correlation :: "string option"
  gq_authorization :: "string option"
  gq_body :: "json option"
  gq_page :: "string option"
  gq_limit :: "string option"
  gq_id :: string

text \<open>\<^verbatim>\<open>res.status(status).send(data)\<close>; \<^verbatim>\<open>send()\<close> has no body.\<close>

record http_reply =
  hr_status :: int
  hr_body :: "json option"

type_synonym 'a gw = "(gateway, gw_exception, 'a) tx"

subsection \<open>jwt.strategy.ts\<close>

definition jwt_key :: "verified_payload \<Rightarrow> string" where
  "jwt_key payload =
     ''jwt:'' @ jp_sub payload @ '':'' @ (case vp_iat payload of None \<Rightarrow> ''undefined'' | Some n \<Rightarrow> decimal_digits n)"

definition payload_user :: "verified_payload \<Rightarrow> request_user" where
  "payload_user payload = \<lparr>ru_id = jp_sub payload, ru_email = jp_email payload, ru_roles = jp_roles payload\<rparr>"

definition cached_user :: "env \<Rightarrow> string \<Rightarrow> gateway \<Rightarrow> request_user option" where
  "cached_user env key st =
     map_option (\<lambda>(_, u, _). u) (List.find (\<lambda>(k, _, expiry). k = key \<and> e_now env < expiry) (gw_cache st))"

definition cache_drop :: "string \<Rightarrow> gateway \<Rightarrow> gateway" where
  "cache_drop key st = st\<lparr>gw_cache := filter (\<lambda>(k, _). k \<noteq> key) (gw_cache st)\<rparr>"

definition cache_put :: "string \<Rightarrow> request_user \<Rightarrow> date \<Rightarrow> gateway \<Rightarrow> gateway" where
  "cache_put key u expiry st = st\<lparr>gw_cache := (key, u, expiry) # filter (\<lambda>(k, _). k \<noteq> key) (gw_cache st)\<rparr>"

definition JwtStrategy_validate :: "gateway_io \<Rightarrow> env \<Rightarrow> verified_payload \<Rightarrow> gateway \<Rightarrow> request_user \<times> gateway" where
  "JwtStrategy_validate io env payload st =
     (let key = jwt_key payload
      in case (if gi_reads io then cached_user env key st else None) of
           Some u \<Rightarrow> (u, st)
         | None \<Rightarrow>
             let user = payload_user payload;
                 ttlMs = ((case vp_exp payload of Some t \<Rightarrow> t | None \<Rightarrow> 0) - e_now env div 1000) * 1000
             in (user, if 0 < ttlMs \<and> gi_writes io then cache_put key user (e_now env + ttlMs) st else st))"

subsection \<open>The guards\<close>

text \<open>
  Passport hands \<open>handleRequest\<close> the user the strategy made of the token, or none. A public route
  leaves \<^verbatim>\<open>req.user\<close> unset.
\<close>

definition handleRequest :: "request_user option \<Rightarrow> gw_exception + request_user" where
  "handleRequest user =
     (case user of None \<Rightarrow> Inl (builtin 401 ''Unauthorized'' ''Invalid or missing token'') | Some u \<Rightarrow> Inr u)"

definition JwtAuthGuard_canActivate ::
  "gateway_io \<Rightarrow> env \<Rightarrow> bool \<Rightarrow> gateway_request \<Rightarrow> request_user option gw" where
  "JwtAuthGuard_canActivate io env isPublic req st =
     (if isPublic then (Inr None, st)
      else case gi_bearer io (gq_authorization req) of
        None \<Rightarrow> (case handleRequest None of Inl e \<Rightarrow> (Inl e, st) | Inr u \<Rightarrow> (Inr (Some u), st))
      | Some payload \<Rightarrow>
          (case JwtStrategy_validate io env payload st of (user, st') \<Rightarrow>
            (case handleRequest (Some user) of Inl e \<Rightarrow> (Inl e, st') | Inr u \<Rightarrow> (Inr (Some u), st'))))"

definition RolesGuard_canActivate :: "role list \<Rightarrow> request_user option \<Rightarrow> gw_exception + bool" where
  "RolesGuard_canActivate requiredRoles user =
     (if requiredRoles = [] then Inr True
      else if \<not> list_ex (\<lambda>r. case user of None \<Rightarrow> False | Some u \<Rightarrow> r \<in> set (ru_roles u)) requiredRoles
      then Inl (builtin 403 ''Forbidden'' (''Access denied. Required roles: '' @ js_join '', '' (map role_value requiredRoles)))
      else Inr True)"

subsection \<open>proxy.service.ts\<close>

text \<open>The spread of several objects into one: a later entry wins.\<close>

definition spread :: "(string \<times> string) list \<Rightarrow> string \<Rightarrow> string option" where
  "spread kvs = map_of (rev kvs)"

definition proxyHeaders :: "string \<Rightarrow> proxy_options \<Rightarrow> (string \<times> string) list" where
  "proxyHeaders secret options =
     (case po_body options of Some b \<Rightarrow> if truthy b then [(''content-type'', ''application/json'')] else [] | None \<Rightarrow> []) @
     [(HEADERS INTERNAL_SECRET, secret)] @
     (if present (po_correlationId options) then [(HEADERS CORRELATION_ID, the (po_correlationId options))] else []) @
     (case po_user options of
        None \<Rightarrow> []
      | Some user \<Rightarrow>
          [(HEADERS USER_ID, ru_id user), (HEADERS USER_EMAIL, ru_email user),
           (HEADERS USER_ROLES, js_join '','' (map role_value (ru_roles user)))]) @
     po_headers options"

definition outgoing_of :: "gateway_io \<Rightarrow> string \<Rightarrow> service_name \<Rightarrow> proxy_options \<Rightarrow> outgoing" where
  "outgoing_of io secret service options =
     \<lparr>og_method = po_method options, og_url = gi_url io service @ po_path options,
      og_headers = spread (proxyHeaders secret options),
      og_body = (case po_body options of Some b \<Rightarrow> if truthy b then Some b else None | None \<Rightarrow> None)\<rparr>"

fun proxy_response :: "service_name \<Rightarrow> fire_outcome \<Rightarrow> gw_exception + int \<times> json" where
  "proxy_response service (Threw code msg) =
     (if code = Some ''EOPENBREAKER'' \<or> (case msg of Some m \<Rightarrow> js_includes ''Breaker is open'' m | None \<Rightarrow> False)
      then Inl (builtin 503 ''Service Unavailable'' (service_value service @ '' is temporarily unavailable''))
      else Inl (builtin 503 ''Service Unavailable'' (service_value service @ '' is unreachable'')))"
| "proxy_response service (Responded r) =
     (case (if fr_status r \<noteq> 204 \<and> fr_contentLength r \<noteq> Some ''0'' then fr_json r else Some JNull) of
        None \<Rightarrow> Inl (builtin 502 ''Bad Gateway'' (service_value service @ '' returned an invalid response''))
      | Some data \<Rightarrow>
          if 400 \<le> fr_status r
          then Inl (HttpException (if data = JNull then JStr (fr_statusText r) else data) (fr_status r))
          else Inr (fr_status r, data))"

definition ProxyService_proxy :: "gateway_io \<Rightarrow> service_name \<Rightarrow> proxy_options \<Rightarrow> (int \<times> json) gw" where
  "ProxyService_proxy io service options st =
     (case gi_secret io of
        None \<Rightarrow> (Inl (OtherError ''Configuration key INTERNAL_SECRET does not exist''), st)
      | Some secret \<Rightarrow>
          let out = outgoing_of io secret service options
          in (proxy_response service (gi_fire io service out), st\<lparr>gw_sent := gw_sent st @ [(service, out)]\<rparr>))"

definition proxyToAuth :: "gateway_io \<Rightarrow> proxy_options \<Rightarrow> (int \<times> json) gw" where
  "proxyToAuth io = ProxyService_proxy io AuthServiceName"

definition proxyToUsers :: "gateway_io \<Rightarrow> proxy_options \<Rightarrow> (int \<times> json) gw" where
  "proxyToUsers io = ProxyService_proxy io UserServiceName"

definition proxyToProducts :: "gateway_io \<Rightarrow> proxy_options \<Rightarrow> (int \<times> json) gw" where
  "proxyToProducts io = ProxyService_proxy io ProductServiceName"

definition proxyToOrders :: "gateway_io \<Rightarrow> proxy_options \<Rightarrow> (int \<times> json) gw" where
  "proxyToOrders io = ProxyService_proxy io OrderServiceName"

definition proxyToPayments :: "gateway_io \<Rightarrow> proxy_options \<Rightarrow> (int \<times> json) gw" where
  "proxyToPayments io = ProxyService_proxy io PaymentServiceName"

record breaker =
  br_opened :: bool
  br_halfOpen :: bool
  br_fires :: nat
  br_failures :: nat
  br_successes :: nat
  br_rejects :: nat

record breaker_status =
  bs_state :: string
  bs_stats :: "nat \<times> nat \<times> nat \<times> nat"

definition getBreakersStatus :: "(service_name \<times> breaker) list \<Rightarrow> (string \<times> breaker_status) list" where
  "getBreakersStatus breakers =
     map (\<lambda>(name, b). (service_value name,
       \<lparr>bs_state = (if br_opened b then ''open'' else if br_halfOpen b then ''half-open'' else ''closed''),
        bs_stats = (br_fires b, br_failures b, br_successes b, br_rejects b)\<rparr>)) breakers"

text \<open>
  The health check: \<open>Inl\<close> is the thrown \<^verbatim>\<open>HealthCheckError\<close>, both carry the status and the
  breakers.
\<close>

definition checkCircuitBreakers ::
  "(service_name \<times> breaker) list \<Rightarrow> (string \<times> (string \<times> breaker_status) list) + (string \<times> (string \<times> breaker_status) list)" where
  "checkCircuitBreakers bs =
     (let breakers = getBreakersStatus bs;
          anyOpen = list_ex (\<lambda>(_, s). bs_state s = ''open'') breakers
      in if anyOpen then Inl (''down'', breakers) else Inr (''up'', breakers))"

subsection \<open>The proxy controllers\<close>

definition send :: "(int \<times> json) gw \<Rightarrow> http_reply gw" where
  "send m = tx_bind m (\<lambda>(status, data). ret \<lparr>hr_status = status, hr_body = Some data\<rparr>)"

definition proxy_call ::
  "string \<Rightarrow> string \<Rightarrow> json option \<Rightarrow> request_user option \<Rightarrow> string option \<Rightarrow> proxy_options" where
  "proxy_call verb path body user correlation =
     \<lparr>po_method = verb, po_path = path, po_body = body, po_user = user, po_correlationId = correlation, po_headers = []\<rparr>"

text \<open>
  The query the three list handlers build with \<^verbatim>\<open>URLSearchParams\<close>: the parameters that are
  given, in this order.
\<close>

definition given_params :: "string option \<Rightarrow> string option \<Rightarrow> (string \<times> string) list" where
  "given_params page limit =
     (if present page then [(''page'', the page)] else []) @ (if present limit then [(''limit'', the limit)] else [])"

definition list_query :: "string option \<Rightarrow> string option \<Rightarrow> string" where
  "list_query page limit = js_join ''&'' (map (\<lambda>(k, v). url_encode k @ ''='' @ url_encode v) (given_params page limit))"

definition list_path :: "string \<Rightarrow> string option \<Rightarrow> string option \<Rightarrow> string" where
  "list_path base page limit =
     (let query = list_query page limit in if query \<noteq> '''' then base @ ''?'' @ query else base)"

definition AuthProxyController_login :: "gateway_io \<Rightarrow> json option \<Rightarrow> string option \<Rightarrow> http_reply gw" where
  "AuthProxyController_login io body corr = send (proxyToAuth io (proxy_call ''POST'' ''/auth/login'' body None corr))"

definition AuthProxyController_register :: "gateway_io \<Rightarrow> json option \<Rightarrow> string option \<Rightarrow> http_reply gw" where
  "AuthProxyController_register io body corr = send (proxyToAuth io (proxy_call ''POST'' ''/auth/register'' body None corr))"

definition AuthProxyController_refresh :: "gateway_io \<Rightarrow> json option \<Rightarrow> string option \<Rightarrow> http_reply gw" where
  "AuthProxyController_refresh io body corr = send (proxyToAuth io (proxy_call ''POST'' ''/auth/refresh'' body None corr))"

text \<open>A logout also drops the cached user of the token, as far as it can be decoded.\<close>

definition logout_drop :: "gateway_io \<Rightarrow> string option \<Rightarrow> gateway \<Rightarrow> gateway" where
  "logout_drop io authorization st =
     (case authorization of
        None \<Rightarrow> st
      | Some h \<Rightarrow>
          let token = js_remove ''Bearer '' h
          in if token = '''' then st
             else case gi_decode io token of
               None \<Rightarrow> st
             | Some payload \<Rightarrow>
                 if vp_iat payload = None \<or> vp_iat payload = Some 0 \<or> \<not> gi_deletes io then st
                 else cache_drop (jwt_key payload) st)"

definition AuthProxyController_logout ::
  "gateway_io \<Rightarrow> string option \<Rightarrow> request_user option \<Rightarrow> string option \<Rightarrow> http_reply gw" where
  "AuthProxyController_logout io authorization user corr =
     tx_bind (proxyToAuth io (proxy_call ''POST'' ''/auth/logout'' None user corr)) (\<lambda>(status, data).
     tx_bind (modify (logout_drop io authorization)) (\<lambda>_.
       ret \<lparr>hr_status = status, hr_body = Some data\<rparr>))"

text \<open>Reading a property of a user that is not there throws.\<close>

definition with_current :: "request_user option \<Rightarrow> (request_user \<Rightarrow> 'a gw) \<Rightarrow> 'a gw" where
  "with_current user k =
     (case user of None \<Rightarrow> raise (OtherError ''Cannot read properties of undefined'') | Some u \<Rightarrow> k u)"

definition UsersProxyController_findAll ::
  "gateway_io \<Rightarrow> string option \<Rightarrow> string option \<Rightarrow> request_user option \<Rightarrow> string option \<Rightarrow> http_reply gw" where
  "UsersProxyController_findAll io page limit user corr =
     send (proxyToUsers io (proxy_call ''GET'' (list_path ''/users'' page limit) None user corr))"

definition UsersProxyController_getMe :: "gateway_io \<Rightarrow> request_user option \<Rightarrow> string option \<Rightarrow> http_reply gw" where
  "UsersProxyController_getMe io user corr =
     with_current user (\<lambda>u. send (proxyToUsers io (proxy_call ''GET'' (''/users/'' @ ru_id u) None user corr)))"

definition UsersProxyController_getUser ::
  "gateway_io \<Rightarrow> string \<Rightarrow> request_user option \<Rightarrow> string option \<Rightarrow> http_reply gw" where
  "UsersProxyController_getUser io i user corr = send (proxyToUsers io (proxy_call ''GET'' (''/users/'' @ i) None user corr))"

definition UsersProxyController_updateUser ::
  "gateway_io \<Rightarrow> string \<Rightarrow> json option \<Rightarrow> request_user option \<Rightarrow> string option \<Rightarrow> http_reply gw" where
  "UsersProxyController_updateUser io i body user corr =
     send (proxyToUsers io (proxy_call ''PATCH'' (''/users/'' @ i) body user corr))"

definition UsersProxyController_deleteUser ::
  "gateway_io \<Rightarrow> string \<Rightarrow> request_user option \<Rightarrow> string option \<Rightarrow> http_reply gw" where
  "UsersProxyController_deleteUser io i user corr =
     send (proxyToUsers io (proxy_call ''DELETE'' (''/users/'' @ i) None user corr))"

definition ProductsProxyController_findAll ::
  "gateway_io \<Rightarrow> string option \<Rightarrow> string option \<Rightarrow> request_user option \<Rightarrow> string option \<Rightarrow> http_reply gw" where
  "ProductsProxyController_findAll io page limit user corr =
     send (proxyToProducts io (proxy_call ''GET'' (list_path ''/products'' page limit) None user corr))"

definition ProductsProxyController_findById ::
  "gateway_io \<Rightarrow> string \<Rightarrow> request_user option \<Rightarrow> string option \<Rightarrow> http_reply gw" where
  "ProductsProxyController_findById io i user corr =
     send (proxyToProducts io (proxy_call ''GET'' (''/products/'' @ i) None user corr))"

definition ProductsProxyController_create ::
  "gateway_io \<Rightarrow> json option \<Rightarrow> request_user option \<Rightarrow> string option \<Rightarrow> http_reply gw" where
  "ProductsProxyController_create io body user corr =
     send (proxyToProducts io (proxy_call ''POST'' ''/products'' body user corr))"

definition ProductsProxyController_update ::
  "gateway_io \<Rightarrow> string \<Rightarrow> json option \<Rightarrow> request_user option \<Rightarrow> string option \<Rightarrow> http_reply gw" where
  "ProductsProxyController_update io i body user corr =
     send (proxyToProducts io (proxy_call ''PATCH'' (''/products/'' @ i) body user corr))"

definition ProductsProxyController_remove ::
  "gateway_io \<Rightarrow> string \<Rightarrow> request_user option \<Rightarrow> string option \<Rightarrow> http_reply gw" where
  "ProductsProxyController_remove io i user corr =
     tx_bind (proxyToProducts io (proxy_call ''DELETE'' (''/products/'' @ i) None user corr)) (\<lambda>(status, data).
       ret (if status = 204 then \<lparr>hr_status = 204, hr_body = None\<rparr> else \<lparr>hr_status = status, hr_body = Some data\<rparr>))"

definition OrdersProxyController_create ::
  "gateway_io \<Rightarrow> json option \<Rightarrow> request_user option \<Rightarrow> string option \<Rightarrow> http_reply gw" where
  "OrdersProxyController_create io body user corr =
     send (proxyToOrders io (proxy_call ''POST'' ''/orders'' body user corr))"

definition OrdersProxyController_findAll ::
  "gateway_io \<Rightarrow> string option \<Rightarrow> string option \<Rightarrow> request_user option \<Rightarrow> string option \<Rightarrow> http_reply gw" where
  "OrdersProxyController_findAll io page limit user corr =
     send (proxyToOrders io (proxy_call ''GET'' (list_path ''/orders'' page limit) None user corr))"

definition OrdersProxyController_findById ::
  "gateway_io \<Rightarrow> string \<Rightarrow> request_user option \<Rightarrow> string option \<Rightarrow> http_reply gw" where
  "OrdersProxyController_findById io i user corr =
     send (proxyToOrders io (proxy_call ''GET'' (''/orders/'' @ i) None user corr))"

definition PaymentsProxyController_getMyWallet ::
  "gateway_io \<Rightarrow> request_user option \<Rightarrow> string option \<Rightarrow> http_reply gw" where
  "PaymentsProxyController_getMyWallet io user corr =
     with_current user (\<lambda>u. send (proxyToPayments io (proxy_call ''GET'' (''/wallets/'' @ ru_id u) None user corr)))"

definition PaymentsProxyController_getWallet ::
  "gateway_io \<Rightarrow> string \<Rightarrow> request_user option \<Rightarrow> string option \<Rightarrow> http_reply gw" where
  "PaymentsProxyController_getWallet io userId user corr =
     send (proxyToPayments io (proxy_call ''GET'' (''/wallets/'' @ userId) None user corr))"

text \<open>
  The body of a top-up is the one body with a class for the validation pipe of
  \<^verbatim>\<open>main.ts\<close>: an object with the property \<open>amount\<close>, a number of at least 0.01, and
  with no other property.
\<close>

definition TopUpWalletRequestDto_valid :: "json option \<Rightarrow> bool" where
  "TopUpWalletRequestDto_valid body =
     (case body of
        Some (JObj props) \<Rightarrow>
          list_all (\<lambda>(k, _). k = ''amount'') props \<and>
          (case map_of props ''amount'' of Some (JNum n) \<Rightarrow> fl (1 / 100) \<le> n | _ \<Rightarrow> False)
      | _ \<Rightarrow> False)"

definition PaymentsProxyController_topUp ::
  "gateway_io \<Rightarrow> string \<Rightarrow> json option \<Rightarrow> request_user option \<Rightarrow> string option \<Rightarrow> http_reply gw" where
  "PaymentsProxyController_topUp io userId body user corr =
     (if \<not> TopUpWalletRequestDto_valid body then raise (builtin 400 ''Bad Request'' ''Validation failed'')
      else send (proxyToPayments io (proxy_call ''POST'' (''/wallets/'' @ userId @ ''/top-up'') body user corr)))"

subsection \<open>Routes\<close>

datatype route =
    Auth_login | Auth_register | Auth_refresh | Auth_logout
  | Users_findAll | Users_getMe | Users_getUser | Users_updateUser | Users_deleteUser
  | Products_findAll | Products_findById | Products_create | Products_update | Products_remove
  | Orders_create | Orders_findAll | Orders_findById
  | Payments_getMyWallet | Payments_getWallet | Payments_topUp

text \<open>The metadata of the decorators \<^verbatim>\<open>@Public()\<close> and \<^verbatim>\<open>@Roles(Role.ADMIN)\<close>.\<close>

definition isPublic :: "route \<Rightarrow> bool" where
  "isPublic rt \<longleftrightarrow> rt \<in> {Auth_login, Auth_register, Auth_refresh}"

definition requiredRoles :: "route \<Rightarrow> role list" where
  "requiredRoles rt =
     (if rt \<in> {Users_findAll, Users_deleteUser, Products_create, Products_update, Products_remove,
               Payments_getWallet, Payments_topUp}
      then [Role_ADMIN] else [])"

fun route_handler ::
  "gateway_io \<Rightarrow> route \<Rightarrow> gateway_request \<Rightarrow> request_user option \<Rightarrow> string option \<Rightarrow> http_reply gw" where
  "route_handler io Auth_login req user corr = AuthProxyController_login io (gq_body req) corr"
| "route_handler io Auth_register req user corr = AuthProxyController_register io (gq_body req) corr"
| "route_handler io Auth_refresh req user corr = AuthProxyController_refresh io (gq_body req) corr"
| "route_handler io Auth_logout req user corr = AuthProxyController_logout io (gq_authorization req) user corr"
| "route_handler io Users_findAll req user corr = UsersProxyController_findAll io (gq_page req) (gq_limit req) user corr"
| "route_handler io Users_getMe req user corr = UsersProxyController_getMe io user corr"
| "route_handler io Users_getUser req user corr = UsersProxyController_getUser io (gq_id req) user corr"
| "route_handler io Users_updateUser req user corr = UsersProxyController_updateUser io (gq_id req) (gq_body req) user corr"
| "route_handler io Users_deleteUser req user corr = UsersProxyController_deleteUser io (gq_id req) user corr"
| "route_handler io Products_findAll req user corr = ProductsProxyController_findAll io (gq_page req) (gq_limit req) user corr"
| "route_handler io Products_findById req user corr = ProductsProxyController_findById io (gq_id req) user corr"
| "route_handler io Products_create req user corr = ProductsProxyController_create io (gq_body req) user corr"
| "route_handler io Products_update req user corr = ProductsProxyController_update io (gq_id req) (gq_body req) user corr"
| "route_handler io Products_remove req user corr = ProductsProxyController_remove io (gq_id req) user corr"
| "route_handler io Orders_create req user corr = OrdersProxyController_create io (gq_body req) user corr"
| "route_handler io Orders_findAll req user corr = OrdersProxyController_findAll io (gq_page req) (gq_limit req) user corr"
| "route_handler io Orders_findById req user corr = OrdersProxyController_findById io (gq_id req) user corr"
| "route_handler io Payments_getMyWallet req user corr = PaymentsProxyController_getMyWallet io user corr"
| "route_handler io Payments_getWallet req user corr = PaymentsProxyController_getWallet io (gq_id req) user corr"
| "route_handler io Payments_topUp req user corr = PaymentsProxyController_topUp io (gq_id req) (gq_body req) user corr"

subsection \<open>http-exception.filter.ts\<close>

record api_error =
  ae_statusCode :: int
  ae_code :: string
  ae_message :: json
  ae_correlationId :: "string option"
  ae_timestamp :: string

definition toErrorCode :: "int \<Rightarrow> string" where
  "toErrorCode statusCode =
     (case map_of [(400, ''BAD_REQUEST''), (401, ''UNAUTHORIZED''), (403, ''FORBIDDEN''), (404, ''NOT_FOUND''),
        (408, ''REQUEST_TIMEOUT''), (409, ''CONFLICT''), (422, ''UNPROCESSABLE_ENTITY''), (429, ''TOO_MANY_REQUESTS''),
        (500, ''INTERNAL_ERROR''), (502, ''BAD_GATEWAY''), (503, ''SERVICE_UNAVAILABLE'')] statusCode of
        Some c \<Rightarrow> c | None \<Rightarrow> ''UNKNOWN_ERROR'')"

text \<open>
  The message of the response: the response itself if it is a string, its property \<open>message\<close>
  if there is one (an array is joined), else the message of the exception, which for a response
  without one is the name of the class.
\<close>

definition extractMessage :: "env \<Rightarrow> json \<Rightarrow> json" where
  "extractMessage env response =
     (case response of
        JStr s \<Rightarrow> JStr s
      | JObj props \<Rightarrow>
          (case map_of (rev props) ''message'' of
             Some (JArr xs) \<Rightarrow> JStr (js_join ''; '' (map (js_element env) xs))
           | Some m \<Rightarrow> m
           | None \<Rightarrow> JStr ''Http Exception'')
      | _ \<Rightarrow> JStr ''Http Exception'')"

definition HttpExceptionFilter_catch :: "env \<Rightarrow> string option \<Rightarrow> gw_exception \<Rightarrow> api_error" where
  "HttpExceptionFilter_catch env corr e =
     (let statusCode = (case e of HttpException _ s \<Rightarrow> s | OtherError _ \<Rightarrow> 500);
          message = (case e of HttpException r _ \<Rightarrow> extractMessage env r | OtherError _ \<Rightarrow> JStr ''Internal server error'')
      in \<lparr>ae_statusCode = statusCode, ae_code = toErrorCode statusCode, ae_message = message,
          ae_correlationId = corr, ae_timestamp = e_iso env (e_now env)\<rparr>)"

subsection \<open>The interceptors and the whole request\<close>

definition CorrelationIdInterceptor :: "env \<Rightarrow> gateway_request \<Rightarrow> gateway \<Rightarrow> string \<times> gateway" where
  "CorrelationIdInterceptor env req st =
     (case gq_correlation req of
        Some c \<Rightarrow> (c, st)
      | None \<Rightarrow> (e_uuid env (gw_seq st), st\<lparr>gw_seq := Suc (gw_seq st)\<rparr>))"

text \<open>A handler that is late has still done what it did.\<close>

definition TimeoutInterceptor :: "bool \<Rightarrow> 'a gw \<Rightarrow> 'a gw" where
  "TimeoutInterceptor late m st =
     (if late then (Inl (builtin 408 ''Request Timeout'' ''Upstream service timed out''), snd (m st)) else m st)"

text \<open>
  \<open>Inl\<close> is the answer of the filter; \<open>Inr\<close> is the answer of the handler with the
  correlation header the interceptor adds to it. What a guard refuses has not passed the
  interceptors, so its answer has no correlation id.
\<close>

definition gateway_handle ::
  "gateway_io \<Rightarrow> env \<Rightarrow> route \<Rightarrow> gateway_request \<Rightarrow> gateway \<Rightarrow> (api_error + http_reply \<times> string) \<times> gateway" where
  "gateway_handle io env rt req st =
     (case JwtAuthGuard_canActivate io env (isPublic rt) req st of
        (Inl e, st1) \<Rightarrow> (Inl (HttpExceptionFilter_catch env None e), st1)
      | (Inr user, st1) \<Rightarrow>
          (case RolesGuard_canActivate (requiredRoles rt) user of
             Inl e \<Rightarrow> (Inl (HttpExceptionFilter_catch env None e), st1)
           | Inr _ \<Rightarrow>
               (case CorrelationIdInterceptor env req st1 of (corr, st2) \<Rightarrow>
                  (case TimeoutInterceptor (gi_late io) (route_handler io rt req user (Some corr)) st2 of
                     (Inl e, st3) \<Rightarrow> (Inl (HttpExceptionFilter_catch env (Some corr) e), st3)
                   | (Inr r, st3) \<Rightarrow> (Inr (r, corr), st3)))))"

end
