(* ===== verification/GatewaySafety.thy ===== *)
theory GatewaySafety
  imports Gateway Products Payments
begin

section \<open>What the gateway lets through\<close>

text \<open>
  The gateway as a machine: every step handles one request, with any token, any behaviour of the
  services and of Redis. The lemmas show that a request reaches a service only under the identity
  of the token it came with and with the roles the route asks for, that the services accept what
  the gateway forwards, that a list query arrives with its parameters, and which answer every
  failure gets.

  \<open>issued\<close> are the payloads passport may return: those of the tokens the auth-service signed.
  The cache is keyed by subject and second of issue, so the identity it returns is that of the
  token only if two tokens of one user of the same second do not differ in address or roles
  (\<open>issued_ok\<close>).
\<close>

subsection \<open>The machine\<close>

definition issued_ok :: "(verified_payload \<Rightarrow> bool) \<Rightarrow> bool" where
  "issued_ok issued \<longleftrightarrow>
     (\<forall>p q. issued p \<longrightarrow> issued q \<longrightarrow> jp_sub p = jp_sub q \<longrightarrow> vp_iat p = vp_iat q \<longrightarrow> payload_user p = payload_user q)"

definition bearer_ok :: "(verified_payload \<Rightarrow> bool) \<Rightarrow> gateway_io \<Rightarrow> bool" where
  "bearer_ok issued io \<longleftrightarrow> (\<forall>h p. gi_bearer io h = Some p \<longrightarrow> issued p)"

inductive gateway_step :: "(verified_payload \<Rightarrow> bool) \<Rightarrow> gateway \<Rightarrow> gateway \<Rightarrow> bool" for issued where
  request: "bearer_ok issued io \<Longrightarrow> gateway_handle io env rt req st = (r, st') \<Longrightarrow> gateway_step issued st st'"

definition gateway_initial :: "gateway \<Rightarrow> bool" where
  "gateway_initial st \<longleftrightarrow> gw_cache st = [] \<and> gw_sent st = []"

definition cache_sound :: "(verified_payload \<Rightarrow> bool) \<Rightarrow> gateway \<Rightarrow> bool" where
  "cache_sound issued st \<longleftrightarrow>
     (\<forall>(k, u, x) \<in> set (gw_cache st). \<exists>p. issued p \<and> k = jwt_key p \<and> u = payload_user p)"

subsection \<open>Cache keys\<close>

lemma append_last_char:
  assumes "c \<notin> set ys" "c \<notin> set ys'"
  shows "xs @ c # ys = xs' @ c # ys' \<longleftrightarrow> xs = xs' \<and> ys = ys'"
proof
  assume eq: "xs @ c # ys = xs' @ c # ys'"
  have split: "takeWhile (\<lambda>x. x \<noteq> c) (rev (as @ c # bs)) = rev bs" "dropWhile (\<lambda>x. x \<noteq> c) (rev (as @ c # bs)) = c # rev as"
    if "c \<notin> set bs" for as bs
    using that by (auto simp: takeWhile_append dropWhile_append)
  from split [OF assms(1), of xs] split [OF assms(2), of xs'] show "xs = xs' \<and> ys = ys'" unfolding eq by simp
qed simp

lemma decimal_digits_range: "c \<in> set (decimal_digits n) \<Longrightarrow> 48 \<le> (of_char c :: nat) \<and> (of_char c :: nat) < 58"
proof (induction n rule: decimal_digits.induct)
  case (1 n)
  show ?case
  proof (cases "n < 10")
    case True
    with 1 show ?thesis by (simp add: decimal_digits.simps [of n] of_char_digit del: of_char_of)
  next
    case False
    have "(of_char (char_of (48 + n mod 10) :: char) :: nat) = 48 + n mod 10" by (rule of_char_digit) simp
    with 1 False show ?thesis by (auto simp: decimal_digits.simps [of n] simp del: of_char_of)
  qed
qed

lemma iat_text_inject:
  "(case a of None \<Rightarrow> ''undefined'' | Some n \<Rightarrow> decimal_digits n) = (case b of None \<Rightarrow> ''undefined'' | Some n \<Rightarrow> decimal_digits n)
     \<longleftrightarrow> a = b"
proof -
  have "decimal_digits n \<noteq> ''undefined''" for n
    using decimal_digits_range [of "CHR ''u''" n] by auto
  moreover have "decimal_digits m = decimal_digits n \<longleftrightarrow> m = n" for m n by (metis read_decimal_digits)
  ultimately show ?thesis by (cases a; cases b) (auto dest: sym)
qed

lemma jwt_key_inject: "jwt_key p = jwt_key q \<longleftrightarrow> jp_sub p = jp_sub q \<and> vp_iat p = vp_iat q"
proof -
  have "CHR '':'' \<notin> set (case a of None \<Rightarrow> ''undefined'' | Some n \<Rightarrow> decimal_digits n)" for a
    using decimal_digits_range [of "CHR '':''"] by (cases a) force+
  then show ?thesis by (simp add: jwt_key_def append_last_char iat_text_inject)
qed

subsection \<open>The guard and the cache\<close>

lemma validate_user:
  assumes "cache_sound issued st" "issued_ok issued" "issued p"
  shows "fst (JwtStrategy_validate io env p st) = payload_user p"
proof (cases "gi_reads io \<and> cached_user env (jwt_key p) st \<noteq> None")
  case True
  then obtain k u x where hit: "List.find (\<lambda>(k, _, expiry). k = jwt_key p \<and> e_now env < expiry) (gw_cache st) = Some (k, u, x)"
    "cached_user env (jwt_key p) st = Some u"
    by (auto simp: cached_user_def)
  then have "(k, u, x) \<in> set (gw_cache st)" "k = jwt_key p" using find_SomeD [OF hit(1)] by auto
  then obtain q where "issued q" "jwt_key p = jwt_key q" "u = payload_user q"
    using assms(1) by (auto simp: cache_sound_def)
  then have "u = payload_user p" using assms(2,3) unfolding issued_ok_def jwt_key_inject by metis
  with True hit show ?thesis by (simp add: JwtStrategy_validate_def)
qed (auto simp: JwtStrategy_validate_def Let_def)

lemma cache_drop_sound: "cache_sound issued st \<Longrightarrow> cache_sound issued (cache_drop k st)"
  by (auto simp: cache_sound_def cache_drop_def)

lemma validate_keeps:
  assumes "cache_sound issued st" "issued p"
  shows "cache_sound issued (snd (JwtStrategy_validate io env p st))"
    "gw_sent (snd (JwtStrategy_validate io env p st)) = gw_sent st"
  using assms by (auto simp: JwtStrategy_validate_def Let_def cache_sound_def cache_put_def split: option.splits)

lemma JwtAuthGuard_run:
  assumes "cache_sound issued st" "issued_ok issued" "bearer_ok issued io"
    and "JwtAuthGuard_canActivate io env pub req st = (res, st1)"
  shows "cache_sound issued st1 \<and> gw_sent st1 = gw_sent st \<and>
    res = (if pub then Inr None else case gi_bearer io (gq_authorization req) of
       None \<Rightarrow> Inl (builtin 401 ''Unauthorized'' ''Invalid or missing token'') | Some p \<Rightarrow> Inr (Some (payload_user p)))"
proof (cases "pub \<or> gi_bearer io (gq_authorization req) = None")
  case False
  then obtain p where p: "\<not> pub" "gi_bearer io (gq_authorization req) = Some p" by blast
  then have "issued p" using assms(3) by (auto simp: bearer_ok_def)
  with p assms show ?thesis
    using validate_user [OF assms(1,2), of p io env] validate_keeps [OF assms(1), of p io env]
    by (cases "JwtStrategy_validate io env p st") (auto simp: JwtAuthGuard_canActivate_def handleRequest_def)
qed (use assms in \<open>auto simp: JwtAuthGuard_canActivate_def handleRequest_def\<close>)

subsection \<open>What a handler sends\<close>

text \<open>At most one request, with the headers of the user the guard found.\<close>

definition forwards_for ::
  "gateway_io \<Rightarrow> request_user option \<Rightarrow> string option \<Rightarrow> gateway \<Rightarrow> gateway \<Rightarrow> bool" where
  "forwards_for io user corr st st' \<longleftrightarrow>
     gw_sent st' = gw_sent st \<or>
     (\<exists>sv secret opts. gi_secret io = Some secret \<and> gw_sent st' = gw_sent st @ [(sv, outgoing_of io secret sv opts)] \<and>
        po_headers opts = [] \<and> po_user opts = user \<and> po_correlationId opts = corr)"

lemma proxy_forwards:
  assumes "ProxyService_proxy io sv opts st = (r, st')" "po_headers opts = []"
  shows "forwards_for io (po_user opts) (po_correlationId opts) st st' \<and> gw_cache st' = gw_cache st"
  using assms by (auto simp: ProxyService_proxy_def forwards_for_def Let_def split: option.splits)

lemma send_forwards:
  assumes "send (ProxyService_proxy io sv (proxy_call m p b user corr)) st = (r, st')"
  shows "forwards_for io user corr st st' \<and> gw_cache st' = gw_cache st"
  using assms proxy_forwards [of io sv "proxy_call m p b user corr"]
  by (auto simp: send_def tx_bind_def ret_def proxy_call_def split: prod.splits sum.splits)

lemmas proxy_defs = proxyToAuth_def proxyToUsers_def proxyToProducts_def proxyToOrders_def proxyToPayments_def

lemmas controller_defs =
  AuthProxyController_login_def AuthProxyController_register_def AuthProxyController_refresh_def
  UsersProxyController_findAll_def UsersProxyController_getMe_def UsersProxyController_getUser_def
  UsersProxyController_updateUser_def UsersProxyController_deleteUser_def
  ProductsProxyController_findAll_def ProductsProxyController_findById_def ProductsProxyController_create_def
  ProductsProxyController_update_def
  OrdersProxyController_create_def OrdersProxyController_findAll_def OrdersProxyController_findById_def
  PaymentsProxyController_getMyWallet_def PaymentsProxyController_getWallet_def PaymentsProxyController_topUp_def

lemma forwards_refl: "forwards_for io user corr st st"
  by (simp add: forwards_for_def)

lemma logout_drop_keeps: "gw_sent (logout_drop io h st) = gw_sent st"
  "cache_sound issued st \<Longrightarrow> cache_sound issued (logout_drop io h st)"
  by (auto simp: logout_drop_def Let_def cache_drop_def [of _ st] split: option.splits)
    (auto intro: cache_drop_sound simp flip: cache_drop_def)

lemma logout_forwards:
  assumes "AuthProxyController_logout io h user corr st = (r, st')" "cache_sound issued st"
  shows "forwards_for io user corr st st' \<and> cache_sound issued st'"
proof -
  let ?call = "ProxyService_proxy io AuthServiceName (proxy_call ''POST'' ''/auth/logout'' None user corr)"
  obtain r1 st1 where run: "?call st = (r1, st1)" by fastforce
  have "st' = st1 \<or> st' = logout_drop io h st1"
    using assms(1) run by (auto simp: AuthProxyController_logout_def proxy_defs tx_bind_def modify_def ret_def split: sum.splits prod.splits)
  moreover have "forwards_for io user corr st st1 \<and> gw_cache st1 = gw_cache st"
    using proxy_forwards [OF run] by (simp add: proxy_call_def)
  ultimately show ?thesis
    using assms(2) logout_drop_keeps(2) [of issued st1 io h]
    by (auto simp: forwards_for_def logout_drop_keeps(1) cache_sound_def)
qed

lemma remove_forwards:
  assumes "ProductsProxyController_remove io i user corr st = (r, st')"
  shows "forwards_for io user corr st st' \<and> gw_cache st' = gw_cache st"
  using assms proxy_forwards [of io ProductServiceName "proxy_call ''DELETE'' (''/products/'' @ i) None user corr" st]
  by (auto simp: ProductsProxyController_remove_def proxy_defs tx_bind_def ret_def proxy_call_def split: prod.splits sum.splits)

lemma handler_forwards:
  assumes "route_handler io rt req user corr st = (r, st')" "cache_sound issued st"
  shows "forwards_for io (if isPublic rt then None else user) corr st st' \<and> cache_sound issued st'"
proof -
  have same: "cache_sound issued st'" if "gw_cache st' = gw_cache st" using that assms(2) by (simp add: cache_sound_def)
  show ?thesis
  proof (cases "rt = Auth_logout \<or> rt = Products_remove")
    case True
    with assms same remove_forwards [of io "gq_id req" user corr st r st'] logout_forwards [of io "gq_authorization req" user corr st r st' issued]
    show ?thesis by (auto simp: isPublic_def)
  next
    case False
    then have "forwards_for io (if isPublic rt then None else user) corr st st' \<and> gw_cache st' = gw_cache st"
      using assms(1)
      by (cases rt; cases user)
        (auto simp: controller_defs proxy_defs isPublic_def with_current_def raise_def forwards_refl dest!: send_forwards
          split: if_splits)
    with same show ?thesis by blast
  qed
qed

lemma forwarded_headers:
  assumes "po_headers opts = []"
  shows "og_headers (outgoing_of io secret sv opts) (HEADERS INTERNAL_SECRET) = Some secret"
    "og_headers (outgoing_of io secret sv opts) (HEADERS USER_ID) = map_option ru_id (po_user opts)"
    "og_headers (outgoing_of io secret sv opts) (HEADERS USER_EMAIL) = map_option ru_email (po_user opts)"
    "og_headers (outgoing_of io secret sv opts) (HEADERS USER_ROLES) =
      map_option (\<lambda>u. js_join '','' (map role_value (ru_roles u))) (po_user opts)"
  using assms by (auto simp: outgoing_of_def spread_def proxyHeaders_def split: option.splits)

subsection \<open>The invariant\<close>

lemma gateway_keeps:
  assumes "cache_sound issued st" "bearer_ok issued io" "gateway_handle io env rt req st = (r, st')"
  shows "cache_sound issued st'"
proof -
  obtain g st1 where g: "JwtAuthGuard_canActivate io env (isPublic rt) req st = (g, st1)" by fastforce
  have "cache_sound issued st1"
    using g assms(1,2) validate_keeps(1) [OF assms(1)]
    by (auto simp: JwtAuthGuard_canActivate_def handleRequest_def bearer_ok_def split: if_splits option.splits prod.splits)
       (metis snd_conv)
  moreover have "cache_sound issued (snd (CorrelationIdInterceptor env req st1))" if "cache_sound issued st1"
    using that by (auto simp: CorrelationIdInterceptor_def cache_sound_def split: option.splits)
  moreover have "cache_sound issued (snd (TimeoutInterceptor late (route_handler io rt req user corr) st2))"
    if "cache_sound issued st2" for late user corr st2
    using that handler_forwards [of io rt req user corr st2 _ _ issued]
    by (cases "route_handler io rt req user corr st2") (auto simp: TimeoutInterceptor_def)
  ultimately show ?thesis
    using assms(3) g by (auto simp: gateway_handle_def split: sum.splits prod.splits) (metis snd_conv)+
qed

lemma gateway_initial_sound: "gateway_initial st \<Longrightarrow> cache_sound issued st"
  by (simp add: gateway_initial_def cache_sound_def)

interpretation gateway_machine: transition_system "gateway_step issued" gateway_initial "cache_sound issued" for issued
  by unfold_locales (auto simp: gateway_initial_sound elim!: gateway_step.cases intro: gateway_keeps)

subsection \<open>Identity\<close>

lemma gateway_run:
  assumes "cache_sound issued st" "issued_ok issued" "bearer_ok issued io" "gateway_handle io env rt req st = (r, st')"
  obtains (unauthenticated) "\<not> isPublic rt" "gi_bearer io (gq_authorization req) = None" "gw_sent st' = gw_sent st"
      "r = Inl (HttpExceptionFilter_catch env None (builtin 401 ''Unauthorized'' ''Invalid or missing token''))"
  | (forbidden) user e where "isPublic rt \<or> gi_bearer io (gq_authorization req) \<noteq> None" "user = (if isPublic rt then None else map_option payload_user (gi_bearer io (gq_authorization req)))"
      "RolesGuard_canActivate (requiredRoles rt) user = Inl e" "gw_sent st' = gw_sent st"
      "r = Inl (HttpExceptionFilter_catch env None e)"
  | (passed) user corr and st1 st2 :: gateway where "isPublic rt \<or> gi_bearer io (gq_authorization req) \<noteq> None"
      "user = (if isPublic rt then None else map_option payload_user (gi_bearer io (gq_authorization req)))"
      "RolesGuard_canActivate (requiredRoles rt) user = Inr True"
      "gw_sent st2 = gw_sent st" "corr = (case gq_correlation req of Some c \<Rightarrow> c | None \<Rightarrow> e_uuid env (gw_seq st1))"
      "st' = snd (route_handler io rt req user (Some corr) st2)" "forwards_for io user (Some corr) st st'"
      "r = (case fst (TimeoutInterceptor (gi_late io) (route_handler io rt req user (Some corr)) st2) of
         Inl e \<Rightarrow> Inl (HttpExceptionFilter_catch env (Some corr) e) | Inr a \<Rightarrow> Inr (a, corr))"
proof -
  obtain g st1 where g: "JwtAuthGuard_canActivate io env (isPublic rt) req st = (g, st1)" by fastforce
  note guard = JwtAuthGuard_run [OF assms(1-3) g]
  let ?user = "if isPublic rt then None else map_option payload_user (gi_bearer io (gq_authorization req))"
  show thesis
  proof (cases "\<not> isPublic rt \<and> gi_bearer io (gq_authorization req) = None")
    case True
    with guard g assms(4) show thesis by (intro unauthenticated) (auto simp: gateway_handle_def)
  next
    case False
    then have user: "g = Inr ?user" using guard by (auto split: if_splits)
    show thesis
    proof (cases "RolesGuard_canActivate (requiredRoles rt) ?user")
      case (Inl e)
      with user guard g assms(4) False show thesis by (intro forbidden [of ?user e]) (auto simp: gateway_handle_def)
    next
      case (Inr b)
      then have b: "b" by (auto simp: RolesGuard_canActivate_def split: if_splits)
      obtain corr st2 where c: "CorrelationIdInterceptor env req st1 = (corr, st2)" by fastforce
      then have st2: "gw_sent st2 = gw_sent st" "cache_sound issued st2"
        "corr = (case gq_correlation req of Some c \<Rightarrow> c | None \<Rightarrow> e_uuid env (gw_seq st1))"
        using guard by (auto simp: CorrelationIdInterceptor_def cache_sound_def split: option.splits)
      obtain h st3 where h: "route_handler io rt req ?user (Some corr) st2 = (h, st3)" by fastforce
      have "forwards_for io ?user (Some corr) st2 st3"
        using handler_forwards [OF h st2(2)] by (simp split: if_splits)
      moreover have "st' = st3 \<and> r = (case fst (TimeoutInterceptor (gi_late io) (route_handler io rt req ?user (Some corr)) st2) of
         Inl e \<Rightarrow> Inl (HttpExceptionFilter_catch env (Some corr) e) | Inr a \<Rightarrow> Inr (a, corr))"
        using assms(4) g user Inr c h
        by (simp add: gateway_handle_def TimeoutInterceptor_def split: sum.splits prod.splits if_splits)
      ultimately show thesis
        using False Inr b st2 h by (intro passed [of ?user st2 corr st1]) (auto simp: forwards_for_def)
    qed
  qed
qed

lemma requireAdmin_roles:
  "requireAdmin (Some (js_join '','' (map role_value rs))) = Inr () \<longleftrightarrow> Role_ADMIN \<in> set rs"
proof (cases "rs = []")
  case False
  have "js_split CHR '','' (js_join '','' (map role_value rs)) = map role_value rs"
    using False role_value_chars(1) by (intro js_split_join) auto
  then show ?thesis using js_join_roles [OF False] by (auto simp: requireAdmin_def simp del: role_value.simps)
qed (simp add: requireAdmin_def js_join_def)

lemma RolesGuard_iff:
  "RolesGuard_canActivate rs user = Inr True \<longleftrightarrow> rs = [] \<or> (\<exists>u. user = Some u \<and> set rs \<inter> set (ru_roles u) \<noteq> {})"
  by (cases user) (auto simp: RolesGuard_canActivate_def list_ex_iff)

lemma requiredRoles_cases: "requiredRoles rt = [] \<or> requiredRoles rt = [Role_ADMIN] \<and> \<not> isPublic rt"
  by (cases rt) (simp_all add: requiredRoles_def isPublic_def)

lemma forwarded_identity:
  assumes "cache_sound issued st" "issued_ok issued" "bearer_ok issued io"
    and "gateway_handle io env rt req st = (r, st')" "gw_sent st' \<noteq> gw_sent st"
  shows "\<exists>sv out. gw_sent st' = gw_sent st @ [(sv, out)] \<and>
    (gi_secret io \<noteq> Some '''' \<longrightarrow>
       InternalGuard_canActivate ''http'' None (og_headers out (HEADERS INTERNAL_SECRET)) (gi_secret io) = Inr True) \<and>
    (if isPublic rt
     then og_headers out (HEADERS USER_ID) = None \<and> og_headers out (HEADERS USER_ROLES) = None
     else \<exists>p. gi_bearer io (gq_authorization req) = Some p \<and>
       og_headers out (HEADERS USER_ID) = Some (jp_sub p) \<and> og_headers out (HEADERS USER_EMAIL) = Some (jp_email p) \<and>
       parseRoles (og_headers out (HEADERS USER_ROLES)) = jp_roles p \<and>
       (requiredRoles rt \<noteq> [] \<longrightarrow> Role_ADMIN \<in> set (jp_roles p) \<and> requireAdmin (og_headers out (HEADERS USER_ROLES)) = Inr ()))"
  using assms(1-4)
proof (cases rule: gateway_run)
  case (passed user corr st1 st2)
  then obtain sv secret opts where out: "gi_secret io = Some secret" "po_headers opts = []" "po_user opts = user"
    "gw_sent st' = gw_sent st @ [(sv, outgoing_of io secret sv opts)]"
    using assms(5) by (auto simp: forwards_for_def)
  note headers = forwarded_headers [OF out(2), of io secret sv]
  have guard: "InternalGuard_canActivate ''http'' None (Some secret) (Some secret) = Inr True" if "secret \<noteq> ''''"
    using that by (simp add: InternalGuard_canActivate_def)
  show ?thesis
  proof (cases "isPublic rt")
    case True
    then show ?thesis using out guard headers passed(2) by auto
  next
    case False
    then obtain p where p: "gi_bearer io (gq_authorization req) = Some p" "user = Some (payload_user p)"
      using passed(1,2) by auto
    have "requiredRoles rt \<noteq> [] \<longrightarrow> Role_ADMIN \<in> set (jp_roles p)"
      using passed(3) p requiredRoles_cases [of rt] by (auto simp: RolesGuard_iff payload_user_def)
    then show ?thesis
      using False out guard headers p
      by (auto simp: payload_user_def parseRoles_join requireAdmin_roles simp del: HEADERS.simps role_value.simps)
  qed
qed (use assms(5) in auto)

text \<open>
  C37. No request reaches a service under a forged identity. A request the gateway forwards goes
  to one service, once, and has the internal secret, so the guard of the service lets it
  through. On a public route it carries no user at all. On any other route it carries the id,
  the address and the roles of the verified token it came with, whatever headers the client
  sent and whatever the cache answered; and on a route for admins the token has the role, and
  the checks the services make again (\<open>requireAdmin\<close>, \<open>parseRoles\<close>) agree.
\<close>

theorem gateway_identity:
  assumes "gateway_initial st0" "run (gateway_step issued) st0 st" "issued_ok issued" "bearer_ok issued io"
    and "gateway_handle io env rt req st = (r, st')" "gw_sent st' \<noteq> gw_sent st"
  shows "\<exists>sv out. gw_sent st' = gw_sent st @ [(sv, out)] \<and>
    (gi_secret io \<noteq> Some '''' \<longrightarrow>
       InternalGuard_canActivate ''http'' None (og_headers out (HEADERS INTERNAL_SECRET)) (gi_secret io) = Inr True) \<and>
    (if isPublic rt
     then og_headers out (HEADERS USER_ID) = None \<and> og_headers out (HEADERS USER_ROLES) = None
     else \<exists>p. gi_bearer io (gq_authorization req) = Some p \<and>
       og_headers out (HEADERS USER_ID) = Some (jp_sub p) \<and> og_headers out (HEADERS USER_EMAIL) = Some (jp_email p) \<and>
       parseRoles (og_headers out (HEADERS USER_ROLES)) = jp_roles p \<and>
       (requiredRoles rt \<noteq> [] \<longrightarrow> Role_ADMIN \<in> set (jp_roles p) \<and> requireAdmin (og_headers out (HEADERS USER_ROLES)) = Inr ()))"
  using gateway_machine.reachable_inv [OF assms(1,2)] assms(3-6) by (rule forwarded_identity)

text \<open>
  C38. What the guards refuse goes nowhere: without a valid token a route that is not public
  answers 401, and without one of the required roles 403; neither answer has a correlation id,
  and no service sees the request.
\<close>

theorem gateway_refuses:
  assumes "gateway_initial st0" "run (gateway_step issued) st0 st" "issued_ok issued" "bearer_ok issued io"
    and "gateway_handle io env rt req st = (r, st')" "\<not> isPublic rt"
  shows "(gi_bearer io (gq_authorization req) = None \<longrightarrow> gw_sent st' = gw_sent st \<and>
      r = Inl \<lparr>ae_statusCode = 401, ae_code = ''UNAUTHORIZED'', ae_message = JStr ''Invalid or missing token'',
        ae_correlationId = None, ae_timestamp = e_iso env (e_now env)\<rparr>) \<and>
    (\<forall>p. gi_bearer io (gq_authorization req) = Some p \<longrightarrow> requiredRoles rt \<noteq> [] \<longrightarrow> Role_ADMIN \<notin> set (jp_roles p) \<longrightarrow>
      gw_sent st' = gw_sent st \<and>
      r = Inl \<lparr>ae_statusCode = 403, ae_code = ''FORBIDDEN'', ae_message = JStr ''Access denied. Required roles: admin'',
        ae_correlationId = None, ae_timestamp = e_iso env (e_now env)\<rparr>)"
proof -
  have answer: "HttpExceptionFilter_catch env None (builtin s d m) =
      \<lparr>ae_statusCode = s, ae_code = toErrorCode s, ae_message = JStr m, ae_correlationId = None, ae_timestamp = e_iso env (e_now env)\<rparr>"
    for s d m by (simp add: HttpExceptionFilter_catch_def builtin_def extractMessage_def)
  have codes: "toErrorCode 401 = ''UNAUTHORIZED''" "toErrorCode 403 = ''FORBIDDEN''" by (simp_all add: toErrorCode_def)
  have "cache_sound issued st" using gateway_machine.reachable_inv [OF assms(1,2)] .
  from this assms(3,4,5) show ?thesis
  proof (cases rule: gateway_run)
    case unauthenticated
    then show ?thesis by (simp add: answer codes)
  next
    case (forbidden user e)
    then obtain p where p: "gi_bearer io (gq_authorization req) = Some p" "requiredRoles rt = [Role_ADMIN]"
      using assms(6) requiredRoles_cases [of rt] by (auto simp: RolesGuard_canActivate_def split: if_splits)
    then show ?thesis using forbidden
      by (auto simp: RolesGuard_canActivate_def js_join_def answer codes split: if_splits)
  next
    case (passed user corr st1 st2)
    then show ?thesis using assms(6) requiredRoles_cases [of rt] by (auto simp: RolesGuard_iff payload_user_def)
  qed
qed

subsection \<open>A sample gateway\<close>

definition sample_payload :: verified_payload where
  "sample_payload = \<lparr>jp_sub = ''u1'', jp_email = ''u@x'', jp_roles = [Role_USER, Role_ADMIN], jp_jti = ''j'',
     vp_iat = Some 100, vp_exp = Some 4600\<rparr>"

definition sample_io :: "fire_outcome \<Rightarrow> gateway_io" where
  "sample_io answer = \<lparr>gi_secret = Some ''s3cret'', gi_url = (\<lambda>_. ''http://svc''), gi_fire = (\<lambda>_ _. answer),
     gi_bearer = (\<lambda>h. if h = Some ''Bearer t'' then Some sample_payload else None),
     gi_decode = (\<lambda>_. Some sample_payload), gi_reads = True, gi_writes = True, gi_deletes = True, gi_late = False\<rparr>"

definition sample_request :: gateway_request where
  "sample_request = \<lparr>gq_correlation = Some ''c1'', gq_authorization = Some ''Bearer t'',
     gq_body = Some (JObj [(''amount'', JNum 5)]), gq_page = Some ''2'', gq_limit = None, gq_id = ''u2''\<rparr>"

definition ok_response :: fire_outcome where
  "ok_response = Responded \<lparr>fr_status = 201, fr_statusText = ''Created'', fr_contentLength = None, fr_json = Some (JObj [])\<rparr>"

definition empty_gateway :: gateway where
  "empty_gateway = \<lparr>gw_cache = [], gw_sent = [], gw_seq = 0\<rparr>"

lemma sample_gateway:
  "gateway_initial empty_gateway" "run (gateway_step ((=) sample_payload)) empty_gateway empty_gateway"
  "issued_ok ((=) sample_payload)" "bearer_ok ((=) sample_payload) (sample_io a)"
  by (auto simp: gateway_initial_def empty_gateway_def issued_ok_def bearer_ok_def sample_io_def intro: run_refl)

theorem gateway_identity_witness:
  "\<exists>sv out. gw_sent (snd (gateway_handle (sample_io ok_response) sample_env Payments_topUp sample_request empty_gateway)) = [(sv, out)] \<and>
     og_headers out (HEADERS USER_ID) = Some ''u1'' \<and> requireAdmin (og_headers out (HEADERS USER_ROLES)) = Inr ()"
proof -
  let ?h = "gateway_handle (sample_io ok_response) sample_env Payments_topUp sample_request empty_gateway"
  have "length (gw_sent (snd ?h)) = 1" by code_simp
  then have sent: "gw_sent (snd ?h) \<noteq> gw_sent empty_gateway" by (auto simp: empty_gateway_def)
  have facts: "\<not> isPublic Payments_topUp" "requiredRoles Payments_topUp \<noteq> []"
    "gi_bearer (sample_io ok_response) (gq_authorization sample_request) = Some sample_payload" "jp_sub sample_payload = ''u1''"
    "gw_sent empty_gateway = []"
    by (simp_all add: isPublic_def requiredRoles_def sample_io_def sample_request_def sample_payload_def empty_gateway_def)
  show ?thesis
    using gateway_identity [OF sample_gateway, of ok_response sample_env Payments_topUp sample_request "fst ?h" "snd ?h"] sent facts
    by (auto simp del: HEADERS.simps)
qed

theorem gateway_refuses_witness:
  "gw_sent (snd (gateway_handle (sample_io ok_response) sample_env Orders_create (sample_request\<lparr>gq_authorization := None\<rparr>) empty_gateway)) = [] \<and>
   fst (gateway_handle (sample_io ok_response) sample_env Orders_create (sample_request\<lparr>gq_authorization := None\<rparr>) empty_gateway) =
     Inl \<lparr>ae_statusCode = 401, ae_code = ''UNAUTHORIZED'', ae_message = JStr ''Invalid or missing token'',
       ae_correlationId = None, ae_timestamp = e_iso sample_env (e_now sample_env)\<rparr>"
proof -
  let ?req = "sample_request\<lparr>gq_authorization := None\<rparr>"
  let ?h = "gateway_handle (sample_io ok_response) sample_env Orders_create ?req empty_gateway"
  have "\<not> isPublic Orders_create" "gi_bearer (sample_io ok_response) (gq_authorization ?req) = None" "gw_sent empty_gateway = []"
    by (simp_all add: isPublic_def sample_io_def empty_gateway_def)
  then show ?thesis
    using gateway_refuses [OF sample_gateway, of ok_response sample_env Orders_create ?req "fst ?h" "snd ?h"] by simp
qed

subsection \<open>The answers\<close>

text \<open>The answer of a handler to the outcome of its call; a removal without content has no body.\<close>

definition relays :: "route \<Rightarrow> service_name \<Rightarrow> fire_outcome \<Rightarrow> gw_exception + http_reply \<Rightarrow> bool" where
  "relays rt sv outcome res \<longleftrightarrow>
     (case proxy_response sv outcome of
        Inl e \<Rightarrow> res = Inl e
      | Inr (s, d) \<Rightarrow> res = Inr \<lparr>hr_status = s, hr_body = (if rt = Products_remove \<and> s = 204 then None else Some d)\<rparr>)"

lemma proxy_relays:
  assumes "ProxyService_proxy io sv opts st = (r, st')" "gw_sent st' = gw_sent st @ [(sv', out)]"
  shows "sv' = sv \<and> r = proxy_response sv (gi_fire io sv out)"
  using assms by (auto simp: ProxyService_proxy_def Let_def split: option.splits)

lemma send_relays:
  assumes "send (ProxyService_proxy io sv opts) st = (res, st')" "gw_sent st' = gw_sent st @ [(sv', out)]"
  shows "rt \<noteq> Products_remove \<Longrightarrow> relays rt sv' (gi_fire io sv' out) res"
  using assms proxy_relays [of io sv opts st _ st' sv' out]
  by (fastforce simp: send_def tx_bind_def ret_def relays_def split: prod.splits sum.splits)

lemma logout_relays:
  assumes "AuthProxyController_logout io h user corr st = (res, st')" "gw_sent st' = gw_sent st @ [(sv', out)]"
  shows "relays Auth_logout sv' (gi_fire io sv' out) res"
proof -
  let ?call = "ProxyService_proxy io AuthServiceName (proxy_call ''POST'' ''/auth/logout'' None user corr)"
  obtain r1 st1 where run: "?call st = (r1, st1)" by fastforce
  have res: "(\<exists>e. r1 = Inl e \<and> res = Inl e \<and> st' = st1) \<or>
      (\<exists>s d. r1 = Inr (s, d) \<and> res = Inr \<lparr>hr_status = s, hr_body = Some d\<rparr> \<and> st' = logout_drop io h st1)"
    using assms(1) run
    by (auto simp: AuthProxyController_logout_def proxy_defs tx_bind_def modify_def ret_def split: sum.splits prod.splits)
  then have "gw_sent st1 = gw_sent st @ [(sv', out)]" using assms(2) by (auto simp: logout_drop_keeps(1))
  from proxy_relays [OF run this] res show ?thesis by (auto simp: relays_def)
qed

lemma remove_relays:
  assumes "ProductsProxyController_remove io i user corr st = (res, st')" "gw_sent st' = gw_sent st @ [(sv', out)]"
  shows "relays Products_remove sv' (gi_fire io sv' out) res"
  using assms proxy_relays [of io ProductServiceName "proxy_call ''DELETE'' (''/products/'' @ i) None user corr" st _ st' sv' out]
  by (fastforce simp: ProductsProxyController_remove_def proxy_defs tx_bind_def ret_def relays_def split: prod.splits sum.splits if_splits)

lemma handler_relays:
  assumes "route_handler io rt req user corr st = (res, st')" "gw_sent st' = gw_sent st @ [(sv, out)]"
  shows "relays rt sv (gi_fire io sv out) res"
proof (cases "rt = Auth_logout \<or> rt = Products_remove")
  case True
  with assms show ?thesis using logout_relays remove_relays by auto
next
  case False
  have "st' \<noteq> st" using assms(2) by auto
  with assms False show ?thesis
    by (cases rt; cases user)
      (auto simp: controller_defs proxy_defs with_current_def raise_def dest: send_relays split: if_splits)
qed

text \<open>
  C39. Every outcome of a forwarded request has its answer: what the service answered with
  success is passed on with its status and the very body it sent (null if it sent none, nothing for a
  removal answered with 204); an error of the service keeps its status and its message; an
  answer that is not JSON is 502; a service that is down, too slow, or cut off by the circuit
  breaker is 503; and if the gateway's own time is up first, the answer is 408 whatever the service says.
  The answer carries the correlation id of the request.
\<close>

theorem gateway_answers:
  assumes "gateway_initial st0" "run (gateway_step issued) st0 st" "issued_ok issued" "bearer_ok issued io"
    and "gateway_handle io env rt req st = (r, st')" "gw_sent st' = gw_sent st @ [(sv, out)]" "gq_correlation req = Some c"
  shows "if gi_late io
    then \<exists>e. r = Inl e \<and> ae_statusCode e = 408 \<and> ae_code e = ''REQUEST_TIMEOUT'' \<and> ae_correlationId e = Some c
    else case gi_fire io sv out of
      Threw code msg \<Rightarrow> (\<exists>e. r = Inl e \<and> ae_statusCode e = 503 \<and> ae_code e = ''SERVICE_UNAVAILABLE'' \<and> ae_correlationId e = Some c)
    | Responded f \<Rightarrow>
        (case (if fr_status f \<noteq> 204 \<and> fr_contentLength f \<noteq> Some ''0'' then fr_json f else Some JNull) of
           None \<Rightarrow> (\<exists>e. r = Inl e \<and> ae_statusCode e = 502 \<and> ae_code e = ''BAD_GATEWAY'' \<and> ae_correlationId e = Some c)
         | Some body \<Rightarrow>
             if 400 \<le> fr_status f
             then \<exists>e. r = Inl e \<and> ae_statusCode e = fr_status f \<and> ae_code e = toErrorCode (fr_status f) \<and>
               ae_message e = extractMessage env (if body = JNull then JStr (fr_statusText f) else body) \<and> ae_correlationId e = Some c
             else r = Inr (\<lparr>hr_status = fr_status f,
               hr_body = (if rt = Products_remove \<and> fr_status f = 204 then None else Some body)\<rparr>, c))"
proof -
  have "cache_sound issued st" using gateway_machine.reachable_inv [OF assms(1,2)] .
  from this assms(3,4,5) show ?thesis
  proof (cases rule: gateway_run)
    case (passed user corr st1 st2)
    obtain res where run: "route_handler io rt req user (Some corr) st2 = (res, st')"
      using passed(6) by (metis prod.collapse)
    have relays: "relays rt sv (gi_fire io sv out) res" using handler_relays [OF run] assms(6) passed(4) by simp
    have corr: "corr = c" using passed(5) assms(7) by simp
    have r: "r = (if gi_late io then Inl (HttpExceptionFilter_catch env (Some c) (builtin 408 ''Request Timeout'' ''Upstream service timed out''))
        else case res of Inl e \<Rightarrow> Inl (HttpExceptionFilter_catch env (Some c) e) | Inr a \<Rightarrow> Inr (a, c))"
      using passed(8) run unfolding corr by (simp add: TimeoutInterceptor_def)
    have codes: "toErrorCode 503 = ''SERVICE_UNAVAILABLE''" "toErrorCode 502 = ''BAD_GATEWAY''" "toErrorCode 408 = ''REQUEST_TIMEOUT''"
      by (simp_all add: toErrorCode_def)
    show ?thesis
    proof (cases "gi_late io")
      case True
      then show ?thesis using r codes by (simp add: HttpExceptionFilter_catch_def builtin_def Let_def)
    next
      case False
      then show ?thesis using r codes relays
        by (cases "gi_fire io sv out")
          (auto simp: relays_def HttpExceptionFilter_catch_def builtin_def Let_def split: if_splits option.splits)
    qed
  qed (use assms(6) in auto)
qed

text \<open>A page of orders comes through; with the breaker open the answer is 503, and after the time limit 408.\<close>

definition page_response :: fire_outcome where
  "page_response = Responded \<lparr>fr_status = 200, fr_statusText = ''OK'', fr_contentLength = None,
     fr_json = Some (JObj [(''data'', JArr [JStr ''o1'']), (''total'', JNum 1)])\<rparr>"

theorem gateway_answers_witness:
  "fst (gateway_handle (sample_io page_response) sample_env Orders_findAll sample_request empty_gateway) =
     Inr (\<lparr>hr_status = 200, hr_body = Some (JObj [(''data'', JArr [JStr ''o1'']), (''total'', JNum 1)])\<rparr>, ''c1'') \<and>
   (\<exists>e. fst (gateway_handle (sample_io (Threw (Some ''EOPENBREAKER'') None)) sample_env Orders_findAll sample_request empty_gateway) = Inl e \<and>
     ae_statusCode e = 503 \<and> ae_code e = ''SERVICE_UNAVAILABLE'' \<and> ae_correlationId e = Some ''c1'') \<and>
   (\<exists>e. fst (gateway_handle ((sample_io page_response)\<lparr>gi_late := True\<rparr>) sample_env Orders_findAll sample_request empty_gateway) = Inl e \<and>
     ae_statusCode e = 408 \<and> ae_correlationId e = Some ''c1'')"
proof -
  let ?h = "\<lambda>io. gateway_handle io sample_env Orders_findAll sample_request empty_gateway"
  have sent: "\<exists>sv out. gw_sent (snd (?h io)) = gw_sent empty_gateway @ [(sv, out)]" if "length (gw_sent (snd (?h io))) = 1" for io
    using that by (auto simp: length_Suc_conv empty_gateway_def)
  have c: "gq_correlation sample_request = Some ''c1''" by (simp add: sample_request_def)
  have bearer: "bearer_ok ((=) sample_payload) ((sample_io a)\<lparr>gi_late := b\<rparr>)" for a b
    using sample_gateway(4) by (simp add: bearer_ok_def)
  note answers = gateway_answers [OF sample_gateway(1,2,3) _ surjective_pairing _ c]
  have runs: "length (gw_sent (snd (?h ((sample_io page_response)\<lparr>gi_late := False\<rparr>)))) = 1"
    "length (gw_sent (snd (?h ((sample_io (Threw (Some ''EOPENBREAKER'') None))\<lparr>gi_late := False\<rparr>)))) = 1"
    "length (gw_sent (snd (?h ((sample_io page_response)\<lparr>gi_late := True\<rparr>)))) = 1" by code_simp+
  have plain: "(sample_io a)\<lparr>gi_late := False\<rparr> = sample_io a" for a by (simp add: sample_io_def)
  obtain sv out where 1: "gw_sent (snd (?h (sample_io page_response))) = gw_sent empty_gateway @ [(sv, out)]"
    using sent [OF runs(1)] unfolding plain by blast
  obtain sv2 out2 where 2: "gw_sent (snd (?h (sample_io (Threw (Some ''EOPENBREAKER'') None)))) = gw_sent empty_gateway @ [(sv2, out2)]"
    using sent [OF runs(2)] unfolding plain by blast
  obtain sv3 out3 where 3: "gw_sent (snd (?h ((sample_io page_response)\<lparr>gi_late := True\<rparr>))) = gw_sent empty_gateway @ [(sv3, out3)]"
    using sent [OF runs(3)] by blast
  have io: "gi_fire (sample_io a) s x = a" "\<not> gi_late (sample_io a)" for a s x by (simp_all add: sample_io_def)
  note first = answers [OF sample_gateway(4) 1] and second = answers [OF sample_gateway(4) 2] and third = answers [OF bearer 3]
  from first have "fst (?h (sample_io page_response)) =
      Inr (\<lparr>hr_status = 200, hr_body = Some (JObj [(''data'', JArr [JStr ''o1'']), (''total'', JNum 1)])\<rparr>, ''c1'')"
    by (simp add: io page_response_def)
  moreover from second have "\<exists>e. fst (?h (sample_io (Threw (Some ''EOPENBREAKER'') None))) = Inl e \<and>
      ae_statusCode e = 503 \<and> ae_code e = ''SERVICE_UNAVAILABLE'' \<and> ae_correlationId e = Some ''c1''" by (simp add: io)
  moreover from third have "\<exists>e. fst (?h ((sample_io page_response)\<lparr>gi_late := True\<rparr>)) = Inl e \<and>
      ae_statusCode e = 408 \<and> ae_correlationId e = Some ''c1''" by auto
  ultimately show ?thesis by blast
qed

subsection \<open>Queries arrive\<close>

text \<open>How a service reads a URL: up to the question mark, then the pairs of the query.\<close>

definition parse_pair :: "string \<Rightarrow> string \<times> string" where
  "parse_pair kv = (case js_split CHR ''='' kv of k # v # _ \<Rightarrow> (url_decode k, url_decode v) | _ \<Rightarrow> (url_decode kv, ''''))"

definition parse_url :: "string \<Rightarrow> string \<times> (string \<times> string) list" where
  "parse_url url =
     (case js_split CHR ''?'' url of
        base # query # _ \<Rightarrow> (base, map parse_pair (js_split CHR ''&'' query))
      | _ \<Rightarrow> (url, []))"

lemma hex_digit_safe: "n < 16 \<Longrightarrow> url_safe (hex_digit n)"
proof -
  have "list_all (\<lambda>n. url_safe (hex_digit n)) [0..<16]" by code_simp
  then show "n < 16 \<Longrightarrow> ?thesis" by (simp add: list_all_iff)
qed

lemma url_encode_chars: "c \<in> set (url_encode s) \<Longrightarrow> url_safe c \<or> c = CHR ''+'' \<or> c = CHR ''%''"
proof -
  have "(of_char d :: nat) div 16 < 16" for d :: char by (intro div_less_iff_less_mult [THEN iffD2]) simp_all
  then show "c \<in> set (url_encode s) \<Longrightarrow> ?thesis"
    by (auto simp: url_encode_def url_byte_def Let_def hex_digit_safe split: if_splits)
qed

lemma url_encode_free: "CHR ''&'' \<notin> set (url_encode s)" "CHR ''='' \<notin> set (url_encode s)" "CHR ''?'' \<notin> set (url_encode s)"
proof -
  have "\<not> url_safe CHR ''&''" "\<not> url_safe CHR ''=''" "\<not> url_safe CHR ''?''" by code_simp+
  then show "CHR ''&'' \<notin> set (url_encode s)" "CHR ''='' \<notin> set (url_encode s)" "CHR ''?'' \<notin> set (url_encode s)"
    using url_encode_chars by fastforce+
qed

lemma parse_pair_encode: "parse_pair (url_encode k @ ''='' @ url_encode v) = (k, v)"
  using js_split_char [OF url_encode_free(2), of k "url_encode v"] js_split_last [OF url_encode_free(2), of v]
  by (simp add: parse_pair_def url_decode_encode)

lemma parse_list_path:
  assumes "CHR ''?'' \<notin> set base"
  shows "parse_url (list_path base page limit) = (base, given_params page limit)"
proof (cases "given_params page limit = []")
  case True
  then show ?thesis
    using js_split_last [OF assms] by (simp add: list_path_def list_query_def js_join_def parse_url_def)
next
  case False
  let ?f = "\<lambda>(k, v). url_encode k @ ''='' @ url_encode v"
  let ?ws = "map ?f (given_params page limit)"
  have ws: "\<forall>w \<in> set ?ws. CHR ''&'' \<notin> set w" "\<forall>w \<in> set ?ws. CHR ''?'' \<notin> set w" "\<forall>w \<in> set ?ws. w \<noteq> []"
    using url_encode_free by auto
  obtain w rest where cons: "?ws = w # rest" using False by (cases ?ws) auto
  have "set (js_join ''&'' ?ws) \<subseteq> \<Union> (set ` set ?ws) \<union> {CHR ''&''}" unfolding cons by (auto simp: js_join_def)
  then have free: "CHR ''?'' \<notin> set (js_join ''&'' ?ws)" using ws(2) by blast
  have "js_join ''&'' ?ws \<noteq> []" using ws(3) unfolding cons by (simp add: js_join_def)
  moreover have "js_split CHR ''&'' (js_join ''&'' ?ws) = ?ws" using False ws(1) by (intro js_split_join) auto
  moreover have "map parse_pair ?ws = given_params page limit"
    using parse_pair_encode by (simp add: comp_def split_def)
  ultimately show ?thesis
    using js_split_char [OF assms, of "js_join ''&'' ?ws"] js_split_last [OF free]
    by (simp add: list_path_def list_query_def parse_url_def)
qed

text \<open>
  C40. The parameters of a list request arrive as they were given, whatever characters they
  hold: the URL the gateway calls reads back as the collection, the page if one was given and not empty, and
  then the limit if one was given and not empty, and nothing else, for orders, products and users alike.
\<close>

theorem list_query_round_trip:
  assumes "gi_secret io = Some secret" "\<And>sv. CHR ''?'' \<notin> set (gi_url io sv)"
    and "call \<in> {(OrdersProxyController_findAll, OrderServiceName, ''/orders''),
                 (ProductsProxyController_findAll, ProductServiceName, ''/products''),
                 (UsersProxyController_findAll, UserServiceName, ''/users'')}"
    and "call = (findAll, sv, base)"
  shows "\<exists>out. gw_sent (snd (findAll io page limit user corr st)) = gw_sent st @ [(sv, out)] \<and> og_method out = ''GET'' \<and>
    parse_url (og_url out) = (gi_url io sv @ base,
      (case page of Some p \<Rightarrow> if p = '''' then [] else [(''page'', p)] | None \<Rightarrow> []) @
      (case limit of Some l \<Rightarrow> if l = '''' then [] else [(''limit'', l)] | None \<Rightarrow> []))"
proof -
  have "CHR ''?'' \<notin> set (gi_url io sv @ base)" using assms(2-4) by auto
  moreover have "gi_url io sv @ list_path base page limit = list_path (gi_url io sv @ base) page limit"
    by (simp add: list_path_def Let_def)
  moreover have "gw_sent (snd (findAll io page limit user corr st)) =
      gw_sent st @ [(sv, outgoing_of io secret sv (proxy_call ''GET'' (list_path base page limit) None user corr))]"
    using assms(1,3,4)
    by (auto simp: controller_defs proxy_defs send_def tx_bind_def ret_def ProxyService_proxy_def Let_def split: sum.splits)
  ultimately show ?thesis
    using parse_list_path [of "gi_url io sv @ base" page limit]
    by (cases page; cases limit) (simp_all add: outgoing_of_def proxy_call_def given_params_def present_def)
qed

theorem list_query_round_trip_witness:
  "\<exists>out. gw_sent (snd (OrdersProxyController_findAll (sample_io ok_response) (Some ''2 & 3'') (Some ''10'') None None empty_gateway)) =
       [(OrderServiceName, out)] \<and>
     parse_url (og_url out) = (''http://svc/orders'', [(''page'', ''2 & 3''), (''limit'', ''10'')])"
proof -
  have "gi_secret (sample_io ok_response) = Some ''s3cret''" "\<And>sv. CHR ''?'' \<notin> set (gi_url (sample_io ok_response) sv)"
    "gi_url (sample_io ok_response) OrderServiceName = ''http://svc''" "gw_sent empty_gateway = []"
    by (simp_all add: sample_io_def empty_gateway_def)
  then show ?thesis
    using list_query_round_trip [of "sample_io ok_response" "''s3cret''" "(OrdersProxyController_findAll, OrderServiceName, ''/orders'')"
        OrdersProxyController_findAll OrderServiceName "''/orders''" "Some ''2 & 3''" "Some ''10''" None None empty_gateway] by auto
qed

end
