(* ===== verification/Users.thy ===== *)
theory Users
  imports Pagination
begin

section \<open>The user-service\<close>

text \<open>
  \<^verbatim>\<open>services/user-service/src/users\<close>: profiles, their service with its access rules, the
  controller, the validation of updates and the consumer of registrations. The state is the
  table of profiles. The primary key is a \<^verbatim>\<open>uuid\<close> column, so a query with an id of
  another form fails in the database; \<open>is_uuid\<close> is that test. The validator library's
  tests for URLs, dates and country codes are arguments.
\<close>

subsection \<open>Entity, inputs, results\<close>

record profile_entity =
  po_id :: string
  po_email :: string
  po_name :: "string option"
  po_avatarUrl :: "string option"
  po_phone :: "string option"
  po_dateOfBirth :: "string option"
  po_addressLine :: "string option"
  po_city :: "string option"
  po_country :: "string option"
  po_postalCode :: "string option"
  po_isActive :: bool
  po_createdAt :: date
  po_updatedAt :: date

text \<open>\<open>None\<close> is a field that is not given, which an update leaves alone.\<close>

record update_profile_input =
  ui_name :: "string option"
  ui_avatarUrl :: "string option"
  ui_phone :: "string option"
  ui_dateOfBirth :: "string option"
  ui_addressLine :: "string option"
  ui_city :: "string option"
  ui_country :: "string option"
  ui_postalCode :: "string option"

type_synonym profiles = "profile_entity list"

text \<open>\<^verbatim>\<open>ProfileResult\<close> has the fields of the entity; \<open>toResult\<close> copies them.\<close>

type_synonym profile_result = profile_entity

definition profile_toResult :: "profile_entity \<Rightarrow> profile_result" where
  "profile_toResult p =
     \<lparr>po_id = po_id p, po_email = po_email p, po_name = po_name p, po_avatarUrl = po_avatarUrl p,
      po_phone = po_phone p, po_dateOfBirth = po_dateOfBirth p, po_addressLine = po_addressLine p,
      po_city = po_city p, po_country = po_country p, po_postalCode = po_postalCode p,
      po_isActive = po_isActive p, po_createdAt = po_createdAt p, po_updatedAt = po_updatedAt p\<rparr>"

subsection \<open>users.service.ts\<close>

definition uuid_query :: "(string \<Rightarrow> bool) \<Rightarrow> string \<Rightarrow> (profiles, http_exception, unit) tx" where
  "uuid_query is_uuid i =
     (if is_uuid i then ret () else raise (InternalError ''invalid input syntax for type uuid''))"

definition find_profile :: "string \<Rightarrow> profiles \<Rightarrow> profile_entity option" where
  "find_profile i ps = List.find (\<lambda>p. po_id p = i \<and> po_isActive p) ps"

text \<open>
  The query orders by \<^verbatim>\<open>createdAt\<close> only: \<open>scan\<close> is the order in which the database comes upon
  rows of the same instant.
\<close>

definition UsersService_findAll ::
  "(profile_entity list \<Rightarrow> profile_entity list) \<Rightarrow> int \<Rightarrow> int \<Rightarrow> role list \<Rightarrow> (profiles, http_exception, profile_result paginated_result) tx" where
  "UsersService_findAll scan page limit requesterRoles ps =
     (if Role_ADMIN \<notin> set requesterRoles then (Inl (ForbiddenException ''Only admins can list users''), ps)
      else let found' = sort_key (\<lambda>p. - po_createdAt p) (scan (filter po_isActive ps));
               cnt = int (length found')
           in (Inr \<lparr>pr_data = map profile_toResult (take (nat limit) (drop (nat ((page - 1) * limit)) found')),
                 pr_meta = \<lparr>pm_page = page, pm_limit = limit, pm_total = cnt,
                   pm_totalPages = total_pages cnt limit\<rparr>\<rparr>, ps))"

text \<open>The beginning of \<open>findById\<close> and \<open>update\<close>: the profile must exist and be the requester's, or the requester an admin.\<close>

definition accessible ::
  "(string \<Rightarrow> bool) \<Rightarrow> string \<Rightarrow> string option \<Rightarrow> role list \<Rightarrow> (profiles, http_exception, profile_entity) tx" where
  "accessible is_uuid i requesterId requesterRoles =
     tx_bind (uuid_query is_uuid i) (\<lambda>_.
     tx_bind (found (NotFoundException (''User '' @ i @ '' not found'')) (find_profile i)) (\<lambda>profile.
       if requesterId \<noteq> Some i \<and> Role_ADMIN \<notin> set requesterRoles
       then raise (ForbiddenException ''Access denied'')
       else ret profile))"

definition UsersService_findById ::
  "(string \<Rightarrow> bool) \<Rightarrow> string \<Rightarrow> string option \<Rightarrow> role list \<Rightarrow> (profiles, http_exception, profile_result) tx" where
  "UsersService_findById is_uuid i requesterId requesterRoles =
     tx_bind (accessible is_uuid i requesterId requesterRoles) (\<lambda>profile. ret (profile_toResult profile))"

definition given :: "'a option \<Rightarrow> 'a option \<Rightarrow> 'a option" where
  "given new old = (case new of Some v \<Rightarrow> Some v | None \<Rightarrow> old)"

definition apply_update :: "update_profile_input \<Rightarrow> profile_entity \<Rightarrow> profile_entity" where
  "apply_update input p =
     p\<lparr>po_name := given (ui_name input) (po_name p), po_avatarUrl := given (ui_avatarUrl input) (po_avatarUrl p),
       po_phone := given (ui_phone input) (po_phone p), po_dateOfBirth := given (ui_dateOfBirth input) (po_dateOfBirth p),
       po_addressLine := given (ui_addressLine input) (po_addressLine p), po_city := given (ui_city input) (po_city p),
       po_country := given (ui_country input) (po_country p), po_postalCode := given (ui_postalCode input) (po_postalCode p)\<rparr>"

text \<open>The columns with a length.\<close>

definition at_most :: "nat \<Rightarrow> string option \<Rightarrow> bool" where
  "at_most n v \<longleftrightarrow> (case v of None \<Rightarrow> True | Some x \<Rightarrow> length x \<le> n)"

definition profile_fits :: "profile_entity \<Rightarrow> bool" where
  "profile_fits p \<longleftrightarrow> at_most 200 (po_addressLine p) \<and> at_most 100 (po_city p) \<and>
     at_most 2 (po_country p) \<and> at_most 20 (po_postalCode p)"

definition UsersService_update ::
  "env \<Rightarrow> (string \<Rightarrow> bool) \<Rightarrow> string \<Rightarrow> update_profile_input \<Rightarrow> string option \<Rightarrow> role list \<Rightarrow>
    (profiles, http_exception, profile_result) tx" where
  "UsersService_update env is_uuid i input requesterId requesterRoles =
     tx_bind (accessible is_uuid i requesterId requesterRoles) (\<lambda>profile.
       let saved = (apply_update input profile)\<lparr>po_updatedAt := e_now env\<rparr>
       in if \<not> profile_fits saved then raise (InternalError ''value too long'')
          else tx_bind (modify (update_where (\<lambda>p. po_id p = i) (\<lambda>_. saved))) (\<lambda>_. ret (profile_toResult saved)))"

definition UsersService_remove ::
  "env \<Rightarrow> (string \<Rightarrow> bool) \<Rightarrow> string \<Rightarrow> role list \<Rightarrow> (profiles, http_exception, unit) tx" where
  "UsersService_remove env is_uuid i requesterRoles =
     (if Role_ADMIN \<notin> set requesterRoles then raise (ForbiddenException ''Only admins can delete users'')
      else tx_bind (uuid_query is_uuid i) (\<lambda>_.
           tx_bind (found (NotFoundException (''User '' @ i @ '' not found'')) (row_of po_id i)) (\<lambda>profile.
             modify (update_where (\<lambda>p. po_id p = i)
               (\<lambda>p. p\<lparr>po_isActive := False, po_updatedAt := e_now env\<rparr>)))))"

definition UsersService_createProfile ::
  "env \<Rightarrow> string \<Rightarrow> string \<Rightarrow> (profiles, http_exception, profile_result) tx" where
  "UsersService_createProfile env i email ps =
     (case row_of po_id i ps of
        Some existing \<Rightarrow> (Inr (profile_toResult existing), ps)
      | None \<Rightarrow>
          if row_of po_email email ps \<noteq> None
          then (Inl (InternalError ''duplicate key value violates unique constraint''), ps)
          else let p = \<lparr>po_id = i, po_email = email, po_name = None, po_avatarUrl = None, po_phone = None,
                         po_dateOfBirth = None, po_addressLine = None, po_city = None, po_country = None,
                         po_postalCode = None, po_isActive = True, po_createdAt = e_now env, po_updatedAt = e_now env\<rparr>
               in (Inr (profile_toResult p), ps @ [p]))"

subsection \<open>user-events.consumer.ts\<close>

definition UserEventsConsumer_handleUserRegistered ::
  "env \<Rightarrow> user_registered_event \<Rightarrow> (profiles, http_exception, unit) tx" where
  "UserEventsConsumer_handleUserRegistered env e =
     tx_bind (UsersService_createProfile env (ur_userId e) (ur_email e)) (\<lambda>_. ret ())"

subsection \<open>users.dto.ts\<close>

record validators =
  v_isUrl :: "string \<Rightarrow> bool"
  v_isDateString :: "string \<Rightarrow> bool"
  v_isCountry :: "string \<Rightarrow> bool"

definition digit :: "char \<Rightarrow> bool" where
  "digit c \<longleftrightarrow> c \<in> set ''0123456789''"

text \<open>\<^verbatim>\<open>/^\+?[1-9]\d{6,14}$/\<close>\<close>

definition phone_ok :: "string \<Rightarrow> bool" where
  "phone_ok s =
     (let ds = (case s of c # cs \<Rightarrow> if c = CHR ''+'' then cs else s | [] \<Rightarrow> [])
      in case ds of [] \<Rightarrow> False
         | c # cs \<Rightarrow> digit c \<and> c \<noteq> CHR ''0'' \<and> list_all digit cs \<and> 6 \<le> length cs \<and> length cs \<le> 14)"

definition opt :: "('a \<Rightarrow> bool) \<Rightarrow> 'a option \<Rightarrow> bool" where
  "opt P v \<longleftrightarrow> (case v of None \<Rightarrow> True | Some x \<Rightarrow> P x)"

definition UpdateUserDto_valid :: "validators \<Rightarrow> update_profile_input \<Rightarrow> bool" where
  "UpdateUserDto_valid v dto \<longleftrightarrow>
     at_most 100 (ui_name dto) \<and> opt (v_isUrl v) (ui_avatarUrl dto) \<and> opt phone_ok (ui_phone dto) \<and>
     opt (v_isDateString v) (ui_dateOfBirth dto) \<and> at_most 200 (ui_addressLine dto) \<and>
     at_most 100 (ui_city dto) \<and> opt (v_isCountry v) (ui_country dto) \<and> at_most 20 (ui_postalCode dto)"

subsection \<open>users.controller.ts\<close>

definition UsersController_findAll ::
  "(profile_entity list \<Rightarrow> profile_entity list) \<Rightarrow> int \<Rightarrow> int \<Rightarrow> string option \<Rightarrow> (profiles, http_exception, profile_result paginated_result) tx" where
  "UsersController_findAll scan page limit rolesHeader = UsersService_findAll scan page limit (parseRoles rolesHeader)"

definition UsersController_getUser ::
  "(string \<Rightarrow> bool) \<Rightarrow> string \<Rightarrow> string option \<Rightarrow> string option \<Rightarrow> (profiles, http_exception, profile_result) tx" where
  "UsersController_getUser is_uuid i requesterId rolesHeader =
     UsersService_findById is_uuid i requesterId (parseRoles rolesHeader)"

definition UsersController_updateUser ::
  "env \<Rightarrow> (string \<Rightarrow> bool) \<Rightarrow> validators \<Rightarrow> string \<Rightarrow> update_profile_input \<Rightarrow> string option \<Rightarrow> string option \<Rightarrow>
    (profiles, http_exception, profile_result) tx" where
  "UsersController_updateUser env is_uuid v i dto requesterId rolesHeader =
     (if \<not> UpdateUserDto_valid v dto then raise (BadRequestException ''Validation failed'')
      else UsersService_update env is_uuid i dto requesterId (parseRoles rolesHeader))"

definition UsersController_deleteUser ::
  "env \<Rightarrow> (string \<Rightarrow> bool) \<Rightarrow> string \<Rightarrow> string option \<Rightarrow> (profiles, http_exception, unit) tx" where
  "UsersController_deleteUser env is_uuid i rolesHeader =
     UsersService_remove env is_uuid i (parseRoles rolesHeader)"

subsection \<open>Access\<close>

lemma accessible_Inr:
  "accessible is_uuid i who roles ps = (Inr p, ps') \<longleftrightarrow>
     is_uuid i \<and> find_profile i ps = Some p \<and> ps' = ps \<and> (who = Some i \<or> Role_ADMIN \<in> set roles)"
  by (auto simp: accessible_def tx_bind_Inr uuid_query_def ret_def raise_def found_Inr split: if_splits)

lemma accessible_same: "snd (accessible is_uuid i who roles ps) = ps"
  by (auto simp: accessible_def tx_bind_def uuid_query_def ret_def raise_def found_def
      split: if_splits option.splits)

text \<open>
  C32. Someone who is neither the owner of a profile nor an admin is refused every operation on
  it, and the refused request changes nothing; only an admin lists or removes profiles.
\<close>

theorem profile_access:
  assumes "who \<noteq> Some i" "Role_ADMIN \<notin> set (parseRoles roles)"
  shows "(\<exists>e. UsersController_getUser is_uuid i who roles ps = (Inl e, ps)) \<and>
    (\<exists>e. UsersController_updateUser env is_uuid v i dto who roles ps = (Inl e, ps)) \<and>
    (\<exists>e. UsersController_deleteUser env is_uuid i roles ps = (Inl e, ps)) \<and>
    (\<exists>e. UsersController_findAll scan page limit roles ps = (Inl e, ps))"
proof -
  have "\<exists>e. accessible is_uuid i who (parseRoles roles) ps = (Inl e, ps)"
    using assms accessible_Inr [of is_uuid i who "parseRoles roles" ps] accessible_same [of is_uuid i who "parseRoles roles" ps]
    by (cases "accessible is_uuid i who (parseRoles roles) ps"; cases "fst (accessible is_uuid i who (parseRoles roles) ps)") auto
  then obtain e where e: "accessible is_uuid i who (parseRoles roles) ps = (Inl e, ps)" by blast
  then show ?thesis using assms(2)
    by (auto simp: UsersController_getUser_def UsersService_findById_def UsersController_updateUser_def
        UsersService_update_def UsersController_deleteUser_def UsersService_remove_def UsersController_findAll_def
        UsersService_findAll_def tx_bind_def raise_def)
qed

definition sample_profiles :: profiles where
  "sample_profiles = snd (UserEventsConsumer_handleUserRegistered
     \<lparr>e_now = 1, e_uuid = (\<lambda>n. replicate n CHR ''a''), e_iso = (\<lambda>_. []), e_str = (\<lambda>_. [])\<rparr>
     \<lparr>ur_userId = ''u1'', ur_email = ''u@x''\<rparr> [])"

theorem profile_access_witness:
  "\<exists>e. UsersController_getUser (\<lambda>_. True) ''u1'' (Some ''u2'') (Some ''user'') sample_profiles = (Inl e, sample_profiles)"
proof -
  have "Role_ADMIN \<notin> set (parseRoles (Some ''user''))" by code_simp
  then show ?thesis using profile_access [of "Some ''u2''" "''u1''" "Some ''user''"] by blast
qed

subsection \<open>Updates\<close>

lemma find_profile_row:
  assumes "distinct (map po_id ps)"
  shows "find_profile i ps = Some p \<longleftrightarrow> row_of po_id i ps = Some p \<and> po_isActive p"
proof
  assume "find_profile i ps = Some p"
  then have "p \<in> set ps" "po_id p = i" "po_isActive p" by (auto simp: find_profile_def dest: find_SomeD)
  with row_of_unique [OF assms, of p] show "row_of po_id i ps = Some p \<and> po_isActive p" by simp
next
  have "row_of po_id i ps = Some p \<and> po_isActive p \<Longrightarrow> find_profile i ps = Some p"
    by (induction ps) (auto simp: find_profile_def tab_simps split: if_splits)
  then show "row_of po_id i ps = Some p \<and> po_isActive p \<Longrightarrow> find_profile i ps = Some p" .
qed

lemma at_most_given: "at_most n a \<Longrightarrow> at_most n b \<Longrightarrow> at_most n (given a b)"
  by (cases a) (simp_all add: given_def)

lemma update_fits:
  assumes "UpdateUserDto_valid v dto" "\<And>c. v_isCountry v c \<Longrightarrow> length c = 2" "profile_fits p"
  shows "profile_fits ((apply_update dto p)\<lparr>po_updatedAt := d\<rparr>)"
proof -
  have "at_most 2 (ui_country dto)"
    using assms(1,2) by (cases "ui_country dto") (auto simp: UpdateUserDto_valid_def opt_def at_most_def)
  with assms(1,3) show ?thesis
    by (simp add: profile_fits_def apply_update_def UpdateUserDto_valid_def at_most_given)
qed

text \<open>
  A valid update by the owner or an admin succeeds: the profile read back has the given
  fields and keeps the others, with its id, email, activity and creation date, and every other
  profile is untouched.
\<close>

theorem profile_update:
  assumes "distinct (map po_id ps)" "find_profile i ps = Some p" "profile_fits p" "is_uuid i"
    and "who = Some i \<or> Role_ADMIN \<in> set (parseRoles roles)"
    and "UpdateUserDto_valid v dto" "\<And>c. v_isCountry v c \<Longrightarrow> length c = 2"
  shows "\<exists>q ps'. UsersController_updateUser env is_uuid v i dto who roles ps = (Inr q, ps') \<and>
    q = (apply_update dto p)\<lparr>po_updatedAt := e_now env\<rparr> \<and>
    fst (UsersController_getUser is_uuid i who roles ps') = Inr q \<and>
    (po_id q, po_email q, po_isActive q, po_createdAt q) = (po_id p, po_email p, po_isActive p, po_createdAt p) \<and>
    (\<forall>j. j \<noteq> i \<longrightarrow> row_of po_id j ps' = row_of po_id j ps)"
proof -
  define q where "q = (apply_update dto p)\<lparr>po_updatedAt := e_now env\<rparr>"
  define ps' where "ps' = update_where (\<lambda>x. po_id x = i) (\<lambda>_. q) ps"
  have p: "row_of po_id i ps = Some p" "po_isActive p" "po_id p = i"
    using assms(1,2) by (auto simp: find_profile_row dest: row_of_key)
  have ident: "(po_id q, po_email q, po_isActive q, po_createdAt q) = (po_id p, po_email p, po_isActive p, po_createdAt p)"
    by (simp add: q_def apply_update_def)
  have "profile_fits q" unfolding q_def by (rule update_fits [OF assms(6,7,3)])
  then have run: "UsersController_updateUser env is_uuid v i dto who roles ps = (Inr q, ps')"
    using assms by (auto simp: UsersController_updateUser_def UsersService_update_def tx_bind_Inr accessible_Inr
        modify_Inr ret_def profile_toResult_def q_def ps'_def Let_def)
  have row: "row_of po_id j ps' = (if j = i then Some q else row_of po_id j ps)" for j
    using p ident by (simp add: ps'_def row_of_update_key)
  have "map po_id ps' = map po_id ps" unfolding ps'_def by (rule map_update_where) (use ident p in simp)
  then have "find_profile i ps' = Some q" using row assms(1) ident p by (simp add: find_profile_row)
  then have "fst (UsersController_getUser is_uuid i who roles ps') = Inr q"
    using assms(4,5) accessible_Inr [of is_uuid i who "parseRoles roles" ps' q ps']
    by (simp add: UsersController_getUser_def UsersService_findById_def tx_bind_def ret_def profile_toResult_def)
  with run row ident show ?thesis by (intro exI [of _ q] exI [of _ ps']) (simp add: q_def [symmetric])
qed

definition sample_update :: update_profile_input where
  "sample_update = \<lparr>ui_name = Some ''Ann'', ui_avatarUrl = None, ui_phone = Some ''+380501234567'', ui_dateOfBirth = None,
     ui_addressLine = None, ui_city = None, ui_country = Some ''UA'', ui_postalCode = None\<rparr>"

definition sample_validators :: validators where
  "sample_validators = \<lparr>v_isUrl = (\<lambda>_. True), v_isDateString = (\<lambda>_. True), v_isCountry = (\<lambda>c. c = ''UA'')\<rparr>"

definition sample_profile_env :: env where
  "sample_profile_env = \<lparr>e_now = 1, e_uuid = (\<lambda>n. replicate n CHR ''a''), e_iso = (\<lambda>_. []), e_str = (\<lambda>_. [])\<rparr>"

theorem profile_update_witness:
  "\<exists>q ps'. UsersController_updateUser sample_profile_env (\<lambda>_. True) sample_validators ''u1'' sample_update (Some ''u1'') None
       sample_profiles = (Inr q, ps') \<and> po_name q = Some ''Ann'' \<and> po_email q = ''u@x''"
proof -
  obtain p where p: "find_profile ''u1'' sample_profiles = Some p" "profile_fits p" "po_email p = ''u@x''"
    by (auto simp: sample_profiles_def UserEventsConsumer_handleUserRegistered_def UsersService_createProfile_def
        find_profile_def tx_bind_def ret_def profile_fits_def at_most_def Let_def tab_simps)
  have "distinct (map po_id sample_profiles)" by code_simp
  moreover have "UpdateUserDto_valid sample_validators sample_update" by code_simp
  ultimately show ?thesis
    using profile_update [of sample_profiles "''u1''" p "\<lambda>_. True" "Some ''u1''" None sample_validators sample_update
        sample_profile_env] p by (auto simp: sample_validators_def apply_update_def sample_update_def given_def)
qed

subsection \<open>Registrations\<close>

inductive user_step :: "(string \<Rightarrow> bool) \<Rightarrow> validators \<Rightarrow> profiles \<Rightarrow> profiles \<Rightarrow> bool" for is_uuid v where
  step_registered: "user_step is_uuid v ps (snd (UserEventsConsumer_handleUserRegistered env e ps))"
| step_profile_update: "user_step is_uuid v ps (snd (UsersController_updateUser env is_uuid v i dto who roles ps))"
| step_profile_remove: "user_step is_uuid v ps (snd (UsersController_deleteUser env is_uuid i roles ps))"

definition profiles_inv :: "profiles \<Rightarrow> bool" where
  "profiles_inv ps \<longleftrightarrow> distinct (map po_id ps) \<and> distinct (map po_email ps)"

definition keys_kept :: "profiles \<Rightarrow> profiles \<Rightarrow> bool" where
  "keys_kept ps ps' \<longleftrightarrow> (\<exists>new. map (\<lambda>p. (po_id p, po_email p)) ps' = map (\<lambda>p. (po_id p, po_email p)) ps @ new)"

lemma keys_kept_refl [simp]: "keys_kept ps ps"
  by (simp add: keys_kept_def)

lemma update_keys:
  assumes "distinct (map po_id ps)"
  shows "map (\<lambda>p. (po_id p, po_email p)) (snd (UsersController_updateUser env is_uuid v i dto who roles ps)) =
    map (\<lambda>p. (po_id p, po_email p)) ps"
proof (cases "accessible is_uuid i who (parseRoles roles) ps")
  case (Pair r ps1)
  have same: "ps1 = ps" using accessible_same [of is_uuid i who "parseRoles roles" ps] Pair by simp
  show ?thesis
  proof (cases r)
    case (Inl e)
    with Pair same show ?thesis
      by (simp add: UsersController_updateUser_def UsersService_update_def tx_bind_def raise_def)
  next
    case (Inr p)
    then have p: "row_of po_id i ps = Some p" using Pair assms by (simp add: accessible_Inr find_profile_row)
    let ?q = "(apply_update dto p)\<lparr>po_updatedAt := e_now env\<rparr>"
    have "(po_id x, po_email x) = (po_id ?q, po_email ?q)" if "x \<in> set ps" "po_id x = i" for x
      using row_of_same_row [OF assms p that] by (simp add: apply_update_def)
    then have "map (\<lambda>p. (po_id p, po_email p)) (update_where (\<lambda>x. po_id x = i) (\<lambda>_. ?q) ps) = map (\<lambda>p. (po_id p, po_email p)) ps"
      by (auto simp: update_where_def)
    with Pair Inr same show ?thesis
      by (simp add: UsersController_updateUser_def UsersService_update_def tx_bind_def raise_def modify_def ret_def Let_def)
  qed
qed

lemma user_step_keys:
  assumes "user_step is_uuid v ps ps'" "profiles_inv ps"
  shows "profiles_inv ps' \<and> keys_kept ps ps'"
  using assms(1)
proof cases
  case (step_registered env e)
  then show ?thesis using assms(2)
    by (auto simp: UserEventsConsumer_handleUserRegistered_def UsersService_createProfile_def tx_bind_def ret_def
        profiles_inv_def keys_kept_def row_of_None Let_def split: option.splits)
next
  case (step_profile_update env i dto who roles)
  then have "map (\<lambda>p. (po_id p, po_email p)) ps' = map (\<lambda>p. (po_id p, po_email p)) ps"
    using assms(2) update_keys by (simp add: profiles_inv_def)
  moreover from this have "map po_id ps' = map po_id ps" "map po_email ps' = map po_email ps"
    by (auto dest: map_coarser [where g = po_id] map_coarser [where g = po_email])
  ultimately show ?thesis using assms(2) by (simp add: profiles_inv_def keys_kept_def)
next
  case (step_profile_remove env i roles)
  then show ?thesis using assms(2)
    by (auto simp: UsersController_deleteUser_def UsersService_remove_def uuid_query_def tx_bind_def raise_def ret_def
        found_def modify_def profiles_inv_def keys_kept_def map_update_where split: option.splits)
qed

interpretation user_machine: transition_system "user_step is_uuid v" "\<lambda>ps. ps = []" profiles_inv for is_uuid v
  by unfold_locales (simp add: profiles_inv_def, blast dest: user_step_keys)

text \<open>
  A registration makes one profile for ever: in any state reached after a profile with that
  id exists, whether it was updated or removed since, a redelivered registration succeeds and
  changes nothing; ids and emails stay unique.
\<close>

theorem profile_created_once:
  assumes "run (user_step is_uuid v) [] ps" "ur_userId e \<in> po_id ` set ps" "run (user_step is_uuid v) ps ps'"
  shows "UserEventsConsumer_handleUserRegistered env e ps' = (Inr (), ps') \<and>
    distinct (map po_id ps') \<and> distinct (map po_email ps')"
proof -
  have inv: "profiles_inv ps" using user_machine.reachable_inv [OF _ assms(1)] by simp
  have "keys_kept ps ps'"
    using assms(3) inv
  proof (rule user_machine.run_keeps_rel)
    fix a b c assume "keys_kept a b" "profiles_inv b" "user_step is_uuid v b c"
    with user_step_keys show "keys_kept a c" by (fastforce simp: keys_kept_def)
  qed simp
  then obtain new where "map (\<lambda>p. (po_id p, po_email p)) ps' = map (\<lambda>p. (po_id p, po_email p)) ps @ new"
    by (auto simp: keys_kept_def)
  from arg_cong [OF this, of "\<lambda>xs. fst ` set xs"] have "po_id ` set ps \<subseteq> po_id ` set ps'"
    by (auto simp: image_image image_Un)
  with assms(2) have "row_of po_id (ur_userId e) ps' \<noteq> None" by (auto simp: row_of_None)
  moreover have "profiles_inv ps'" using user_machine.run_keeps_inv [OF assms(3) inv] .
  ultimately show ?thesis
    by (auto simp: UserEventsConsumer_handleUserRegistered_def UsersService_createProfile_def tx_bind_def ret_def
        profiles_inv_def)
qed

theorem profile_created_once_witness:
  "\<exists>ps'. ps' = snd (UsersController_deleteUser sample_profile_env (\<lambda>_. True) ''u1'' (Some ''admin'') sample_profiles) \<and>
     UserEventsConsumer_handleUserRegistered sample_profile_env \<lparr>ur_userId = ''u1'', ur_email = ''u@x''\<rparr> ps' = (Inr (), ps') \<and>
     find_profile ''u1'' ps' = None"
proof -
  let ?ps = "snd (UsersController_deleteUser sample_profile_env (\<lambda>_. True) ''u1'' (Some ''admin'') sample_profiles)"
  have "user_step (\<lambda>_. True) sample_validators [] sample_profiles"
    unfolding sample_profiles_def by (rule step_registered)
  then have a: "run (user_step (\<lambda>_. True) sample_validators) [] sample_profiles" by (blast intro: run.intros)
  have "user_step (\<lambda>_. True) sample_validators sample_profiles ?ps" by (rule step_profile_remove)
  then have b: "run (user_step (\<lambda>_. True) sample_validators) sample_profiles ?ps" by (blast intro: run.intros)
  have "ur_userId \<lparr>ur_userId = ''u1'', ur_email = ''u@x''\<rparr> \<in> po_id ` set sample_profiles" by code_simp
  note once = profile_created_once [OF a this b]
  have "find_profile ''u1'' ?ps = None" by code_simp
  with once show ?thesis by blast
qed

end
