(* ===== verification/AccountFlow.thy ===== *)
theory AccountFlow
  imports GatewaySafety AuthSafety Users
begin

section \<open>From a login to the services behind the gateway\<close>

text \<open>
  The auth-service signs the access token, the gateway reads it and forwards the identity in
  headers, the user-service decides by these headers. The composition shows that the headers name
  the account whose password was given: the uniqueness of the ids in the auth-service is what the
  gateway's cache relies on (\<open>issued_ok\<close>).
\<close>

subsection \<open>Tokens of accounts\<close>

text \<open>The payloads the auth-service signs for the accounts of a state.\<close>

definition account_payload :: "auth_db \<Rightarrow> verified_payload \<Rightarrow> bool" where
  "account_payload s p \<longleftrightarrow>
     list_ex (\<lambda>u. us_id u = jp_sub p \<and> us_email u = jp_email p \<and> us_roles u = jp_roles p) (users s)"

text \<open>Passport verifies a bearer token with the secret the access tokens are signed with.\<close>

definition reads_token :: "crypto \<Rightarrow> auth_config \<Rightarrow> date \<Rightarrow> gateway_io \<Rightarrow> string \<Rightarrow> bool" where
  "reads_token cr cfg now io token \<longleftrightarrow>
     map_option jwt_payload.truncate (gi_bearer io (Some (''Bearer '' @ token))) = cr_verify cr (ac_secret cfg) now token"

lemma accounts_issued_ok:
  assumes "accounts_inv ru s"
  shows "issued_ok (account_payload s)"
proof -
  have "inj_on us_id (set (users s))" using assms by (simp add: accounts_inv_def distinct_map)
  then show ?thesis
    unfolding issued_ok_def account_payload_def list_ex_iff payload_user_def by (metis inj_onD)
qed

lemma login_Inr:
  assumes "AuthController_login cr cfg env is_email to_lower email password s = (Inr t, s')"
  obtains u where "u \<in> set (users s)" "us_email u = normalize_email to_lower email" "us_isActive u"
    "cr_compare cr password (us_passwordHash u)" "AuthService_issueTokens cr cfg env u s = (Inr t, s')"
proof -
  let ?find = "List.find (\<lambda>u. us_email u = normalize_email to_lower email \<and> us_isActive u) (users s)"
  obtain u where u: "?find = Some u" "cr_compare cr password (us_passwordHash u)" "AuthService_issueTokens cr cfg env u s = (Inr t, s')"
    using assms
    by (auto simp: AuthController_login_def AuthService_login_def login_user_def tx_bind_def with_auth_http_def raise_def Let_def
        split: if_splits option.splits sum.splits prod.splits)
  with find_SomeD [OF u(1)] that show thesis by blast
qed

lemma read_access_token:
  assumes "crypto_ok cr" "AuthService_issueTokens cr cfg env u s = (Inr t, s')" "reads_token cr cfg now io (tk_accessToken t)"
    and "now div 1000 < e_now env div 1000 + ac_accessExpiresIn cfg"
  obtains p where "gi_bearer io (Some (''Bearer '' @ tk_accessToken t)) = Some p"
    "payload_user p = \<lparr>ru_id = us_id u, ru_email = us_email u, ru_roles = us_roles u\<rparr>"
proof -
  have "cr_verify cr (ac_secret cfg) now (tk_accessToken t) = Some (new_payload env (seq s) u)"
    using assms(1,4) issueTokens_Inr(4) [OF assms(2)] unfolding crypto_ok_def by blast
  then obtain p where "gi_bearer io (Some (''Bearer '' @ tk_accessToken t)) = Some p" "jwt_payload.truncate p = new_payload env (seq s) u"
    using assms(3) by (auto simp: reads_token_def)
  moreover from this(2) have "payload_user p = \<lparr>ru_id = us_id u, ru_email = us_email u, ru_roles = us_roles u\<rparr>"
    by (simp add: payload_user_def new_payload_def jwt_payload.defs)
  ultimately show thesis using that by blast
qed

subsection \<open>Who the services see\<close>

text \<open>
  C31. A login identifies its user everywhere. In every reachable state of the auth-service and
  of the gateway, with the token of a login that has not expired, the guard of the gateway finds the
  active account of the address whose password was given, whatever the cache holds; a request
  that is forwarded carries the id, the address and the roles of that account, on a route for
  admins the account is an admin's; and with these headers the user-service gives the user
  the user's own profile.
\<close>

theorem login_identity:
  assumes "crypto_ok cr" "uuid_ok ru" "auth_initial c0" "run (auth_step cr cfg ru) c0 c" "s = au_db c"
    and "AuthController_login cr cfg env is_email to_lower email password s = (Inr t, s')"
    and "gateway_initial g0" "run (gateway_step (account_payload s)) g0 g" "bearer_ok (account_payload s) io"
    and "reads_token cr cfg (e_now env') io (tk_accessToken t)" "e_now env' div 1000 < e_now env div 1000 + ac_accessExpiresIn cfg"
    and "gq_authorization req = Some (''Bearer '' @ tk_accessToken t)" "\<not> isPublic rt" "gateway_handle io env' rt req g = (r, g')"
  shows "\<exists>u \<in> set (users s). us_email u = normalize_email to_lower email \<and> us_isActive u \<and>
    cr_compare cr password (us_passwordHash u) \<and>
    fst (JwtAuthGuard_canActivate io env' False req g) =
      Inr (Some \<lparr>ru_id = us_id u, ru_email = us_email u, ru_roles = us_roles u\<rparr>) \<and>
    (gw_sent g' \<noteq> gw_sent g \<longrightarrow>
      (\<exists>sv out. gw_sent g' = gw_sent g @ [(sv, out)] \<and>
        og_headers out (HEADERS USER_ID) = Some (us_id u) \<and> og_headers out (HEADERS USER_EMAIL) = Some (us_email u) \<and>
        parseRoles (og_headers out (HEADERS USER_ROLES)) = us_roles u \<and>
        (requiredRoles rt \<noteq> [] \<longrightarrow> Role_ADMIN \<in> set (us_roles u)) \<and>
        (\<forall>is_uuid ps p. is_uuid (us_id u) \<longrightarrow> find_profile (us_id u) ps = Some p \<longrightarrow>
          UsersController_getUser is_uuid (us_id u) (og_headers out (HEADERS USER_ID)) (og_headers out (HEADERS USER_ROLES)) ps =
            (Inr (profile_toResult p), ps))))"
proof -
  obtain u where u: "u \<in> set (users s)" "us_email u = normalize_email to_lower email" "us_isActive u"
    "cr_compare cr password (us_passwordHash u)" and issue: "AuthService_issueTokens cr cfg env u s = (Inr t, s')"
    using login_Inr [OF assms(6)] by blast
  obtain p where p: "gi_bearer io (gq_authorization req) = Some p"
    "payload_user p = \<lparr>ru_id = us_id u, ru_email = us_email u, ru_roles = us_roles u\<rparr>"
    using read_access_token [OF assms(1) issue assms(10,11)] assms(12) by metis
  have same: "jp_sub p = us_id u" "jp_email p = us_email u" "jp_roles p = us_roles u" using p(2) by (simp_all add: payload_user_def)
  note sound = gateway_machine.reachable_inv [OF assms(7,8)]
  have "accounts_inv ru s" using accounts_machine.reachable_inv [OF assms(3,4)] assms(2,5) by simp
  note ok = accounts_issued_ok [OF this]
  have guard: "fst (JwtAuthGuard_canActivate io env' False req g) = Inr (Some (payload_user p))"
    using JwtAuthGuard_run [OF sound ok assms(9) surjective_pairing, of env' False req] p(1) by simp
  have own: "UsersController_getUser is_uuid (us_id u) (Some (us_id u)) h ps = (Inr (profile_toResult pr), ps)"
    if h: "is_uuid (us_id u)" "find_profile (us_id u) ps = Some pr" for is_uuid h ps pr
  proof -
    have "accessible is_uuid (us_id u) (Some (us_id u)) (parseRoles h) ps = (Inr pr, ps)" using h by (simp add: accessible_Inr)
    then show ?thesis by (simp add: UsersController_getUser_def UsersService_findById_def tx_bind_def ret_def)
  qed
  show ?thesis
    using forwarded_identity [OF sound ok assms(9,14)] assms(13) p(1) same u guard own unfolding p(2)
    by (intro bexI [of _ u] conjI impI) (auto simp del: HEADERS.simps)
qed

definition sample_login :: "tokens_result" where
  "sample_login = projr (fst (AuthController_login sample_crypto sample_auth_config sample_env (\<lambda>_. True) id
     ''u@x'' ''password'' sample_registered))"

definition login_io :: gateway_io where
  "login_io = (sample_io ok_response)\<lparr>gi_bearer := (\<lambda>h.
     if h = Some (''Bearer '' @ tk_accessToken sample_login)
     then map_option (\<lambda>p. jwt_payload.extend p (verified_payload.fields (Some 1) (Some 4)))
       (cr_verify sample_crypto (ac_secret sample_auth_config) (e_now sample_env) (tk_accessToken sample_login))
     else None)\<rparr>"

definition login_request :: gateway_request where
  "login_request = sample_request\<lparr>gq_authorization := Some (''Bearer '' @ tk_accessToken sample_login)\<rparr>"

theorem login_identity_witness:
  "\<exists>u sv out. u \<in> set (users sample_registered) \<and> us_email u = ''u@x'' \<and>
     gw_sent (snd (gateway_handle login_io sample_env Orders_findAll login_request empty_gateway)) = [(sv, out)] \<and>
     og_headers out (HEADERS USER_ID) = Some (us_id u) \<and> parseRoles (og_headers out (HEADERS USER_ROLES)) = us_roles u"
proof -
  let ?l = "AuthController_login sample_crypto sample_auth_config sample_env (\<lambda>_. True) id ''u@x'' ''password'' sample_registered"
  let ?h = "gateway_handle login_io sample_env Orders_findAll login_request empty_gateway"
  have "case fst ?l of Inl _ \<Rightarrow> False | Inr _ \<Rightarrow> True" by code_simp
  then have run: "?l = (Inr sample_login, snd ?l)" by (simp add: sample_login_def prod_eq_iff split: sum.splits)
  have verified: "cr_verify sample_crypto (ac_secret sample_auth_config) (e_now sample_env) (tk_accessToken sample_login) =
      Some \<lparr>jp_sub = ''a'', jp_email = ''u@x'', jp_roles = [Role_USER], jp_jti = ''aaaa''\<rparr>" by code_simp
  have users: "map (\<lambda>u. (us_id u, us_email u, us_roles u)) (users sample_registered) = [(''a'', ''u@x'', [Role_USER])]" by code_simp
  then have bearer: "bearer_ok (account_payload sample_registered) login_io"
    using verified
    by (auto simp: bearer_ok_def login_io_def account_payload_def jwt_payload.defs verified_payload.defs
        split: if_splits)
  have reads: "reads_token sample_crypto sample_auth_config (e_now sample_env) login_io (tk_accessToken sample_login)"
    using verified by (simp add: reads_token_def login_io_def jwt_payload.defs verified_payload.defs)
  have valid: "e_now sample_env div 1000 < e_now sample_env div 1000 + ac_accessExpiresIn sample_auth_config"
    by (simp add: sample_auth_config_def)
  have req: "gq_authorization login_request = Some (''Bearer '' @ tk_accessToken sample_login)" by (simp add: login_request_def)
  have "\<not> isPublic Orders_findAll" by (simp add: isPublic_def)
  have "length (gw_sent (snd ?h)) = 1" by code_simp
  then have sent: "gw_sent (snd ?h) \<noteq> gw_sent empty_gateway" "gw_sent empty_gateway = []" by (auto simp: empty_gateway_def)
  have "normalize_email id ''u@x'' = ''u@x''" by code_simp
  with sent show ?thesis
    using login_identity [OF sample_crypto_ok sample_uuid_ok empty_server_initial sample_server_reachable sample_server_db [symmetric] run
        sample_gateway(1) run_refl bearer reads valid req \<open>\<not> isPublic Orders_findAll\<close> surjective_pairing]
    by (auto simp del: HEADERS.simps)
qed

end
