(* ===== verification/Monitoring.thy ===== *)
theory Monitoring
  imports Gateway
begin

section \<open>The request log and the health endpoints\<close>

text \<open>
  What an operator sees of the running system: the lines the \<^verbatim>\<open>LoggingInterceptor\<close> of the gateway
  writes (\<^verbatim>\<open>services/gateway/src/interceptors/logging.interceptor.ts\<close>), and the health endpoints of
  the services (\<^verbatim>\<open>packages/kafka/src\<close>, \<^verbatim>\<open>services/pdf-service/src/health\<close>, the gateway's own). The log does
  not disturb a request, but it is no log of every request: a request that a guard refuses leaves no line, and one that fails
  behind the guards leaves no line with its status. The probe of the Kafka cluster reports the first call that
  failed and disconnects on every path.
\<close>

subsection \<open>logging.interceptor.ts\<close>

text \<open>The two arrows are non-ASCII characters; a string of the model is the bytes of its UTF-8 encoding.\<close>

definition arrow_in :: string where
  "arrow_in = [CHR 0xE2, CHR 0x86, CHR 0x92]"

definition arrow_out :: string where
  "arrow_out = [CHR 0xE2, CHR 0x86, CHR 0x90]"

definition int_text :: "int \<Rightarrow> string" where
  "int_text k = (if k < 0 then ''-'' @ decimal_digits (nat (- k)) else decimal_digits (nat k))"

definition log_request :: "string \<Rightarrow> string \<Rightarrow> string option \<Rightarrow> string" where
  "log_request meth url corrId =
     arrow_in @ '' '' @ meth @ '' '' @ url @ '' [corr: '' @ (case corrId of None \<Rightarrow> ''-'' | Some c \<Rightarrow> c) @ '']''"

definition log_response :: "string \<Rightarrow> string \<Rightarrow> int \<Rightarrow> int \<Rightarrow> string option \<Rightarrow> string" where
  "log_response meth url status ms corrId =
     arrow_out @ '' '' @ meth @ '' '' @ url @ '' '' @ int_text status @ '' ('' @ int_text ms @ ''ms) [corr: '' @
       (case corrId of None \<Rightarrow> ''-'' | Some c \<Rightarrow> c) @ '']''"

text \<open>
  \<open>start\<close> and \<open>finish\<close> are the two readings of the clock. The callback of \<^verbatim>\<open>tap\<close> runs for a value of the handler,
  not for an error.
\<close>

definition LoggingInterceptor ::
  "string \<Rightarrow> string \<Rightarrow> string option \<Rightarrow> date \<Rightarrow> date \<Rightarrow> http_reply gw \<Rightarrow> gateway \<Rightarrow>
    ((gw_exception + http_reply) \<times> gateway) \<times> string list" where
  "LoggingInterceptor meth url corrId start finish handle st =
     (case handle st of
        (Inl e, st') \<Rightarrow> ((Inl e, st'), [log_request meth url corrId])
      | (Inr r, st') \<Rightarrow> ((Inr r, st'),
          [log_request meth url corrId, log_response meth url (hr_status r) (finish - start) corrId]))"

text \<open>
  The request as the gateway handles it, with the log: the guards run before the
  interceptors, and the \<^verbatim>\<open>LoggingInterceptor\<close> stands between the one for the correlation id and the one for the timeout
  (\<^verbatim>\<open>app.module.ts\<close>).
\<close>

definition gateway_logged ::
  "gateway_io \<Rightarrow> env \<Rightarrow> route \<Rightarrow> string \<Rightarrow> string \<Rightarrow> date \<Rightarrow> gateway_request \<Rightarrow> gateway \<Rightarrow>
    ((api_error + http_reply \<times> string) \<times> gateway) \<times> string list" where
  "gateway_logged io env rt meth url finish req st =
     (case JwtAuthGuard_canActivate io env (isPublic rt) req st of
        (Inl e, st1) \<Rightarrow> ((Inl (HttpExceptionFilter_catch env None e), st1), [])
      | (Inr user, st1) \<Rightarrow>
          (case RolesGuard_canActivate (requiredRoles rt) user of
             Inl e \<Rightarrow> ((Inl (HttpExceptionFilter_catch env None e), st1), [])
           | Inr _ \<Rightarrow>
               (case CorrelationIdInterceptor env req st1 of (corr, st2) \<Rightarrow>
                  (case LoggingInterceptor meth url (Some corr) (e_now env) finish
                      (TimeoutInterceptor (gi_late io) (route_handler io rt req user (Some corr))) st2 of
                     ((Inl e, st3), lines) \<Rightarrow> ((Inl (HttpExceptionFilter_catch env (Some corr) e), st3), lines)
                   | ((Inr r, st3), lines) \<Rightarrow> ((Inr (r, corr), st3), lines)))))"

text \<open>
  The log changes no answer and no state. A request that succeeds has two lines, the second with
  its status and under the correlation id it is answered with; one that fails behind the guards has the first line only; one that a
  guard refuses, which is answered without a correlation id, has none.
\<close>

theorem request_log:
  "fst (gateway_logged io env rt meth url finish req st) = gateway_handle io env rt req st \<and>
   snd (gateway_logged io env rt meth url finish req st) =
     (case fst (gateway_handle io env rt req st) of
        Inr (r, corr) \<Rightarrow> [log_request meth url (Some corr), log_response meth url (hr_status r) (finish - e_now env) (Some corr)]
      | Inl e \<Rightarrow> (case ae_correlationId e of None \<Rightarrow> [] | Some corr \<Rightarrow> [log_request meth url (Some corr)]))"
  by (auto simp: gateway_logged_def gateway_handle_def LoggingInterceptor_def HttpExceptionFilter_catch_def Let_def
      split: prod.splits sum.splits)

subsection \<open>kafka-health.indicator.ts\<close>

text \<open>
  The calls of the Kafka admin client; \<open>admin c\<close> is the message of the error the call
  throws, if it does. \<^verbatim>\<open>getStatus\<close> is a method of the terminus library. \<open>Inl\<close> is the thrown \<^verbatim>\<open>HealthCheckError\<close> with its
  message and causes; the calls made are returned too.
\<close>

datatype admin_call = AdminConnect | AdminDescribeCluster | AdminDisconnect

type_synonym 'r status_of = "string \<Rightarrow> bool \<Rightarrow> (string \<times> string) list \<Rightarrow> 'r"

type_synonym 'r indicator = "string \<times> 'r + 'r"

definition health_caught :: "'r status_of \<Rightarrow> string \<Rightarrow> admin_call list \<Rightarrow> string \<Rightarrow> 'r indicator \<times> admin_call list" where
  "health_caught getStatus key calls msg =
     (Inl (''Kafka health check failed'', getStatus key False [(''message'', msg)]), calls @ [AdminDisconnect])"

definition KafkaHealthIndicator_isHealthy ::
  "'r status_of \<Rightarrow> (admin_call \<Rightarrow> string option) \<Rightarrow> string \<Rightarrow> 'r indicator \<times> admin_call list" where
  "KafkaHealthIndicator_isHealthy getStatus admin key =
     (case admin AdminConnect of
        Some msg \<Rightarrow> health_caught getStatus key [AdminConnect] msg
      | None \<Rightarrow>
          (case admin AdminDescribeCluster of
             Some msg \<Rightarrow> health_caught getStatus key [AdminConnect, AdminDescribeCluster] msg
           | None \<Rightarrow>
               (case admin AdminDisconnect of
                  Some msg \<Rightarrow> health_caught getStatus key [AdminConnect, AdminDescribeCluster, AdminDisconnect] msg
                | None \<Rightarrow> (Inr (getStatus key True []), [AdminConnect, AdminDescribeCluster, AdminDisconnect]))))"

text \<open>
  The endpoints: \<open>check\<close> is the \<^verbatim>\<open>HealthCheckService\<close> of terminus, \<open>pingCheck\<close> and \<open>checkHeap\<close> are its indicators.
\<close>

definition DbKafkaHealthController_check ::
  "((unit \<Rightarrow> 'r indicator) list \<Rightarrow> 'o) \<Rightarrow> (string \<Rightarrow> 'r indicator) \<Rightarrow> 'r status_of \<Rightarrow> (admin_call \<Rightarrow> string option) \<Rightarrow> 'o" where
  "DbKafkaHealthController_check check pingCheck getStatus admin =
     check [\<lambda>_. pingCheck ''database'', \<lambda>_. fst (KafkaHealthIndicator_isHealthy getStatus admin ''kafka'')]"

definition DbHealthController_check :: "((unit \<Rightarrow> 'r indicator) list \<Rightarrow> 'o) \<Rightarrow> (string \<Rightarrow> 'r indicator) \<Rightarrow> 'o" where
  "DbHealthController_check check pingCheck = check [\<lambda>_. pingCheck ''database'']"

definition PdfHealthController_check ::
  "((unit \<Rightarrow> 'r indicator) list \<Rightarrow> 'o) \<Rightarrow> 'r status_of \<Rightarrow> (admin_call \<Rightarrow> string option) \<Rightarrow> 'o" where
  "PdfHealthController_check check getStatus admin =
     check [\<lambda>_. fst (KafkaHealthIndicator_isHealthy getStatus admin ''kafka'')]"

definition GatewayHealthController_check ::
  "((unit \<Rightarrow> (string \<times> (string \<times> breaker_status) list) indicator) list \<Rightarrow> 'o) \<Rightarrow>
    (string \<Rightarrow> nat \<Rightarrow> (string \<times> (string \<times> breaker_status) list) indicator) \<Rightarrow> (service_name \<times> breaker) list \<Rightarrow> 'o" where
  "GatewayHealthController_check check checkHeap breakers =
     check [\<lambda>_. checkHeap ''memory_heap'' (300 * 1024 * 1024),
       \<lambda>_. case checkCircuitBreakers breakers of
          Inl result \<Rightarrow> Inl (''One or more circuit breakers are open'', result)
        | Inr result \<Rightarrow> Inr result]"

text \<open>
  The probe is healthy exactly if none of the three calls failed; otherwise it carries the message of the first
  that did. Its last call is a disconnect in every case.
\<close>

theorem kafka_probe:
  "fst (KafkaHealthIndicator_isHealthy getStatus admin key) =
     (case List.find (\<lambda>c. admin c \<noteq> None) [AdminConnect, AdminDescribeCluster, AdminDisconnect] of
        None \<Rightarrow> Inr (getStatus key True [])
      | Some c \<Rightarrow> Inl (''Kafka health check failed'', getStatus key False [(''message'', the (admin c))])) \<and>
   last (snd (KafkaHealthIndicator_isHealthy getStatus admin key)) = AdminDisconnect \<and>
   length (snd (KafkaHealthIndicator_isHealthy getStatus admin key)) \<le> 4"
  by (simp add: KafkaHealthIndicator_isHealthy_def health_caught_def split: option.split)

end
