(* ===== verification/Spec2Isabelle.thy ===== *)
theory Spec2Isabelle
  imports Shop ProductReads Notifications AccountFlow Monitoring
begin

text \<open>
  \<^bold>\<open>shop-microservices: a verified model of a shop made of eight services\<close>

  \<^bold>\<open>The program.\<close> Clients talk to the \<^emph>\<open>gateway\<close> over HTTP. It verifies the JSON web token of a
  request, checks the roles of the route, and forwards the request with the identity in headers
  to one of five services: \<^emph>\<open>auth\<close> (accounts and tokens), \<^emph>\<open>user\<close> (profiles), \<^emph>\<open>product\<close>
  (catalogue and stock), \<^emph>\<open>order\<close> and \<^emph>\<open>payment\<close> (wallets). The services talk to each other by
  Kafka messages only. A message is first written to an outbox table, in the transaction that
  makes it true, and a processor publishes the rows every few seconds, at least once. The
  order-service drives every order by a saga: it asks the product-service to reserve the stock,
  then the payment-service to charge the customer, and if the charge is refused it has the
  stock released; a timer repeats commands whose reply does not come. Commands are
  de-duplicated by their id at the receiver. The final events reach \<^emph>\<open>notification\<close> (mails) and
  \<^emph>\<open>pdf\<close> (receipts). A registration is announced by the auth-service and makes a profile and a wallet.

  \<^bold>\<open>How it is modelled.\<close> A service is a record of its tables (lists of rows, in insertion
  order) and, where it has one, its cache. An operation is a function of the type \<open>tx\<close> of the
  theory \<open>Prelude\<close>: from a state to an error or a result and a state. \<open>transaction\<close> undoes the
  changes of a failed body and of a refused commit (its argument \<open>fault\<close>); row locks make the
  transactions on a row sequential, so a transaction is one step. Where a request awaits several
  operations without a transaction, the parts between the awaits are definitions of their own, and the machines of
  \<open>ProductReads\<close> and \<open>AuthSessions\<close> interleave them. What the code takes from
  outside comes in as arguments: \<open>env\<close> holds the clock, the stream of generated ids and the
  rendering of dates and numbers; brokers, caches, file systems, hash functions, token libraries
  and circuit breakers are arguments of the operations that use them, with what is relied upon as
  a named hypothesis (\<open>uuid_ok\<close>: ids do not repeat; \<open>crypto_ok\<close>, \<open>issued_ok\<close>, \<open>bearer_ok\<close>,
  \<open>reads_token\<close>). Numbers of the language are binary64: \<open>JsNumber\<close> rounds after every operation,
  and the columns of the database round to cents. A service as a whole is an inductive step relation, one
  rule per request, message, timer and failure; its invariant is proved once for every step, by
  an interpretation of the locale \<open>transition_system\<close>.

  \<^bold>\<open>Foundations.\<close>
  \<^item> \<open>JsNumber\<close>: binary64 rounding, decimal columns, and the error bounds under which money in whole
    cents survives them.
  \<^item> \<open>Prelude\<close>: the monad, transactions, tables as lists, ids, runs of step relations.
  \<^item> \<open>Shared\<close> (\<^verbatim>\<open>packages/shared\<close>): topics, headers, roles, the payload of every message, the guard
    that checks the internal secret.
  \<^item> \<open>Pagination\<close>: the list endpoints, with the locale \<open>paged_query\<close>: the pages put together are the list.
  \<^item> \<open>JsText\<close>: \<^verbatim>\<open>toFixed\<close>, \<^verbatim>\<open>URLSearchParams\<close>.
  \<^item> \<open>Kafka\<close> (\<^verbatim>\<open>packages/kafka\<close>): envelope, publish, and the dispatch loop with its retries and the
    dead-letter topic; its recursion ends because the attempts are bounded by \<open>maxRetries\<close>.
  \<^item> \<open>Outbox\<close> (\<^verbatim>\<open>packages/outbox\<close> and the order-service's own): the table, both writers and both
    processors. The locales \<open>outbox_writer\<close> and \<open>outbox_processor\<close> are interpreted for each of them; a
    tick takes at most ten due rows.
  \<^item> \<open>Idempotency\<close>: the table of handled commands, with the locale \<open>idempotent_consumer\<close>, interpreted for
    the saga controllers of the product- and the payment-service.

  \<^bold>\<open>Order-service\<close> (\<^verbatim>\<open>services/order-service/src/orders\<close>).
  \<^item> \<open>OrderDomain\<close>: the entities \<open>Order\<close> and \<open>Saga\<close> and their transitions; \<open>saga_move\<close>, the abstract saga.
  \<^item> \<open>OrderPersistence\<close>: ORM entities, mappers, repositories; their contracts are the locales
    \<open>order_repository\<close> and \<open>saga_repository\<close>.
  \<^item> \<open>SagaOrchestrator\<close>: the five replies, the cancellation, the retry timer, order creation, the reply
    controller.
  \<^item> \<open>OrderInvariant\<close>: what orders, sagas and outbox rows have to do with each other, and that every step
    keeps it.
  \<^item> \<open>OrderSafety\<close>: the service refines the saga machine; no contradictory final events; command ids are
    keys; replies take effect; what the timer does. \<open>SagaTermination\<close>: every saga comes to rest, after at most
    sixteen changes, and the timer alone ends one whose replies never come.
  \<^item> \<open>OrderApi\<close>: controller, validation, reading use cases.

  \<^bold>\<open>The other services.\<close>
  \<^item> \<open>Products\<close>, \<open>ProductStock\<close>, \<open>ProductMachine\<close> (\<^verbatim>\<open>services/product-service\<close>): catalogue, cache, stock commands;
    their effect, their idempotence, the exactness of the total; \<open>ProductMachine\<close> runs one request
    after the other. \<open>ProductReads\<close> takes the requests apart at their awaits (\<open>change_found\<close> and \<open>save_product\<close>
    for an update or a removal, a step per await for a read) and lets them overlap: stock and prices stay sound, reads are fresh from an
    eviction on, cache misses are fetched once (\<open>dedup\<close>), and every read is answered; two interleavings leave a
    stale product in the cache, and one loses a reservation. A request that is not disturbed is the operation of \<open>Products\<close>.
  \<^item> \<open>Payments\<close>, \<open>PaymentSafety\<close> (\<^verbatim>\<open>services/payment-service\<close>): wallets and payments; conservation of money to the
    cent, no double charge, what a refusal leaves behind.
  \<^item> \<open>Auth\<close>, \<open>AuthSessions\<close>, \<open>AuthSafety\<close> (\<^verbatim>\<open>services/auth-service\<close>): registration, login, refresh, logout.
    \<open>AuthSessions\<close> interleaves the requests: reading the user (\<open>auth_begin\<close>), signing (\<open>sign_session\<close>) and storing the
    digest (\<open>store_session\<close>) are steps of their own. Unique and announced accounts; rotation of refresh tokens, which two
    concurrent refreshes with one token escape until the first of them stores its own.
  \<^item> \<open>Users\<close> (\<^verbatim>\<open>services/user-service\<close>): profiles and who may see and change them.
  \<^item> \<open>Notifications\<close> (\<^verbatim>\<open>services/notification-service\<close>, \<^verbatim>\<open>services/pdf-service\<close>): one mail per order and event; receipts.
  \<^item> \<open>Gateway\<close>, \<open>GatewaySafety\<close> (\<^verbatim>\<open>services/gateway\<close>): guards, token cache, every route, circuit-breaker outcomes,
    exception filter; no request under a foreign identity, the answer of every failure, list
    queries that arrive as given.
  \<^item> \<open>Monitoring\<close>: the request log of the gateway and the health endpoints of all services; the log disturbs nothing, and which
    requests it misses; the verdict of the Kafka probe.

  \<^bold>\<open>Compositions.\<close> \<open>SagaEvidence\<close> and \<open>Shop\<close>: the order-, product- and payment-service and the messages between
    them as one machine, in which any message of the bus may be delivered at any time and any number of times; the saga
    is all or nothing, and nobody pays for goods that are not held.
    \<open>OrderFlow\<close>: every message has the interface of its topic; an order is paid with the price of its products
    to the cent across three services; a compensation gives back exactly what was taken.
    \<open>AccountFlow\<close>: with the token of a login the services see the account whose password was given. The receipt
    theorem of \<open>Notifications\<close> runs the pdf-service under the dispatch loop.

  \<^bold>\<open>Bounds.\<close> The results on money hold for amounts up to ten billion cents and orders of up to
  ten thousand lines, which keeps the accumulated rounding error below half a cent; the columns of the
  database refuse larger amounts. The stock column is a 32-bit integer, written out where it is
  changed. No definition needs fuel: the loops of the program recurse over a list or a bounded counter.

  \<^bold>\<open>Not modelled.\<close> Tracing, metrics and the log lines of the services (other than the request log of the gateway), which
  change no state; start-up, dependency injection and module wiring, except for the order of guards,
  interceptors and filter and the validation pipes, which are part of the handlers; the classes that exist for the generated API documentation;
  the layout calls of pdfkit; the statistics by which a circuit breaker decides to open (its outcomes
  are arguments); the UUID check of path parameters in the product-service; interleavings inside one
  database transaction or one save of a repository; the order in which the database comes upon rows, which is an
  argument (\<open>scan\<close>) of the list queries and for the due rows of an outbox that of the table; scripts, load tests and tests.
\<close>

end
